(* ===== verification/Prelude.thy ===== *)
theory Prelude
  imports Main "HOL-Library.Char_ord" "HOL-Library.List_Lexorder" "HOL-Library.Word"
begin

text \<open>
  Shared vocabulary of the development: return codes, the values of an
  exception, C++ \<open>std::string\<close> helpers, the signed \<open>char\<close> arithmetic of the
  x86-64 targets the project builds for, and \<open>std::map\<close> with string keys as a
  strictly sorted association list.  The interface of an ordered map is the
  locale \<open>ordered_map\<close>; it is interpreted on the sorted association list.
\<close>

named_theorems smap_simps "facts about the sorted association list"
named_theorems url_simps "facts about the parts of a URL"
named_theorems msg_simps "facts about HTTP messages"

section \<open>Results\<close>

type_synonym rc = int

text \<open>
  An exception that leaves a function: the exceptions thrown by the vendored
  URL library, by the standard library, by a user handler, a dereferenced null
  pointer, a read of freed memory, or a failed \<open>RAPIDJSON_ASSERT\<close>; and, beside the
  exceptions, \<open>Blocks\<close>, a call that never returns.
\<close>

datatype exn =
    InvalidPart
  | OutOfRange
  | InvalidArgument
  | NullDereference
  | JsonAssert
  | BadAddress
  | BadFunctionCall
  | UseAfterFree
  | Blocks
  | HandlerThrew string

type_synonym 'a res = "exn + 'a"

fun bind_res :: "'a res \<Rightarrow> ('a \<Rightarrow> 'b res) \<Rightarrow> 'b res" where
  "bind_res (Inl e) f = Inl e"
| "bind_res (Inr x) f = f x"

lemma bind_res_Inr_iff:
  "bind_res r f = Inr y \<longleftrightarrow> (\<exists>x. r = Inr x \<and> f x = Inr y)"
  by (cases r) auto

lemma bind_res_assoc: "bind_res (bind_res r f) g = bind_res r (\<lambda>x. bind_res (f x) g)"
  by (cases r) simp_all

lemma bind_res_Inl_iff:
  "bind_res r f = Inl e \<longleftrightarrow> r = Inl e \<or> (\<exists>x. r = Inr x \<and> f x = Inl e)"
  by (cases r) auto

section \<open>Characters and machine integers\<close>

text \<open>
  \<open>char\<close> is signed on the targets of the build (\<open>-m64\<close> GCC on x86-64): a
  comparison such as \<open>c <= 0x20\<close> promotes to \<open>int\<close> with sign extension.
\<close>

definition schar :: "char \<Rightarrow> int" where
  "schar c = (let n = int (of_char c :: nat) in if n < 128 then n else n - 256)"

text \<open>Conversion of an \<open>int\<close> to \<open>char\<close> keeps the low eight bits.\<close>

definition to_char :: "int \<Rightarrow> char" where
  "to_char i = char_of (nat (i mod 256))"

text \<open>Conversion of a wide integer to a 32-bit \<open>int\<close> keeps the low 32 bits.\<close>

definition int32 :: "int \<Rightarrow> int" where
  "int32 i = sint (word_of_int i :: 32 word)"

definition int64 :: "int \<Rightarrow> int" where
  "int64 i = sint (word_of_int i :: 64 word)"

text \<open>\<open>static_cast<unsigned short>\<close>.\<close>

definition ushort :: "int \<Rightarrow> nat" where
  "ushort i = unat (word_of_int i :: 16 word)"

lemma of_char_less_256: "(of_char c :: nat) < 256"
  by simp

lemma schar_range: "- 128 \<le> schar c" "schar c < 128"
proof -
  have "int (of_char c) < 256" "0 \<le> int (of_char c)"
    using of_char_less_256 [of c] by (metis of_nat_less_iff of_nat_numeral, simp)
  then have "- 128 \<le> schar c \<and> schar c < 128"
    unfolding schar_def Let_def by (cases "int (of_char c) < 128"; simp only: if_True if_False; linarith)
  then show "- 128 \<le> schar c" "schar c < 128" by simp_all
qed

lemma schar_mod: "schar c mod 256 = int (of_char c)"
proof -
  have "nat (schar c mod 256) = of_char c"
    using of_char_less_256 [of c] by (auto simp: schar_def Let_def nat_mod_distrib)
  then show ?thesis
    by (metis int_nat_eq pos_mod_sign zero_less_numeral)
qed

lemma to_char_schar: "to_char (schar c) = c"
  by (simp add: to_char_def schar_mod)

lemma to_char_of_nat: "to_char (int n) = char_of n"
proof -
  have "nat (int n mod 256) = n mod 256"
    by (metis nat_int of_nat_mod of_nat_numeral)
  then show ?thesis by (simp add: to_char_def char_of_mod_256)
qed

lemma schar_eq_iff: "schar c = schar d \<longleftrightarrow> c = d"
  by (metis to_char_schar)

section \<open>\<open>std::string\<close>\<close>

text \<open>
  \<open>find_first_of\<close> with one character; \<open>None\<close> is \<open>std::string::npos\<close>.
\<close>

fun find_char :: "char \<Rightarrow> string \<Rightarrow> nat option" where
  "find_char c [] = None"
| "find_char c (x # xs) =
     (if x = c then Some 0 else map_option Suc (find_char c xs))"

text \<open>\<open>npos\<close> is the largest \<open>size_t\<close>: adding one to it wraps to zero.\<close>

fun npos_succ :: "nat option \<Rightarrow> nat" where
  "npos_succ None = 0"
| "npos_succ (Some p) = Suc p"

text \<open>
  \<open>substr(pos, n)\<close> throws \<open>std::out_of_range\<close> when \<open>pos\<close> is past the end;
  the count \<open>None\<close> is \<open>npos\<close>, everything up to the end.
\<close>

definition substr :: "string \<Rightarrow> nat \<Rightarrow> nat option \<Rightarrow> string res" where
  "substr s pos n =
     (if length s < pos then Inl OutOfRange
      else Inr (case n of None \<Rightarrow> drop pos s | Some k \<Rightarrow> take k (drop pos s)))"

text \<open>\<open>find("xy") != npos\<close> for a needle.\<close>

fun contains :: "string \<Rightarrow> string \<Rightarrow> bool" where
  "contains [] needle = (needle = [])"
| "contains (x # xs) needle = (take (length needle) (x # xs) = needle \<or> contains xs needle)"

lemma find_char_None: "find_char c s = None \<longleftrightarrow> c \<notin> set s"
  by (induction s) auto

lemma find_char_Some:
  "find_char c s = Some p \<Longrightarrow> p < length s \<and> s ! p = c \<and> c \<notin> set (take p s)"
  by (induction s arbitrary: p) (auto split: if_splits)

lemma find_char_append: "c \<notin> set k \<Longrightarrow> find_char c (k @ c # v) = Some (length k)"
  by (induction k) auto

lemma substr_ok: "pos \<le> length s \<Longrightarrow>
  substr s pos n = Inr (case n of None \<Rightarrow> drop pos s | Some k \<Rightarrow> take k (drop pos s))"
  by (simp add: substr_def)

lemma contains_iff: "contains s t \<longleftrightarrow> (\<exists>u v. s = u @ t @ v)"
proof
  show "contains s t \<Longrightarrow> \<exists>u v. s = u @ t @ v"
  proof (induction s)
    case Nil
    then show ?case by simp
  next
    case (Cons x xs)
    show ?case
    proof (cases "take (length t) (x # xs) = t")
      case True
      then have "x # xs = [] @ t @ drop (length t) (x # xs)"
        by (metis append_Nil append_take_drop_id)
      then show ?thesis by blast
    next
      case False
      with Cons obtain u v where "xs = u @ t @ v" by auto
      then have "x # xs = (x # u) @ t @ v" by simp
      then show ?thesis by blast
    qed
  qed
next
  have "contains (u @ t @ v) t" for u v
  proof (induction u)
    case Nil
    have "take (length t) (t @ v) = t" by simp
    then show ?case by (cases "t @ v") (auto simp del: append_eq_Cons_conv)
  qed auto
  then show "\<exists>u v. s = u @ t @ v \<Longrightarrow> contains s t" by blast
qed

section \<open>Splitting at a delimiter\<close>

text \<open>
  \<open>boost::algorithm::split(result, s, is_any_of("&"))\<close> is Boost code outside the
  repository: it is an argument \<open>split\<close> of the definitions that use it.  Its
  documented behaviour is that the parts, joined by the delimiter, give the
  input back, that there is at least one part and that no part holds the
  delimiter.  \<open>split_on\<close> is the one function with that behaviour.
\<close>

fun join_with :: "char \<Rightarrow> string list \<Rightarrow> string" where
  "join_with d [] = []"
| "join_with d [p] = p"
| "join_with d (p # ps) = p @ d # join_with d ps"

definition splits_at :: "char \<Rightarrow> (string \<Rightarrow> string list) \<Rightarrow> bool" where
  "splits_at d split \<longleftrightarrow>
     (\<forall>s. split s \<noteq> [] \<and> join_with d (split s) = s \<and> (\<forall>p \<in> set (split s). d \<notin> set p))"

fun split_on :: "char \<Rightarrow> string \<Rightarrow> string list" where
  "split_on d [] = [[]]"
| "split_on d (c # cs) =
     (if c = d then [] # split_on d cs
      else (case split_on d cs of [] \<Rightarrow> [[c]] | p # ps \<Rightarrow> (c # p) # ps))"

lemma split_on_neq_Nil [simp]: "split_on d s \<noteq> []"
  by (induction s) (auto split: list.splits)

lemma split_on_join: "join_with d (split_on d s) = s"
proof (induction s)
  case Nil
  then show ?case by simp
next
  case (Cons c cs)
  obtain p ps where e: "split_on d cs = p # ps"
    by (meson list.exhaust split_on_neq_Nil)
  with Cons show ?case by (cases ps) auto
qed

lemma split_on_no_delim: "p \<in> set (split_on d s) \<Longrightarrow> d \<notin> set p"
proof (induction s arbitrary: p)
  case Nil
  then show ?case by simp
next
  case (Cons c cs)
  obtain q qs where e: "split_on d cs = q # qs"
    by (meson list.exhaust split_on_neq_Nil)
  with Cons show ?case by (auto split: if_splits)
qed

lemma split_on_splits: "splits_at d (split_on d)"
  by (auto simp: splits_at_def split_on_join dest: split_on_no_delim)

lemma split_on_part: "d \<notin> set p \<Longrightarrow> split_on d p = [p]"
  by (induction p) auto

lemma split_on_append: "d \<notin> set p \<Longrightarrow> split_on d (p @ d # s) = p # split_on d s"
  by (induction p) auto

lemma split_on_join_inverse:
  "ps \<noteq> [] \<Longrightarrow> \<forall>p \<in> set ps. d \<notin> set p \<Longrightarrow> split_on d (join_with d ps) = ps"
  by (induction d ps rule: join_with.induct) (auto simp: split_on_part split_on_append)

text \<open>The documented behaviour determines the function.\<close>

lemma splits_at_unique: "splits_at d split \<Longrightarrow> split = split_on d"
proof
  fix s
  assume "splits_at d split"
  then have "split s \<noteq> []" and j: "join_with d (split s) = s"
    and "\<forall>p \<in> set (split s). d \<notin> set p"
    by (auto simp: splits_at_def)
  then show "split s = split_on d s"
    using split_on_join_inverse [of "split s" d] by simp
qed

section \<open>\<open>std::map\<close> with ordered keys\<close>

text \<open>
  The interface the components rely on: lookup, insertion that keeps an existing
  entry (\<open>std::map::insert\<close>), the ordered traversal, and the invariant.
\<close>

locale ordered_map =
  fixes mempty :: "'m"
    and minsert :: "'k \<Rightarrow> 'v \<Rightarrow> 'm \<Rightarrow> 'm"
    and mfind :: "'m \<Rightarrow> 'k \<Rightarrow> 'v option"
    and entries :: "'m \<Rightarrow> ('k \<times> 'v) list"
    and minv :: "'m \<Rightarrow> bool"
  assumes find_empty: "mfind mempty k = None"
    and inv_empty: "minv mempty"
    and inv_insert: "minv m \<Longrightarrow> minv (minsert k v m)"
    and find_insert: "minv m \<Longrightarrow>
      mfind (minsert k v m) k' =
        (if k' = k then Some (case mfind m k of None \<Rightarrow> v | Some w \<Rightarrow> w) else mfind m k')"
    and find_entries: "minv m \<Longrightarrow> mfind m k = map_of (entries m) k"
    and inv_unique: "minv m \<Longrightarrow> minv m' \<Longrightarrow> (\<forall>k. mfind m k = mfind m' k) \<Longrightarrow> m = m'"
begin

fun insert_all :: "('k \<times> 'v) list \<Rightarrow> 'm \<Rightarrow> 'm" where
  "insert_all [] m = m"
| "insert_all ((k, v) # kvs) m = insert_all kvs (minsert k v m)"

lemma inv_insert_all: "minv m \<Longrightarrow> minv (insert_all kvs m)"
  by (induction kvs m rule: insert_all.induct) (auto intro: inv_insert)

text \<open>A run of insertions keeps what was there and adds the first value of each key.\<close>

lemma find_insert_all:
  "minv m \<Longrightarrow> mfind (insert_all kvs m) k =
     (case mfind m k of None \<Rightarrow> map_of kvs k | Some v \<Rightarrow> Some v)"
  by (induction kvs m rule: insert_all.induct)
     (auto simp: find_insert inv_insert split: option.splits)

lemma insert_present: "minv m \<Longrightarrow> mfind m k = Some w \<Longrightarrow> minsert k v m = m"
  by (rule inv_unique) (auto simp: find_insert inv_insert)

text \<open>Rebuilding a map from its own traversal gives the map back.\<close>

lemma insert_all_entries: "minv m \<Longrightarrow> insert_all (entries m) mempty = m"
proof -
  assume inv: "minv m"
  have "\<forall>k. mfind (insert_all (entries m) mempty) k = mfind m k"
    using find_entries [OF inv] by (simp add: find_insert_all inv_empty find_empty)
  then show ?thesis by (intro inv_unique inv_insert_all inv_empty inv)
qed

end

type_synonym 'v smap = "(string \<times> 'v) list"

definition smap_find :: "'v smap \<Rightarrow> string \<Rightarrow> 'v option" where
  "smap_find m k = map_of m k"

fun smap_insert :: "string \<Rightarrow> 'v \<Rightarrow> 'v smap \<Rightarrow> 'v smap" where
  "smap_insert k v [] = [(k, v)]"
| "smap_insert k v ((k', v') # m) =
     (if k < k' then (k, v) # (k', v') # m
      else if k = k' then (k', v') # m
      else (k', v') # smap_insert k v m)"

definition smap_wf :: "'v smap \<Rightarrow> bool" where
  "smap_wf m \<longleftrightarrow> sorted_wrt (<) (map fst m)"

text \<open>Replacing the value an existing key points to.\<close>

fun smap_update :: "string \<Rightarrow> ('v \<Rightarrow> 'v) \<Rightarrow> 'v smap \<Rightarrow> 'v smap" where
  "smap_update k f [] = []"
| "smap_update k f ((k', v') # m) =
     (if k = k' then (k', f v') # m else (k', v') # smap_update k f m)"

lemma smap_wf_Nil [smap_simps]: "smap_wf []"
  by (simp add: smap_wf_def)

lemma smap_find_Nil [smap_simps]: "smap_find [] k = None"
  by (simp add: smap_find_def)

lemma smap_wf_Cons:
  "smap_wf ((k, v) # m) \<longleftrightarrow> (\<forall>k' \<in> fst ` set m. k < k') \<and> smap_wf m"
  by (auto simp: smap_wf_def)

lemma smap_insert_keys: "fst ` set (smap_insert k v m) = insert k (fst ` set m)"
  by (induction k v m rule: smap_insert.induct) auto

lemma smap_wf_insert: "smap_wf m \<Longrightarrow> smap_wf (smap_insert k v m)"
proof (induction k v m rule: smap_insert.induct)
  case (1 k v)
  then show ?case by (simp add: smap_wf_def)
next
  case (2 k v k' v' m)
  consider "k < k'" | "k = k'" | "k' < k" by (rule linorder_cases)
  then show ?case
  proof cases
    case 1
    with 2 show ?thesis by (fastforce simp: smap_wf_Cons)
  next
    case 2
    with "2.prems" show ?thesis by simp
  next
    case 3
    with 2 show ?thesis by (auto simp: smap_wf_Cons smap_insert_keys not_less_iff_gr_or_eq)
  qed
qed

lemma map_of_below:
  "\<forall>k' \<in> fst ` set m. (k :: 'k :: order) < k' \<Longrightarrow> map_of m k = None"
  by (metis map_of_eq_None_iff less_irrefl)

lemma smap_find_insert:
  "smap_wf m \<Longrightarrow> smap_find (smap_insert k v m) k' =
     (if k' = k then Some (case smap_find m k of None \<Rightarrow> v | Some w \<Rightarrow> w) else smap_find m k')"
proof (induction k v m rule: smap_insert.induct)
  case (1 k v)
  then show ?case by (simp add: smap_find_def)
next
  case (2 k v k1 v1 m)
  show ?case
  proof (cases "k < k1")
    case True
    with 2 have "map_of ((k1, v1) # m) k = None"
      by (intro map_of_below) (auto simp: smap_wf_Cons)
    with True show ?thesis by (auto simp: smap_find_def)
  next
    case False
    with 2 show ?thesis by (auto simp: smap_find_def smap_wf_Cons)
  qed
qed

lemma smap_unique:
  "smap_wf m \<Longrightarrow> smap_wf m' \<Longrightarrow> \<forall>k. smap_find m k = smap_find m' k \<Longrightarrow> m = m'"
proof -
  assume wf: "smap_wf m" "smap_wf m'" and eq: "\<forall>k. smap_find m k = smap_find m' k"
  then have mo: "map_of m = map_of m'" by (auto simp: smap_find_def)
  have "set m = set m'"
    using wf mo
    by (metis map_of_eqI map_of_is_SomeI strict_sorted_iff smap_wf_def map_of_SomeD subrelI subset_antisym)
  moreover have "sorted (map fst m)" "sorted (map fst m')" "distinct (map fst m)" "distinct (map fst m')"
    using wf by (auto simp: smap_wf_def strict_sorted_iff)
  ultimately show "m = m'"
    by (intro map_sorted_distinct_set_unique [of fst]) (auto simp: distinct_map)
qed

interpretation sm: ordered_map "[]" smap_insert smap_find "\<lambda>m. m" smap_wf
  by unfold_locales
     (simp_all add: smap_simps smap_wf_insert smap_find_insert smap_unique,
      simp add: smap_find_def)

lemma smap_update_keys: "map fst (smap_update k f m) = map fst m"
  by (induction m) auto

lemma smap_wf_update [smap_simps]: "smap_wf (smap_update k f m) = smap_wf m"
  by (simp add: smap_wf_def smap_update_keys)

lemma smap_find_update [smap_simps]:
  "smap_find (smap_update k f m) k' =
     (if k' = k then map_option f (smap_find m k) else smap_find m k')"
  by (induction m) (auto simp: smap_find_def)

end
