(* ===== verification/UrlParser.thy ===== *)
theory UrlParser
  imports Prelude
begin

text \<open>
  The matching routines of the vendored URL library, as far as the setters the
  program calls use them: \<open>detail/char_type.hpp\<close> (character tables and
  \<open>pct_encoding\<close>) and \<open>detail/parse.hpp\<close> (struct \<open>parser\<close>), under
  \<open>third_party/boost-url/include/boost/url\<close>.  The parser keeps a pointer into its input; here a
  routine takes the input that remains and returns what remains after it.
\<close>

datatype url_error =
    NoMatch | Syntax | Invalid | BadPctDigit | IncompletePct | IllegalReserved

datatype host_type = HostNone | HostName | HostIpv4 | HostIpv6

section \<open>Character tables\<close>

definition alnum :: "char \<Rightarrow> bool" where
  "alnum c \<longleftrightarrow> (let n = of_char c :: nat in
     (48 \<le> n \<and> n \<le> 57) \<or> (65 \<le> n \<and> n \<le> 90) \<or> (97 \<le> n \<and> n \<le> 122))"

text \<open>The entries 1 of each table are not special; every other character is.\<close>

definition reg_name_pct_set :: "char \<Rightarrow> bool" where
  "reg_name_pct_set c \<longleftrightarrow>
     \<not> (alnum c \<or> c \<in> set (''!$&()*+,-.;=_~'' @ [CHR 0x27]))"

definition userinfo_pct_set :: "char \<Rightarrow> bool" where
  "userinfo_pct_set c \<longleftrightarrow>
     \<not> (alnum c \<or> c \<in> set (''!$&()*+,-.:;=_~'' @ [CHR 0x27]))"

definition userinfo_nc_pct_set :: "char \<Rightarrow> bool" where
  "userinfo_nc_pct_set = reg_name_pct_set"

definition pchar_pct_set :: "char \<Rightarrow> bool" where
  "pchar_pct_set c \<longleftrightarrow>
     \<not> (alnum c \<or> c \<in> set (''!$&()*+,-.:;=@_~'' @ [CHR 0x27]))"

definition pchar_nc_pct_set :: "char \<Rightarrow> bool" where
  "pchar_nc_pct_set c \<longleftrightarrow>
     \<not> (alnum c \<or> c \<in> set (''!$&()*+,-.;=@_~'' @ [CHR 0x27]))"

definition frag_pct_set :: "char \<Rightarrow> bool" where
  "frag_pct_set c \<longleftrightarrow>
     \<not> (alnum c \<or> c \<in> set (''!$&()*+,-./:;=?@_~'' @ [CHR 0x27]))"

definition query_pct_set :: "char \<Rightarrow> bool" where
  "query_pct_set = frag_pct_set"

definition is_alpha :: "char \<Rightarrow> bool" where
  "is_alpha c \<longleftrightarrow> (let u = of_char c :: nat in
     if u > 122 then False else if u \<ge> 97 then True
     else if u > 90 then False else if u \<ge> 65 then True else False)"

definition is_scheme_char :: "char \<Rightarrow> bool" where
  "is_scheme_char c \<longleftrightarrow> is_alpha c \<or> c \<in> set ''+-.''"

text \<open>Only upper case digits: the table holds \<open>-1\<close> for \<open>a\<close> to \<open>f\<close>.\<close>

definition hex_digit :: "char \<Rightarrow> int" where
  "hex_digit c = (let n = of_char c :: nat in
     if 48 \<le> n \<and> n \<le> 57 then int n - 48
     else if 65 \<le> n \<and> n \<le> 70 then int n - 55
     else -1)"

section \<open>\<open>pct_encoding\<close>\<close>

text \<open>The two characters after a \<open>%\<close>.\<close>

definition check_escape :: "string \<Rightarrow> url_error option" where
  "check_escape p =
     (case p of
        a # b # _ \<Rightarrow> if hex_digit a = -1 \<or> hex_digit b = -1 then Some BadPctDigit else None
      | _ \<Rightarrow> Some IncompletePct)"

fun pct_decoded_size :: "(char \<Rightarrow> bool) \<Rightarrow> string \<Rightarrow> url_error + nat" where
  "pct_decoded_size special [] = Inr 0"
| "pct_decoded_size special (c # p) =
     (if c \<noteq> CHR ''%'' then
        (if special c then Inl IllegalReserved else map_sum id Suc (pct_decoded_size special p))
      else
        (case check_escape p of
           Some e \<Rightarrow> Inl e
         | None \<Rightarrow> map_sum id Suc (pct_decoded_size special (drop 2 p))))"

definition pct_validate :: "(char \<Rightarrow> bool) \<Rightarrow> string \<Rightarrow> unit res" where
  "pct_validate special s =
     (case pct_decoded_size special s of Inl _ \<Rightarrow> Inl InvalidPart | Inr _ \<Rightarrow> Inr ())"

fun pct_parse :: "(char \<Rightarrow> bool) \<Rightarrow> string \<Rightarrow> url_error + string" where
  "pct_parse special [] = Inr []"
| "pct_parse special (c # p) =
     (if c = CHR ''%'' then
        (case check_escape p of
           Some e \<Rightarrow> Inl e
         | None \<Rightarrow> pct_parse special (drop 2 p))
      else if special c then Inr (c # p)
      else pct_parse special p)"

definition pct_hex :: "nat \<Rightarrow> char" where
  "pct_hex d = ''0123456789ABCDEF'' ! d"

fun pct_encode :: "(char \<Rightarrow> bool) \<Rightarrow> string \<Rightarrow> string" where
  "pct_encode special [] = []"
| "pct_encode special (c # p) =
     (if \<not> special c then c # pct_encode special p
      else CHR ''%'' # pct_hex (of_char c div 16) # pct_hex (of_char c mod 16) # pct_encode special p)"

lemma pct_parse_length: "pct_parse special s = Inr r \<Longrightarrow> length r \<le> length s"
proof (induction special s rule: pct_parse.induct)
  case (1 special)
  then show ?case by simp
next
  case (2 special c p)
  then show ?case
    by (fastforce split: if_splits option.splits)
qed

section \<open>Scheme and path\<close>

fun scheme_chars :: "string \<Rightarrow> string" where
  "scheme_chars [] = []"
| "scheme_chars (c # p) = (if is_scheme_char c then scheme_chars p else c # p)"

definition match_scheme :: "string \<Rightarrow> string option" where
  "match_scheme s = (case s of [] \<Rightarrow> None | c # p \<Rightarrow> if is_alpha c then Some (scheme_chars p) else None)"

text \<open>The loop over \<open>"/" segment\<close>, with the count of segments.\<close>

function parse_segments :: "nat \<Rightarrow> string \<Rightarrow> url_error + (nat \<times> string)" where
  "parse_segments nseg [] = Inr (nseg, [])"
| "parse_segments nseg (c # p) =
     (if c \<noteq> CHR ''/'' then Inr (nseg, c # p)
      else (case pct_parse pchar_pct_set p of
              Inl e \<Rightarrow> Inl e
            | Inr r \<Rightarrow> parse_segments (Suc nseg) r))"
  by pat_completeness auto
termination
  by (relation "measure (\<lambda>(n, s). length s)") (auto dest: pct_parse_length)

definition parse_path_abempty :: "string \<Rightarrow> url_error + (nat \<times> string)" where
  "parse_path_abempty s = parse_segments 0 s"

text \<open>
  \<open>p_ = e.parse(p_ + 1, end_, ec)\<close>: the character after the leading slash is
  skipped unread, unless it is a slash.
\<close>

definition parse_path_absolute :: "string \<Rightarrow> url_error + (nat \<times> string)" where
  "parse_path_absolute s =
     (case s of
        [] \<Rightarrow> Inl NoMatch
      | c # p \<Rightarrow>
          if c \<noteq> CHR ''/'' then Inl NoMatch
          else (case p of
                  [] \<Rightarrow> Inr (0, [])
                | d # q \<Rightarrow>
                    if d = CHR ''/'' then Inl Invalid
                    else (case pct_parse pchar_pct_set q of
                            Inl e \<Rightarrow> Inl e
                          | Inr r \<Rightarrow> parse_segments 1 r)))"

definition parse_path_noscheme :: "string \<Rightarrow> url_error + (nat \<times> string)" where
  "parse_path_noscheme s =
     (case pct_parse pchar_nc_pct_set s of
        Inl e \<Rightarrow> Inl e
      | Inr r \<Rightarrow> if r = s then Inl NoMatch else parse_segments 1 r)"

definition parse_path_rootless :: "string \<Rightarrow> url_error + (nat \<times> string)" where
  "parse_path_rootless s =
     (case pct_parse pchar_pct_set s of
        Inl e \<Rightarrow> Inl e
      | Inr r \<Rightarrow> if r = s then Inl NoMatch else parse_segments 1 r)"

text \<open>The matchers raise \<open>invalid_part\<close> on an error and on input left over.\<close>

definition require_done :: "url_error + ('a \<times> string) \<Rightarrow> unit res" where
  "require_done r =
     (case r of Inl _ \<Rightarrow> Inl InvalidPart
      | Inr (_, rest) \<Rightarrow> if rest = [] then Inr () else Inl InvalidPart)"

definition match_path_abempty :: "string \<Rightarrow> unit res" where
  "match_path_abempty s = require_done (parse_path_abempty s)"

definition match_path_absolute :: "string \<Rightarrow> unit res" where
  "match_path_absolute s = require_done (parse_path_absolute s)"

definition match_path_noscheme :: "string \<Rightarrow> unit res" where
  "match_path_noscheme s = require_done (parse_path_noscheme s)"

definition match_path_rootless :: "string \<Rightarrow> unit res" where
  "match_path_rootless s = require_done (parse_path_rootless s)"

definition parse_scheme :: "string \<Rightarrow> unit res" where
  "parse_scheme s =
     (case match_scheme s of
        None \<Rightarrow> Inl InvalidPart
      | Some rest \<Rightarrow> if rest = [] then Inr () else Inl InvalidPart)"

section \<open>Host\<close>

text \<open>\<open>static_cast<unsigned char>(*p_ - '0')\<close>.\<close>

definition octet_digit :: "char \<Rightarrow> nat" where
  "octet_digit c = nat ((schar c - 48) mod 256)"

text \<open>
  \<open>match_octet\<close>: the value, or \<open>-1\<close>, and the input after what was consumed
  (on failure the pointer stays where the failure was found).
\<close>

fun octet_loop :: "int \<Rightarrow> string \<Rightarrow> int \<times> string" where
  "octet_loop v [] = (v, [])"
| "octet_loop v (c # p) =
     (let digit = octet_digit c in
      if digit \<ge> 10 then (v, c # p)
      else let v1 = 10 * v + int digit in
        if v1 > 255 then (-1, p) else octet_loop v1 p)"

definition match_octet :: "string \<Rightarrow> int \<times> string" where
  "match_octet s =
     (case s of
        [] \<Rightarrow> (-1, [])
      | c # p \<Rightarrow>
          let digit = octet_digit c in
          if digit \<ge> 10 then (-1, c # p)
          else if digit = 0 then (0, p)
          else octet_loop (int digit) p)"

text \<open>An octet followed by a dot; \<open>Inl\<close> holds the input where matching stopped.\<close>

definition octet_dot :: "string \<Rightarrow> string + string" where
  "octet_dot s =
     (let (a, p) = match_octet s in
      if a = -1 then Inl p
      else (case p of [] \<Rightarrow> Inl [] | d # q \<Rightarrow> if d \<noteq> CHR ''.'' then Inl p else Inr q))"

definition match_ip_v4 :: "string \<Rightarrow> bool \<times> string" where
  "match_ip_v4 s =
     (case octet_dot s of Inl r \<Rightarrow> (False, r) | Inr s1 \<Rightarrow>
     (case octet_dot s1 of Inl r \<Rightarrow> (False, r) | Inr s2 \<Rightarrow>
     (case octet_dot s2 of Inl r \<Rightarrow> (False, r) | Inr s3 \<Rightarrow>
       let (d, r) = match_octet s3 in (d \<noteq> -1, r))))"

text \<open>\<open>parse_word\<close>: one to four hexadecimal digits.\<close>

fun word_digits :: "nat \<Rightarrow> int \<Rightarrow> string \<Rightarrow> int \<times> string" where
  "word_digits 0 v s = (v, s)"
| "word_digits (Suc k) v [] = (v, [])"
| "word_digits (Suc k) v (c # p) =
     (let digit = hex_digit c in
      if digit = -1 then (v, c # p) else word_digits k (16 * v + digit) p)"

definition parse_word :: "string \<Rightarrow> url_error + (int \<times> string)" where
  "parse_word s =
     (case s of
        [] \<Rightarrow> Inl Syntax
      | c # p \<Rightarrow> if hex_digit c = -1 then Inl Syntax else Inr (word_digits 3 (hex_digit c) p))"

definition maybe_octet :: "int \<Rightarrow> bool" where
  "maybe_octet w =
     (if w > 0x255 then False
      else if (w div 16) mod 16 > 9 then False
      else if w mod 16 > 9 then False
      else True)"

text \<open>The dotted tail of an IPv6 literal, after its first dot.\<close>

definition ip_v6_tail :: "string \<Rightarrow> url_error + string" where
  "ip_v6_tail s =
     (case octet_dot s of Inl _ \<Rightarrow> Inl Syntax | Inr s1 \<Rightarrow>
     (case octet_dot s1 of Inl _ \<Rightarrow> Inl Syntax | Inr s2 \<Rightarrow>
       let (m, r) = match_octet s2 in if m = -1 then Inl Syntax else Inr r))"

lemma word_digits_length: "length (snd (word_digits k v s)) \<le> length s"
  by (induction k v s rule: word_digits.induct) (auto simp: Let_def)

lemma parse_word_length: "parse_word s = Inr (w, r) \<Longrightarrow> length r < length s"
  using word_digits_length [of 3 "hex_digit (hd s)" "tl s"]
  by (auto simp: parse_word_def split: list.splits if_splits)

text \<open>
  The loop of \<open>parse_ip_v6\<close>: \<open>n\<close> words needed, \<open>b\<close> when a double colon was
  seen, \<open>c\<close> when a colon is needed, \<open>w\<close> the last word.
\<close>

function ip_v6_loop :: "int \<Rightarrow> bool \<Rightarrow> bool \<Rightarrow> int \<Rightarrow> string \<Rightarrow> url_error + string" where
  "ip_v6_loop n b c w [] = (if b then Inr [] else Inl Syntax)"
| "ip_v6_loop n b c w (x # s) =
     (if x = CHR '':'' then
        (case s of
           [] \<Rightarrow> Inl Syntax
         | y # s1 \<Rightarrow>
             if y = CHR '':'' then
               (if b then Inl Syntax
                else if n - 1 = 0 then Inr s1
                else ip_v6_loop (n - 1) True False w s1)
             else if c then
               (case parse_word s of
                  Inl e \<Rightarrow> Inl e
                | Inr (w1, r) \<Rightarrow> if n - 1 = 0 then Inr r else ip_v6_loop (n - 1) b c w1 r)
             else Inl Syntax)
      else if x = CHR ''.'' then
        (if \<not> b \<and> n > 1 then Inl Syntax
         else if \<not> maybe_octet w then Inl Syntax
         else ip_v6_tail s)
      else if b \<and> hex_digit x = -1 then Inr (x # s)
      else if \<not> c then
        (case parse_word (x # s) of
           Inl e \<Rightarrow> Inl e
         | Inr (w1, r) \<Rightarrow> if n - 1 = 0 then Inr r else ip_v6_loop (n - 1) b True w1 r)
      else Inl Syntax)"
  by pat_completeness auto
termination
  by (relation "measure (\<lambda>(n, b, c, w, s). length s)") (auto dest: parse_word_length)

definition parse_ip_v6 :: "string \<Rightarrow> url_error + string" where
  "parse_ip_v6 s = (if s = [] then Inl Syntax else ip_v6_loop 8 False False 0 s)"

definition parse_ip_literal :: "string \<Rightarrow> url_error + (host_type \<times> string)" where
  "parse_ip_literal s =
     (case s of
        [] \<Rightarrow> Inl NoMatch
      | c # p \<Rightarrow>
          if c \<noteq> CHR ''['' then Inl NoMatch
          else (case parse_ip_v6 p of
                  Inl e \<Rightarrow> Inl e
                | Inr [] \<Rightarrow> Inl Syntax
                | Inr (d # q) \<Rightarrow> if d \<noteq> CHR '']'' then Inl Syntax else Inr (HostIpv6, q)))"

text \<open>When \<open>match_ip_v4\<close> fails the name is matched from where it stopped.\<close>

definition parse_ipv4_or_domain :: "string \<Rightarrow> url_error + (host_type \<times> string)" where
  "parse_ipv4_or_domain s =
     (let (ok, p) = match_ip_v4 s in
      if ok then
        (case pct_parse reg_name_pct_set p of
           Inl e \<Rightarrow> Inl e
         | Inr r \<Rightarrow> Inr (if r \<noteq> p then HostName else HostIpv4, r))
      else
        (case pct_parse reg_name_pct_set p of
           Inl e \<Rightarrow> Inl e
         | Inr r \<Rightarrow> Inr (if r \<noteq> s then HostName else HostNone, r)))"

definition parse_hostname :: "string \<Rightarrow> url_error + (host_type \<times> string)" where
  "parse_hostname s =
     (case parse_ip_literal s of
        Inr r \<Rightarrow> Inr r
      | Inl e \<Rightarrow> if e \<noteq> NoMatch then Inl e else parse_ipv4_or_domain s)"

definition check_hostname :: "string \<Rightarrow> host_type res" where
  "check_hostname s =
     (case parse_hostname s of
        Inl _ \<Rightarrow> Inl InvalidPart
      | Inr (h, rest) \<Rightarrow> if rest = [] then Inr h else Inl InvalidPart)"

text \<open>\<open>parse_plain_hostname\<close> never fails: what is no address is a name.\<close>

definition parse_plain_hostname :: "string \<Rightarrow> host_type" where
  "parse_plain_hostname s =
     (case parse_ip_literal s of
        Inl e \<Rightarrow>
          (if e \<noteq> NoMatch then HostName
           else let (ok, r) = match_ip_v4 s in
             if ok then (if r = [] then HostIpv4 else HostName) else HostName)
      | Inr (h, r) \<Rightarrow> if r = [] then h else HostName)"

end
