(* ===== verification/UrlBase.thy ===== *)
theory UrlBase
  imports UrlParser
begin

text \<open>
  The URL container of the vendored URL library: \<open>detail/parts.hpp\<close> (the
  table of part offsets) and the members of \<open>url_base\<close> in
  \<open>impl/url_base.ipp\<close> that the program calls, under
  \<open>third_party/boost-url/include/boost/url\<close>.  A URL is one character buffer and a
  table of offsets into it.  The locale \<open>part_store\<close> is the interface of that
  representation: eight independent strings whose concatenation is the URL.
\<close>

section \<open>Parts\<close>

abbreviation (input) "id_scheme \<equiv> 0 :: nat"
abbreviation (input) "id_user \<equiv> 1 :: nat"
abbreviation (input) "id_password \<equiv> 2 :: nat"
abbreviation (input) "id_host \<equiv> 3 :: nat"
abbreviation (input) "id_port \<equiv> 4 :: nat"
abbreviation (input) "id_path \<equiv> 5 :: nat"
abbreviation (input) "id_query \<equiv> 6 :: nat"
abbreviation (input) "id_frag \<equiv> 7 :: nat"
abbreviation (input) "id_end \<equiv> 8 :: nat"

record parts =
  offset :: "nat \<Rightarrow> nat"
  nseg :: nat
  nparam :: nat
  phost :: host_type

definition no_parts :: parts where
  "no_parts = \<lparr>offset = (\<lambda>_. 0), nseg = 0, nparam = 0, phost = HostNone\<rparr>"

definition parts_length :: "parts \<Rightarrow> nat \<Rightarrow> nat \<Rightarrow> nat" where
  "parts_length pt i j = offset pt j - offset pt i"

definition parts_get :: "parts \<Rightarrow> nat \<Rightarrow> nat \<Rightarrow> string \<Rightarrow> string" where
  "parts_get pt i j s = take (offset pt j - offset pt i) (drop (offset pt i) s)"

definition parts_resize :: "nat \<Rightarrow> nat \<Rightarrow> parts \<Rightarrow> parts" where
  "parts_resize i n pt =
     (let n0 = parts_length pt i (Suc i) in
      pt\<lparr>offset := (\<lambda>j. if i < j \<and> j \<le> id_end
           then (if n > n0 then offset pt j + (n - n0) else offset pt j - (n0 - n))
           else offset pt j)\<rparr>)"

definition parts_split :: "nat \<Rightarrow> nat \<Rightarrow> parts \<Rightarrow> parts" where
  "parts_split i n pt = pt\<lparr>offset := (offset pt)(Suc i := offset pt i + n)\<rparr>"

section \<open>The buffer\<close>

record url_base =
  ubuf :: string
  uparts :: parts

definition new_url :: url_base where
  "new_url = \<lparr>ubuf = [], uparts = no_parts\<rparr>"

definition part :: "url_base \<Rightarrow> nat \<Rightarrow> string" where
  "part u i = parts_get (uparts u) i (Suc i) (ubuf u)"

definition part_range :: "url_base \<Rightarrow> nat \<Rightarrow> nat \<Rightarrow> string" where
  "part_range u i j = parts_get (uparts u) i j (ubuf u)"

text \<open>
  \<open>resize(id, n)\<close> followed by the copy of \<open>n\<close> characters to the pointer it
  returns: the tail of the buffer moves, the offsets after \<open>id\<close> shift, and the
  part holds the new text.
\<close>

definition put_part :: "nat \<Rightarrow> string \<Rightarrow> url_base \<Rightarrow> url_base" where
  "put_part i w u =
     (let pt = uparts u; s = ubuf u in
      \<lparr>ubuf = take (offset pt i) s @ w @ drop (offset pt (Suc i)) s,
       uparts = parts_resize i (length w) pt\<rparr>)"

text \<open>\<open>resize(first, last, 0)\<close>: the parts of the range become empty.\<close>

definition clear_range :: "nat \<Rightarrow> nat \<Rightarrow> url_base \<Rightarrow> url_base" where
  "clear_range i1 i2 u =
     (let pt = uparts u; s = ubuf u; n = parts_length pt i1 i2 in
      \<lparr>ubuf = take (offset pt i1) s @ drop (offset pt i2) s,
       uparts = pt\<lparr>offset := (\<lambda>j. if i1 < j \<and> j < i2 then offset pt i2 - n
           else if i2 \<le> j \<and> j \<le> id_end then offset pt j - n else offset pt j)\<rparr>\<rparr>)"

definition url_inv :: "url_base \<Rightarrow> bool" where
  "url_inv u \<longleftrightarrow> offset (uparts u) 0 = 0 \<and> offset (uparts u) id_end = length (ubuf u) \<and>
     (\<forall>i < 8. offset (uparts u) i \<le> offset (uparts u) (Suc i))"

section \<open>Accessors\<close>

definition encoded_url :: "url_base \<Rightarrow> string" where
  "encoded_url u = part_range u id_scheme id_end"

definition scheme :: "url_base \<Rightarrow> string" where
  "scheme u = (let s = part u id_scheme in if s = [] then s else butlast s)"

definition has_authority :: "url_base \<Rightarrow> bool" where
  "has_authority u \<longleftrightarrow> parts_length (uparts u) id_user id_path \<noteq> 0"

definition encoded_host :: "url_base \<Rightarrow> string" where
  "encoded_host u = part u id_host"

definition encoded_path :: "url_base \<Rightarrow> string" where
  "encoded_path u = part u id_path"

definition encoded_query :: "url_base \<Rightarrow> string" where
  "encoded_query u = (let s = part u id_query in if s = [] then s else drop 1 s)"

section \<open>Setters\<close>

definition set_scheme :: "string \<Rightarrow> url_base \<Rightarrow> url_base res" where
  "set_scheme s u =
     (if s = [] then Inr (put_part id_scheme [] u)
      else bind_res (parse_scheme s) (\<lambda>_. Inr (put_part id_scheme (s @ '':'') u)))"

text \<open>
  The host without an authority: the text goes into the user part, which is then
  split into the leading slashes, an empty password and the host.
\<close>

definition put_host :: "string \<Rightarrow> url_base \<Rightarrow> url_base" where
  "put_host w u =
     (if \<not> has_authority u then
        (let u1 = put_part id_user (''//'' @ w) u
         in u1\<lparr>uparts := parts_split id_password 0 (parts_split id_user 2 (uparts u1))\<rparr>)
      else put_part id_host w u)"

definition set_phost :: "host_type \<Rightarrow> url_base \<Rightarrow> url_base" where
  "set_phost h u = u\<lparr>uparts := (uparts u)\<lparr>phost := h\<rparr>\<rparr>"

definition set_host :: "string \<Rightarrow> url_base \<Rightarrow> url_base" where
  "set_host s u =
     (if s = [] then
        (if parts_length (uparts u) id_user id_host = 2 \<and>
            parts_length (uparts u) id_port id_path = 0
         then clear_range id_user id_path u
         else put_part id_host [] u)
      else
        (let h = parse_plain_hostname s in
         set_phost h
           (if h \<noteq> HostName then put_host s u
            else put_host (pct_encode reg_name_pct_set s) u)))"

definition set_encoded_host :: "string \<Rightarrow> url_base \<Rightarrow> url_base res" where
  "set_encoded_host s u =
     (if s = [] then Inr (set_host s u)
      else bind_res (check_hostname s) (\<lambda>h. Inr (set_phost h (put_host s u))))"

definition set_encoded_path :: "string \<Rightarrow> url_base \<Rightarrow> url_base res" where
  "set_encoded_path s u =
     (if s = [] then Inr (put_part id_path [] u)
      else bind_res
        (if has_authority u then match_path_abempty s
         else if hd s = CHR ''/'' then match_path_absolute s
         else if parts_length (uparts u) id_scheme id_user = 0 then match_path_noscheme s
         else match_path_rootless s)
        (\<lambda>_. Inr (put_part id_path s u)))"

definition set_query :: "string \<Rightarrow> url_base \<Rightarrow> url_base" where
  "set_query s u =
     (if s = [] then put_part id_query [] u
      else put_part id_query (''?'' @ pct_encode query_pct_set s) u)"

definition set_encoded_query :: "string \<Rightarrow> url_base \<Rightarrow> url_base res" where
  "set_encoded_query s u =
     (if s = [] then Inr (put_part id_query [] u)
      else bind_res (pct_validate query_pct_set s) (\<lambda>_. Inr (put_part id_query (''?'' @ s) u)))"

section \<open>The interface of the representation\<close>

locale part_store =
  fixes get :: "'u \<Rightarrow> nat \<Rightarrow> string"
    and put :: "nat \<Rightarrow> string \<Rightarrow> 'u \<Rightarrow> 'u"
    and whole :: "'u \<Rightarrow> string"
    and inv :: "'u \<Rightarrow> bool"
  assumes inv_put: "inv u \<Longrightarrow> i < 8 \<Longrightarrow> inv (put i w u)"
    and get_put: "inv u \<Longrightarrow> i < 8 \<Longrightarrow> j < 8 \<Longrightarrow> get (put i w u) j = (if j = i then w else get u j)"
    and whole_parts: "inv u \<Longrightarrow> whole u = concat (map (get u) [0..<8])"
begin

lemma get_put_same: "inv u \<Longrightarrow> i < 8 \<Longrightarrow> get (put i w u) i = w"
  by (simp add: get_put)

lemma get_put_other: "inv u \<Longrightarrow> i < 8 \<Longrightarrow> j < 8 \<Longrightarrow> j \<noteq> i \<Longrightarrow> get (put i w u) j = get u j"
  by (simp add: get_put)

text \<open>Replacing one part replaces one segment of the URL.\<close>

lemma whole_put:
  assumes "inv u" "i < 8"
  shows "whole (put i w u) =
    concat (map (get u) [0..<i]) @ w @ concat (map (get u) [Suc i..<8])"
proof -
  have "[0..<8] = [0..<i] @ i # [Suc i..<8]"
    using assms(2) by (metis add_0 le_add_same_cancel1 less_imp_le_nat upt_add_eq_append upt_conv_Cons zero_le le_iff_add)
  then have "whole (put i w u) = concat (map (get (put i w u)) ([0..<i] @ i # [Suc i..<8]))"
    using whole_parts [OF inv_put [OF assms]] by simp
  moreover have "map (get (put i w u)) [0..<i] = map (get u) [0..<i]"
    "map (get (put i w u)) [Suc i..<8] = map (get u) [Suc i..<8]"
    using assms by (simp_all add: get_put)
  ultimately show ?thesis
    using assms by (simp add: get_put_same)
qed

lemma put_put: "inv u \<Longrightarrow> i < 8 \<Longrightarrow> j < 8 \<Longrightarrow> get (put i w (put i w' u)) j = get (put i w u) j"
  by (simp add: get_put inv_put)

end

lemma parts_get_length:
  "a \<le> b \<Longrightarrow> b \<le> length s \<Longrightarrow> length (take (b - a) (drop a s)) = b - a"
  by simp

lemma offset_mono: "url_inv u \<Longrightarrow> i \<le> j \<Longrightarrow> j \<le> 8 \<Longrightarrow> offset (uparts u) i \<le> offset (uparts u) j"
proof (induction j)
  case 0
  then show ?case by simp
next
  case (Suc j)
  show ?case
  proof (cases "i = Suc j")
    case False
    with Suc have "offset (uparts u) i \<le> offset (uparts u) j" by simp
    also have "\<dots> \<le> offset (uparts u) (Suc j)"
      using Suc.prems by (simp add: url_inv_def)
    finally show ?thesis .
  qed simp
qed

lemma offset_bound: "url_inv u \<Longrightarrow> i \<le> 8 \<Longrightarrow> offset (uparts u) i \<le> length (ubuf u)"
  using offset_mono [of u i 8] by (simp add: url_inv_def)

lemma offset_put_part:
  assumes "url_inv u" "i < 8" "j \<le> 8"
  shows "offset (uparts (put_part i w u)) j =
    (if i < j then offset (uparts u) j + length w - (offset (uparts u) (Suc i) - offset (uparts u) i)
     else offset (uparts u) j)"
proof (cases "i < j")
  case True
  have "offset (uparts u) (Suc i) \<le> offset (uparts u) j"
    using True assms by (intro offset_mono) auto
  moreover have "offset (uparts u) i \<le> offset (uparts u) (Suc i)"
    using assms by (intro offset_mono) auto
  ultimately show ?thesis
    using True assms by (auto simp: put_part_def parts_resize_def parts_length_def Let_def)
next
  case False
  then show ?thesis by (simp add: put_part_def parts_resize_def Let_def)
qed

lemma put_part_inv:
  assumes "url_inv u" "i < 8"
  shows "url_inv (put_part i w u)"
proof -
  have le: "offset (uparts u) i \<le> offset (uparts u) (Suc i)" "offset (uparts u) (Suc i) \<le> length (ubuf u)"
    using assms offset_bound [of u "Suc i"] by (auto intro: offset_mono)
  have len: "length (ubuf (put_part i w u)) =
      length (ubuf u) + length w - (offset (uparts u) (Suc i) - offset (uparts u) i)"
    using le by (simp add: put_part_def Let_def)
  have end': "offset (uparts u) 8 = length (ubuf u)" "offset (uparts u) 0 = 0"
    using assms by (auto simp: url_inv_def)
  have mono: "offset (uparts (put_part i w u)) j \<le> offset (uparts (put_part i w u)) (Suc j)"
    if "j < 8" for j
  proof -
    have "offset (uparts u) j \<le> offset (uparts u) (Suc j)"
      using assms that by (intro offset_mono) auto
    moreover have "i < j \<Longrightarrow> offset (uparts u) (Suc i) \<le> offset (uparts u) j"
      using assms that by (intro offset_mono) auto
    ultimately show ?thesis
      using le that assms by (auto simp: offset_put_part [OF assms] less_Suc_eq)
  qed
  show ?thesis
    unfolding url_inv_def using mono len end' assms le
    by (simp add: offset_put_part [OF assms])
qed

lemma part_put_part:
  assumes "url_inv u" "i < 8" "j < 8"
  shows "part (put_part i w u) j = (if j = i then w else part u j)"
proof -
  let ?o = "offset (uparts u)" and ?o' = "offset (uparts (put_part i w u))"
  have le: "?o i \<le> ?o (Suc i)" "?o (Suc i) \<le> length (ubuf u)"
    using assms offset_bound [of u "Suc i"] by (auto intro: offset_mono)
  have buf: "ubuf (put_part i w u) = take (?o i) (ubuf u) @ w @ drop (?o (Suc i)) (ubuf u)"
    by (simp add: put_part_def Let_def)
  consider "j < i" | "j = i" | "i < j" by (rule linorder_cases)
  then show ?thesis
  proof cases
    case 1
    have "?o j \<le> ?o (Suc j)" "?o (Suc j) \<le> ?o i"
      using 1 assms by (auto intro!: offset_mono)
    moreover have "?o' j = ?o j" "?o' (Suc j) = ?o (Suc j)"
      using 1 assms by (auto simp: offset_put_part)
    ultimately show ?thesis
      using 1 le by (simp add: part_def parts_get_def buf take_drop min_absorb1)
  next
    case 2
    have "?o' j = ?o i" "?o' (Suc j) = ?o i + length w"
      using 2 assms le by (auto simp: offset_put_part)
    with 2 le show ?thesis by (simp add: part_def parts_get_def buf)
  next
    case 3
    have m: "?o (Suc i) \<le> ?o j" "?o j \<le> ?o (Suc j)"
      using 3 assms by (auto intro!: offset_mono)
    have "?o' j = ?o j + length w - (?o (Suc i) - ?o i)"
      "?o' (Suc j) = ?o (Suc j) + length w - (?o (Suc i) - ?o i)"
      using 3 assms by (auto simp: offset_put_part)
    with 3 le m show ?thesis
      by (simp add: part_def parts_get_def buf)
  qed
qed

lemma take_drop_append: "a \<le> b \<Longrightarrow> take a s @ take (b - a) (drop a s) = take b s"
  by (metis le_add_diff_inverse take_add)

lemma concat_parts: "url_inv u \<Longrightarrow> n \<le> 8 \<Longrightarrow>
  concat (map (part u) [0..<n]) = take (offset (uparts u) n) (ubuf u)"
proof (induction n)
  case 0
  then show ?case by (simp add: url_inv_def)
next
  case (Suc n)
  then have "offset (uparts u) n \<le> offset (uparts u) (Suc n)"
    by (intro offset_mono) auto
  with Suc show ?case by (simp add: part_def parts_get_def take_drop_append)
qed

lemma encoded_url_parts: "url_inv u \<Longrightarrow> encoded_url u = concat (map (part u) [0..<8])"
  by (simp only: concat_parts) (simp add: encoded_url_def part_range_def parts_get_def url_inv_def)

interpretation ub: part_store part put_part encoded_url url_inv
  by unfold_locales (simp_all only: put_part_inv part_put_part encoded_url_parts)

lemma new_url_inv [url_simps]: "url_inv new_url"
  by (simp add: url_inv_def new_url_def no_parts_def)

lemma part_new_url [url_simps]: "part new_url i = []"
  by (simp add: part_def new_url_def parts_get_def)

section \<open>What the setters do to the parts\<close>

definition no_authority :: "url_base \<Rightarrow> bool" where
  "no_authority u \<longleftrightarrow> (\<forall>j \<in> {1, 2, 3, 4}. part u j = [])"

lemma length_part:
  "url_inv u \<Longrightarrow> i < 8 \<Longrightarrow> length (part u i) = offset (uparts u) (Suc i) - offset (uparts u) i"
  using offset_bound [of u "Suc i"] by (simp add: part_def parts_get_def)

lemma offset_Suc_part:
  "url_inv u \<Longrightarrow> i < 8 \<Longrightarrow> offset (uparts u) (Suc i) = offset (uparts u) i + length (part u i)"
  using offset_mono [of u i "Suc i"] by (simp add: length_part)

lemma has_authority_iff: "url_inv u \<Longrightarrow> has_authority u \<longleftrightarrow> \<not> no_authority u"
proof -
  assume inv: "url_inv u"
  have "parts_length (uparts u) id_user id_path =
      length (part u 1) + length (part u 2) + length (part u 3) + length (part u 4)"
    using offset_Suc_part [OF inv, of 1] offset_Suc_part [OF inv, of 2]
      offset_Suc_part [OF inv, of 3] offset_Suc_part [OF inv, of 4]
    by (simp add: parts_length_def eval_nat_numeral)
  then show ?thesis by (auto simp: has_authority_def no_authority_def)
qed

lemma put_host_authority:
  "has_authority u \<Longrightarrow> put_host w u = put_part id_host w u"
  by (simp add: put_host_def)

text \<open>Splitting the user part of a URL without an authority after its slashes.\<close>

lemma put_host_offsets:
  assumes "url_inv u" "\<not> has_authority u" "j \<le> 8"
  shows "offset (uparts (put_host w u)) j =
    (let k = offset (uparts u) 1 in
     if j \<le> 1 then offset (uparts u) j
     else if j \<le> 3 then k + 2
     else offset (uparts u) j + 2 + length w)"
proof -
  have "offset (uparts u) 1 \<le> offset (uparts u) 2" "offset (uparts u) 2 \<le> offset (uparts u) 5"
    "offset (uparts u) 5 = offset (uparts u) 1 \<or> offset (uparts u) 5 < offset (uparts u) 1"
    using assms offset_mono [of u 1 2] offset_mono [of u 2 5]
    by (auto simp: has_authority_def parts_length_def)
  then have eq: "offset (uparts u) 2 = offset (uparts u) 1" by auto
  consider "j = 0" | "j = 1" | "j = 2" | "j = 3" | "4 \<le> j" by linarith
  then show ?thesis
    using assms eq
    by cases (auto simp: put_host_def Let_def parts_split_def offset_put_part [OF assms(1)]
        put_part_def parts_resize_def parts_length_def eval_nat_numeral)
qed

lemma put_host_buf:
  assumes "url_inv u" "\<not> has_authority u"
  shows "ubuf (put_host w u) =
    take (offset (uparts u) 1) (ubuf u) @ (''//'' @ w) @ drop (offset (uparts u) 5) (ubuf u)"
proof -
  have "offset (uparts u) 1 \<le> offset (uparts u) 2" "offset (uparts u) 2 \<le> offset (uparts u) 5"
    "offset (uparts u) 5 \<le> offset (uparts u) 1"
    using assms offset_mono [of u 1 2] offset_mono [of u 2 5]
    by (auto simp: has_authority_def parts_length_def)
  then have "offset (uparts u) 2 = offset (uparts u) 5" by simp
  with assms show ?thesis
    by (simp add: put_host_def Let_def put_part_def eval_nat_numeral)
qed

lemma no_authority_offsets:
  assumes "url_inv u" "\<not> has_authority u"
  shows "offset (uparts u) 2 = offset (uparts u) 1" "offset (uparts u) 3 = offset (uparts u) 1"
    "offset (uparts u) 4 = offset (uparts u) 1" "offset (uparts u) 5 = offset (uparts u) 1"
  using assms offset_mono [of u 1 2] offset_mono [of u 2 3] offset_mono [of u 3 4] offset_mono [of u 4 5]
  by (auto simp: has_authority_def parts_length_def)

lemma put_host_inv_new:
  assumes "url_inv u" "\<not> has_authority u"
  shows "url_inv (put_host w u)"
proof -
  note o = put_host_offsets [OF assms] and eq = no_authority_offsets [OF assms]
  have m: "offset (uparts u) j \<le> offset (uparts u) (Suc j)" if "j < 8" for j
    using that assms by (intro offset_mono) auto
  have "offset (uparts (put_host w u)) j \<le> offset (uparts (put_host w u)) (Suc j)" if "j < 8" for j
  proof -
    from that consider "j = 0" | "j = 1" | "j = 2" | "j = 3" | "4 \<le> j" by linarith
    then show ?thesis
      using that m [OF that] eq by cases (auto simp: o Let_def eval_nat_numeral)
  qed
  moreover have "length (ubuf (put_host w u)) = length (ubuf u) + 2 + length w"
    using offset_bound [OF assms(1), of 5] eq
    by (simp add: put_host_buf [OF assms])
  ultimately show ?thesis
    using assms by (auto simp: url_inv_def o Let_def)
qed

lemma part_put_host_new:
  assumes "url_inv u" "\<not> has_authority u" "j < 8"
  shows "part (put_host w u) j =
    (if j = 1 then ''//'' else if j = 2 then [] else if j = 3 then w else part u j)"
proof -
  note o = put_host_offsets [OF assms(1,2)] and eq = no_authority_offsets [OF assms(1,2)]
  let ?k = "offset (uparts u) 1"
  have buf: "ubuf (put_host w u) = take ?k (ubuf u) @ (''//'' @ w) @ drop ?k (ubuf u)"
    using put_host_buf [OF assms(1,2)] eq by simp
  have k: "?k \<le> length (ubuf u)" using offset_bound [OF assms(1), of 1] by simp
  from assms(3) consider "j = 0" | "j = 1" | "j = 2" | "j = 3" | "j = 4" | "5 \<le> j" by linarith
  then show ?thesis
  proof cases
    case 1
    have "offset (uparts u) 0 = 0" using assms(1) by (simp add: url_inv_def)
    with 1 k show ?thesis by (simp add: part_def parts_get_def buf o)
  next
    case 2
    with k show ?thesis by (simp add: part_def parts_get_def buf o Let_def numeral_2_eq_2)
  next
    case 3
    then show ?thesis by (simp add: part_def parts_get_def buf o Let_def)
  next
    case 4
    with k show ?thesis by (simp add: part_def parts_get_def buf o Let_def eq)
  next
    case 5
    then show ?thesis by (simp add: part_def parts_get_def buf o Let_def eq)
  next
    case 6
    have "?k \<le> offset (uparts u) j" "offset (uparts u) j \<le> offset (uparts u) (Suc j)"
      using assms 6 by (auto intro!: offset_mono)
    moreover have "offset (uparts (put_host w u)) j = offset (uparts u) j + 2 + length w"
      "offset (uparts (put_host w u)) (Suc j) = offset (uparts u) (Suc j) + 2 + length w"
      using assms(3) 6 by (simp_all add: o Let_def)
    moreover obtain d where "offset (uparts u) j = ?k + d"
      using calculation(1) le_Suc_ex by blast
    ultimately show ?thesis
      using 6 k by (simp add: part_def parts_get_def buf add.commute [of d])
  qed
qed

lemma put_host_inv [url_simps]: "url_inv u \<Longrightarrow> url_inv (put_host w u)"
  by (cases "has_authority u") (simp_all add: put_host_authority put_part_inv put_host_inv_new)

lemma part_put_host:
  assumes "url_inv u" "j < 8"
  shows "part (put_host w u) j =
    (if j = 3 then w
     else if has_authority u then part u j
     else if j = 1 then ''//'' else part u j)"
proof (cases "has_authority u")
  case True
  with assms show ?thesis by (simp add: put_host_authority ub.get_put)
next
  case False
  then have "no_authority u" using has_authority_iff [OF assms(1)] by simp
  with False assms show ?thesis
    by (auto simp: part_put_host_new no_authority_def)
qed

lemma set_phost_simps [url_simps]:
  "part (set_phost h u) j = part u j" "url_inv (set_phost h u) = url_inv u"
  "has_authority (set_phost h u) = has_authority u" "encoded_url (set_phost h u) = encoded_url u"
  by (simp_all add: set_phost_def part_def parts_get_def url_inv_def has_authority_def parts_length_def
      encoded_url_def part_range_def)

lemma set_host_inv: "url_inv u \<Longrightarrow> s \<noteq> [] \<Longrightarrow> url_inv (set_host s u)"
  by (simp add: set_host_def Let_def url_simps)

lemma part_set_host:
  assumes "url_inv u" "s \<noteq> []" "j < 8"
  shows "part (set_host s u) j =
    (if j = 3 then (if parse_plain_hostname s \<noteq> HostName then s else pct_encode reg_name_pct_set s)
     else if has_authority u then part u j
     else if j = 1 then ''//'' else part u j)"
  using assms by (simp add: set_host_def Let_def url_simps part_put_host)

lemma set_encoded_path_Inr:
  "set_encoded_path s u = Inr v \<Longrightarrow> v = put_part id_path s u"
  by (auto simp: set_encoded_path_def bind_res_Inr_iff split: if_splits)

lemma set_encoded_query_Inr:
  "set_encoded_query s u = Inr v \<Longrightarrow> v = put_part id_query (if s = [] then [] else ''?'' @ s) u"
  by (auto simp: set_encoded_query_def bind_res_Inr_iff split: if_splits)

lemma set_scheme_Inr:
  "set_scheme s u = Inr v \<Longrightarrow> v = put_part id_scheme (if s = [] then [] else s @ '':'') u"
  by (auto simp: set_scheme_def bind_res_Inr_iff split: if_splits)

lemma set_encoded_host_Inr:
  "s \<noteq> [] \<Longrightarrow> set_encoded_host s u = Inr v \<Longrightarrow> \<exists>h. v = set_phost h (put_host s u)"
  by (auto simp: set_encoded_host_def bind_res_Inr_iff)

text \<open>The setters raise \<open>invalid_part\<close> and nothing else.\<close>

lemma require_done_Inl: "require_done r = Inl e \<Longrightarrow> e = InvalidPart"
  by (auto simp: require_done_def split: sum.splits prod.splits if_splits)

lemma set_encoded_path_Inl: "set_encoded_path s u = Inl e \<Longrightarrow> e = InvalidPart"
  by (auto simp: set_encoded_path_def bind_res_Inl_iff match_path_abempty_def match_path_absolute_def
      match_path_noscheme_def match_path_rootless_def dest: require_done_Inl split: if_splits)

lemma set_encoded_query_Inl: "set_encoded_query s u = Inl e \<Longrightarrow> e = InvalidPart"
  by (auto simp: set_encoded_query_def bind_res_Inl_iff pct_validate_def split: if_splits sum.splits)

end
