(* ===== verification/UriCodec.thy ===== *)
theory UriCodec
  imports Prelude
begin

text \<open>
  Percent encoding and decoding: class \<open>Util\<close> of \<open>src/core/Util.cpp\<close>.  Both
  functions append to an output parameter and return a code; the output
  parameter is an argument and a result here, so the partial output of a failed
  decoding is visible to the callers, as it is in the code.
\<close>

section \<open>Definitions\<close>

definition illegalCharStr :: string where
  "illegalCharStr = ''%<>{}|'' @ [CHR 0x5C, CHR 0x22] @ ''^'' @ [CHR 0x60]"

text \<open>
  \<open>std::ostream << std::hex << std::uppercase\<close> of a nonnegative \<open>int\<close>, and the
  padding to \<open>std::setw(2)\<close> with the fill character \<open>0\<close>.
\<close>

definition upper_digit :: "nat \<Rightarrow> char" where
  "upper_digit d = (if d < 10 then char_of (48 + d) else char_of (55 + d))"

fun hex_stream :: "nat \<Rightarrow> string" where
  "hex_stream n = (if n < 16 then [upper_digit n] else hex_stream (n div 16) @ [upper_digit (n mod 16)])"

declare hex_stream.simps [simp del]

definition setw2 :: "string \<Rightarrow> string" where
  "setw2 s = replicate (2 - length s) (CHR ''0'') @ s"

definition unreserved :: "char \<Rightarrow> bool" where
  "unreserved c \<longleftrightarrow>
     (schar c \<ge> schar (CHR ''a'') \<and> schar c \<le> schar (CHR ''z'')) \<or>
     (schar c \<ge> schar (CHR ''A'') \<and> schar c \<le> schar (CHR ''Z'')) \<or>
     (schar c \<ge> schar (CHR ''0'') \<and> schar c \<le> schar (CHR ''9'')) \<or>
     c = CHR ''-'' \<or> c = CHR ''_'' \<or> c = CHR ''.'' \<or> c = CHR ''~''"

fun uriEncode :: "string \<Rightarrow> string \<Rightarrow> string \<Rightarrow> rc \<times> string" where
  "uriEncode [] reserved encodedStr = (0, encodedStr)"
| "uriEncode (c # str) reserved encodedStr =
     (if unreserved c then uriEncode str reserved (encodedStr @ [c])
      else if schar c \<le> 0x20 \<or> schar c \<ge> 0x7F \<or> c \<in> set illegalCharStr \<or> c \<in> set reserved
      then uriEncode str reserved (encodedStr @ CHR ''%'' # setw2 (hex_stream (of_char c)))
      else uriEncode str reserved (encodedStr @ [c]))"

text \<open>
  The value of one hexadecimal digit, with the arithmetic of the code: a
  \<open>char\<close> difference stored in a \<open>char\<close>.
\<close>

definition hexDigitValue :: "char \<Rightarrow> int option" where
  "hexDigitValue h =
     (if schar h \<ge> schar (CHR ''0'') \<and> schar h \<le> schar (CHR ''9'') then Some (schar h - schar (CHR ''0''))
      else if schar h \<ge> schar (CHR ''A'') \<and> schar h \<le> schar (CHR ''F'') then Some (schar h - schar (CHR ''A'') + 10)
      else if schar h \<ge> schar (CHR ''a'') \<and> schar h \<le> schar (CHR ''f'') then Some (schar h - schar (CHR ''a'') + 10)
      else None)"

fun uriDecode :: "string \<Rightarrow> string \<Rightarrow> rc \<times> string" where
  "uriDecode [] decodedStr = (0, decodedStr)"
| "uriDecode (c # it) decodedStr =
     (if c = CHR ''%'' then
        (case it of
           [] \<Rightarrow> (-1, decodedStr)
         | hi # it1 \<Rightarrow>
             (case it1 of
                [] \<Rightarrow> (-1, decodedStr)
              | lo # it2 \<Rightarrow>
                  (case hexDigitValue hi of
                     None \<Rightarrow> (-1, decodedStr)
                   | Some h \<Rightarrow>
                       let c1 = to_char h; c2 = to_char (schar c1 * 16) in
                       (case hexDigitValue lo of
                          None \<Rightarrow> (-1, decodedStr)
                        | Some l \<Rightarrow> uriDecode it2 (decodedStr @ [to_char (schar c2 + l)])))))
      else uriDecode it (decodedStr @ [c]))"

section \<open>Characters\<close>

lemma schar_digits [simp]:
  "schar (CHR ''0'') = 48" "schar (CHR ''9'') = 57" "schar (CHR ''A'') = 65"
  "schar (CHR ''F'') = 70" "schar (CHR ''Z'') = 90" "schar (CHR ''a'') = 97"
  "schar (CHR ''f'') = 102" "schar (CHR ''z'') = 122"
  by (simp_all add: schar_def Let_def)

lemma schar_char_of: "n < 128 \<Longrightarrow> schar (char_of n) = int n"
  by (simp add: schar_def Let_def)

lemma schar_upper_digit:
  "d < 16 \<Longrightarrow> schar (upper_digit d) = (if d < 10 then 48 + int d else 55 + int d)"
  by (simp add: upper_digit_def schar_char_of)

text \<open>The wrapping \<open>char\<close> arithmetic of the decoder computes \<open>16 * h + l\<close>.\<close>

lemma decode_arith:
  assumes "0 \<le> h" "h < 16" "0 \<le> l" "l < 16"
  shows "to_char (schar (to_char (schar (to_char h) * 16)) + l) = to_char (16 * h + l)"
proof -
  have h: "schar (to_char h) = h"
    using assms schar_char_of [of "nat h"] by (simp add: to_char_def)
  have m: "schar (to_char (h * 16)) mod 256 = (h * 16) mod 256"
    by (simp add: schar_mod) (simp add: to_char_def)
  have "(schar (to_char (h * 16)) + l) mod 256 = (schar (to_char (h * 16)) mod 256 + l) mod 256"
    by (simp only: mod_add_left_eq)
  also have "\<dots> = (16 * h + l) mod 256"
    by (subst m) (simp only: mod_add_left_eq mult.commute [of h 16])
  finally show ?thesis unfolding h by (simp only: to_char_def)
qed

lemma upper_digit_0: "upper_digit 0 = CHR ''0''"
  using char_of_char [of "CHR ''0''"] by (simp add: upper_digit_def)

lemma hex_stream_byte:
  "n < 256 \<Longrightarrow> setw2 (hex_stream n) = [upper_digit (n div 16), upper_digit (n mod 16)]"
proof (cases "n < 16")
  case True
  then show ?thesis
    by (simp add: hex_stream.simps setw2_def upper_digit_0)
next
  case False
  moreover assume "n < 256"
  ultimately have "\<not> n < 16" "n div 16 < 16" by auto
  then show ?thesis
    by (subst hex_stream.simps) (simp add: hex_stream.simps [of "n div 16"] setw2_def)
qed

text \<open>What one character is encoded to.\<close>

definition enc1 :: "string \<Rightarrow> char \<Rightarrow> string" where
  "enc1 reserved c =
     (if unreserved c then [c]
      else if schar c \<le> 0x20 \<or> schar c \<ge> 0x7F \<or> c \<in> set illegalCharStr \<or> c \<in> set reserved
      then [CHR ''%'', upper_digit (of_char c div 16), upper_digit (of_char c mod 16)]
      else [c])"

lemma uriEncode_eq: "uriEncode s r acc = (0, acc @ concat (map (enc1 r) s))"
  by (induction s r acc rule: uriEncode.induct) (auto simp: enc1_def hex_stream_byte)

section \<open>The grammar of percent-encoded strings\<close>

text \<open>
  The value of a hexadecimal digit by a table, written out without the
  arithmetic of the code; the code's digit function agrees with it on every
  character.
\<close>

definition hex_value :: "char \<Rightarrow> int option" where
  "hex_value = map_of
     [(CHR ''0'', 0), (CHR ''1'', 1), (CHR ''2'', 2), (CHR ''3'', 3), (CHR ''4'', 4),
      (CHR ''5'', 5), (CHR ''6'', 6), (CHR ''7'', 7), (CHR ''8'', 8), (CHR ''9'', 9),
      (CHR ''A'', 10), (CHR ''B'', 11), (CHR ''C'', 12), (CHR ''D'', 13), (CHR ''E'', 14), (CHR ''F'', 15),
      (CHR ''a'', 10), (CHR ''b'', 11), (CHR ''c'', 12), (CHR ''d'', 13), (CHR ''e'', 14), (CHR ''f'', 15)]"

lemma hexDigitValue_table: "hexDigitValue h = hex_value h"
proof (cases h)
  case (Char b0 b1 b2 b3 b4 b5 b6 b7)
  show ?thesis unfolding Char
    by (cases b0; cases b1; cases b2; cases b3; cases b4; cases b5; cases b6; cases b7)
       (simp_all add: hexDigitValue_def hex_value_def schar_def Let_def)
qed

lemma hex_value_bounds: "hex_value h = Some v \<Longrightarrow> 0 \<le> v \<and> v < 16"
  by (auto simp: hexDigitValue_table [symmetric] hexDigitValue_def split: if_splits)

lemma hex_value_upper: "d < 16 \<Longrightarrow> hex_value (upper_digit d) = Some (int d)"
  by (simp add: hexDigitValue_table [symmetric] hexDigitValue_def schar_upper_digit)

declare hexDigitValue_table [simp]

text \<open>
  The strings the decoder accepts, and what they mean: plain characters stand
  for themselves, \<open>%\<close> and two hexadecimal digits stand for a byte.
\<close>

inductive pct_denotes :: "string \<Rightarrow> string \<Rightarrow> bool" where
  pct_nil: "pct_denotes [] []"
| pct_plain: "c \<noteq> CHR ''%'' \<Longrightarrow> pct_denotes s d \<Longrightarrow> pct_denotes (c # s) (c # d)"
| pct_byte: "hex_value hi = Some h \<Longrightarrow> hex_value lo = Some l \<Longrightarrow> pct_denotes s d \<Longrightarrow>
    pct_denotes (CHR ''%'' # hi # lo # s) (to_char (16 * h + l) # d)"

inductive_cases pct_denotes_NilE [elim!]: "pct_denotes [] d"
inductive_cases pct_denotes_pctE: "pct_denotes (CHR ''%'' # s) d"
inductive_simps pct_denotes_Cons: "pct_denotes (c # s) d"

text \<open>What follows a \<open>%\<close> is not two hexadecimal digits.\<close>

definition malformed :: "string \<Rightarrow> bool" where
  "malformed q \<longleftrightarrow> (case q of
       hi # lo # _ \<Rightarrow> hex_value hi = None \<or> hex_value lo = None
     | _ \<Rightarrow> True)"

lemma not_malformed:
  "\<not> malformed q \<Longrightarrow>
    \<exists>hi lo s h l. q = hi # lo # s \<and> hex_value hi = Some h \<and> hex_value lo = Some l"
  by (auto simp: malformed_def split: list.splits)

lemma uriDecode_acc:
  "uriDecode s acc = (fst (uriDecode s []), acc @ snd (uriDecode s []))"
proof (induction "length s" arbitrary: s acc rule: less_induct)
  case less
  consider (nil) "s = []"
    | (plain) c it where "s = c # it" "c \<noteq> CHR ''%''"
    | (bad) it where "s = CHR ''%'' # it" "malformed it"
    | (byte) hi lo s' h l where "s = CHR ''%'' # hi # lo # s'"
        "hex_value hi = Some h" "hex_value lo = Some l"
    by (metis list.exhaust not_malformed)
  then show ?case
  proof cases
    case nil
    then show ?thesis by simp
  next
    case plain
    then show ?thesis using less [of it "acc @ [c]"] less [of it "[c]"] by simp
  next
    case bad
    then show ?thesis
      by (auto simp: malformed_def Let_def split: list.splits option.splits)
  next
    case byte
    then show ?thesis using less [of s' "acc @ [_]"] less [of s' "[_]"]
      by (simp add: Let_def)
  qed
qed

lemma uriDecode_Cons_plain:
  "c \<noteq> CHR ''%'' \<Longrightarrow> uriDecode (c # s) [] = (fst (uriDecode s []), c # snd (uriDecode s []))"
  by (simp add: uriDecode_acc [of s "[c]"])

lemma uriDecode_byte:
  assumes "hex_value hi = Some h" "hex_value lo = Some l"
  shows "uriDecode (CHR ''%'' # hi # lo # s) [] =
    (fst (uriDecode s []), to_char (16 * h + l) # snd (uriDecode s []))"
  using assms hex_value_bounds [OF assms(1)] hex_value_bounds [OF assms(2)]
  by (simp add: Let_def decode_arith uriDecode_acc [of s "[_]"])

lemma uriDecode_sound: "pct_denotes s d \<Longrightarrow> uriDecode s [] = (0, d)"
  by (induction rule: pct_denotes.induct)
     (simp_all add: uriDecode_Cons_plain uriDecode_byte del: uriDecode.simps(2))

text \<open>
  The decoder on any input: success on exactly the grammar, and on failure the
  meaning of the longest well-formed prefix.
\<close>

lemma uriDecode_cases:
  "(\<exists>d. pct_denotes s d \<and> uriDecode s [] = (0, d)) \<or>
   (\<exists>p q d. s = p @ CHR ''%'' # q \<and> malformed q \<and> pct_denotes p d \<and> uriDecode s [] = (-1, d))"
proof (induction "length s" arbitrary: s rule: less_induct)
  case less
  show ?case
  proof (cases s)
    case Nil
    then show ?thesis by (auto intro: pct_nil)
  next
    case (Cons c it)
    consider (plain) "c \<noteq> CHR ''%''"
      | (bad) "c = CHR ''%''" "malformed it"
      | (byte) hi lo s' h l where "c = CHR ''%''" "it = hi # lo # s'"
          "hex_value hi = Some h" "hex_value lo = Some l"
      by (metis not_malformed)
    then show ?thesis
    proof cases
      case plain
      have "length it < length s" using Cons by simp
      from less [OF this] consider
          d where "pct_denotes it d" "uriDecode it [] = (0, d)"
        | p q d where "it = p @ CHR ''%'' # q" "malformed q" "pct_denotes p d"
            "uriDecode it [] = (-1, d)" by blast
      then show ?thesis
      proof cases
        case 1
        with plain Cons show ?thesis
          by (auto simp: uriDecode_Cons_plain simp del: uriDecode.simps intro: pct_plain)
      next
        case 2
        with plain Cons have "s = (c # p) @ CHR ''%'' # q" "pct_denotes (c # p) (c # d)"
          "uriDecode s [] = (-1, c # d)"
          by (auto simp: uriDecode_Cons_plain simp del: uriDecode.simps intro: pct_plain)
        with 2 show ?thesis by blast
      qed
    next
      case bad
      with Cons have "s = [] @ CHR ''%'' # it" "uriDecode s [] = (-1, [])"
        by (auto simp: malformed_def Let_def split: list.splits option.splits)
      then show ?thesis
        by (intro disjI2 exI [of _ "[]"] exI [of _ it] conjI bad(2) pct_nil) assumption+
    next
      case byte
      have "length s' < length s" using Cons byte(2) by simp
      from less [OF this] consider
          d where "pct_denotes s' d" "uriDecode s' [] = (0, d)"
        | p q d where "s' = p @ CHR ''%'' # q" "malformed q" "pct_denotes p d"
            "uriDecode s' [] = (-1, d)" by blast
      then show ?thesis
      proof cases
        case 1
        with byte Cons show ?thesis
          by (auto simp: uriDecode_byte simp del: uriDecode.simps intro: pct_byte)
      next
        case 2
        with byte Cons have "s = (CHR ''%'' # hi # lo # p) @ CHR ''%'' # q"
          "pct_denotes (CHR ''%'' # hi # lo # p) (to_char (16 * h + l) # d)"
          "uriDecode s [] = (-1, to_char (16 * h + l) # d)"
          by (auto simp: uriDecode_byte simp del: uriDecode.simps intro: pct_byte)
        with 2 show ?thesis by blast
      qed
    qed
  qed
qed

lemma pct_denotes_functional: "pct_denotes s d \<Longrightarrow> pct_denotes s d' \<Longrightarrow> d = d'"
  by (metis uriDecode_sound prod.inject)

lemma pct_denotes_length: "pct_denotes s d \<Longrightarrow> length d \<le> length s"
  by (induction rule: pct_denotes.induct) auto

lemma pct_denotes_append: "pct_denotes s d \<Longrightarrow> pct_denotes t e \<Longrightarrow> pct_denotes (s @ t) (d @ e)"
  by (induction rule: pct_denotes.induct) (auto intro: pct_denotes.intros)

section \<open>Encoding, then decoding\<close>

lemma enc1_denotes: "pct_denotes (enc1 r c) [c]"
proof -
  have "to_char (16 * int (of_char c div 16) + int (of_char c mod 16)) = c"
  proof -
    have "16 * int (of_char c div 16) + int (of_char c mod 16) = int (of_char c)"
      by (metis mult_div_mod_eq of_nat_add of_nat_mult of_nat_numeral)
    then show ?thesis by (simp add: to_char_of_nat)
  qed
  moreover have "(of_char c :: nat) div 16 < 16"
    using of_char_less_256 [of c] by (simp add: less_mult_imp_div_less)
  ultimately have "pct_denotes [CHR ''%'', upper_digit (of_char c div 16), upper_digit (of_char c mod 16)] [c]"
    using pct_byte [OF hex_value_upper hex_value_upper pct_nil, of "of_char c div 16" "of_char c mod 16"]
    by simp
  moreover have "c \<noteq> CHR ''%'' \<or> (\<not> unreserved c \<and> c \<in> set illegalCharStr)"
    by (auto simp: unreserved_def illegalCharStr_def schar_def Let_def)
  ultimately show ?thesis
    by (auto simp: enc1_def intro: pct_denotes.intros)
qed

definition encode :: "string \<Rightarrow> string \<Rightarrow> string" where
  "encode r s = concat (map (enc1 r) s)"

lemma encode_simps [simp]: "encode r [] = []" "encode r (c # s) = enc1 r c @ encode r s"
  by (simp_all add: encode_def)

lemma encode_denotes: "pct_denotes (encode r s) s"
proof (induction s)
  case Nil
  show ?case by (simp add: pct_nil)
next
  case (Cons c s)
  then show ?case using pct_denotes_append [OF enc1_denotes] by simp
qed

lemma uriEncode_encode: "uriEncode s r acc = (0, acc @ encode r s)"
  by (simp add: uriEncode_eq encode_def)

lemma uriDecode_encode: "uriDecode (encode r s) acc = (0, acc @ s)"
  using uriDecode_sound [OF encode_denotes, of r s] by (simp add: uriDecode_acc [of _ acc])

text \<open>
  The characters an encoded string can hold: unreserved ones, the escapes, and
  printable characters that are neither illegal nor reserved by the caller.
\<close>

definition safe_char :: "string \<Rightarrow> char \<Rightarrow> bool" where
  "safe_char r c \<longleftrightarrow> 0x20 < schar c \<and> schar c < 0x7F \<and>
     (c = CHR ''%'' \<or> unreserved c \<or> (c \<notin> set illegalCharStr \<and> c \<notin> set r))"

lemma schar_unreserved: "unreserved c \<Longrightarrow> 0x20 < schar c \<and> schar c < 0x7F"
  by (auto simp: unreserved_def schar_def Let_def)

lemma unreserved_upper_digit: "d < 16 \<Longrightarrow> unreserved (upper_digit d)"
  by (auto simp: unreserved_def schar_upper_digit)

lemma enc1_safe: "x \<in> set (enc1 r c) \<Longrightarrow> safe_char r x"
proof -
  have "(of_char c :: nat) div 16 < 16"
    using of_char_less_256 [of c] by (simp add: less_mult_imp_div_less)
  then have "unreserved (upper_digit (of_char c div 16))" "unreserved (upper_digit (of_char c mod 16))"
    by (auto intro: unreserved_upper_digit)
  moreover have "schar (CHR ''%'') = 37" by (simp add: schar_def Let_def)
  ultimately show "x \<in> set (enc1 r c) \<Longrightarrow> safe_char r x"
    by (auto simp: enc1_def safe_char_def schar_unreserved split: if_splits)
qed

lemma encode_safe: "x \<in> set (encode r s) \<Longrightarrow> safe_char r x"
  by (induction s) (auto dest: enc1_safe)

lemma encode_avoids: "x \<in> set r \<Longrightarrow> x \<noteq> CHR ''%'' \<Longrightarrow> \<not> unreserved x \<Longrightarrow> x \<notin> set (encode r s)"
  using encode_safe [of x r s] by (auto simp: safe_char_def)

section \<open>Properties\<close>

text \<open>
  C12. \<open>uriEncode\<close> appends to its output, whatever it holds, a text that
  \<open>uriDecode\<close> appends back as the original string to whatever its own output
  holds, for any byte string and any set of reserved characters, and neither
  reports an error.
\<close>

theorem uri_roundtrip:
  "\<exists>e. \<forall>out out'. uriEncode s reserved out = (0, out @ e) \<and> uriDecode e out' = (0, out' @ s)"
  by (auto simp: uriEncode_encode uriDecode_encode)

text \<open>
  C13. \<open>uriDecode\<close> returns 0 on exactly the strings of the percent-encoding grammar,
  with their meaning; on every other string it returns -1 at the first \<open>%\<close> that two
  hexadecimal digits do not follow, having output the meaning of what is before it.
\<close>

theorem uri_decode_exact:
  "(uriDecode s [] = (0, d) \<longleftrightarrow> pct_denotes s d) \<and>
   (uriDecode s [] = (-1, d) \<longleftrightarrow>
      (\<exists>p q. s = p @ CHR ''%'' # q \<and> malformed q \<and> pct_denotes p d))"
proof -
  have bad: "uriDecode (p @ CHR ''%'' # q) [] = (-1, e)" if "malformed q" "pct_denotes p e" for p q e
    using that(2,1)
  proof (induction rule: pct_denotes.induct)
    case pct_nil
    then show ?case by (auto simp: malformed_def Let_def split: list.splits option.splits)
  qed (simp_all add: uriDecode_Cons_plain uriDecode_byte del: uriDecode.simps(2))
  show ?thesis
  proof (rule conjI; rule iffI)
    show "uriDecode s [] = (0, d) \<Longrightarrow> pct_denotes s d"
      using uriDecode_cases [of s] by auto
    show "uriDecode s [] = (-1, d) \<Longrightarrow> \<exists>p q. s = p @ CHR ''%'' # q \<and> malformed q \<and> pct_denotes p d"
      using uriDecode_cases [of s] by auto
    show "\<exists>p q. s = p @ CHR ''%'' # q \<and> malformed q \<and> pct_denotes p d \<Longrightarrow> uriDecode s [] = (-1, d)"
      using bad by blast
  qed (rule uriDecode_sound)
qed

end
