(* ===== verification/UrlQuery.thy ===== *)
theory UrlQuery
  imports UriCodec
begin

text \<open>
  The query string component: class \<open>QueryImpl\<close> of \<open>src/core/UrlQuery.cpp\<close>.
  It keeps the encoded query string and a map of the decoded parameters.
  \<open>boost::algorithm::split\<close> is the argument \<open>split\<close>.
\<close>

section \<open>Definitions\<close>

record query_impl =
  queryMap :: "string smap"
  queryEncodedStr :: string

definition newQueryImpl :: query_impl where
  "newQueryImpl = \<lparr>queryMap = [], queryEncodedStr = []\<rparr>"

definition reservedCharStr :: string where
  "reservedCharStr = ''&=''"

fun flattenFields :: "string smap \<Rightarrow> string \<Rightarrow> string" where
  "flattenFields [] fieldsStr = fieldsStr"
| "flattenFields ((f, s) # rest) fieldsStr =
     (let key = snd (uriEncode f reservedCharStr []);
          val = snd (uriEncode s reservedCharStr []);
          fieldsStr1 = fieldsStr @ key @ ''='' @ val
      in flattenFields rest (if rest \<noteq> [] then fieldsStr1 @ ''&'' else fieldsStr1))"

definition flattenQueryMap :: "query_impl \<Rightarrow> string" where
  "flattenQueryMap q = (if queryMap q \<noteq> [] then flattenFields (queryMap q) [] else [])"

fun addQueryParts :: "string list \<Rightarrow> string smap \<Rightarrow> string smap res" where
  "addQueryParts [] m = Inr m"
| "addQueryParts (queryPart # parts) m =
     (let queryPartPos = find_char (CHR ''='') queryPart in
      bind_res (substr queryPart 0 queryPartPos) (\<lambda>k.
      bind_res (substr queryPart (npos_succ queryPartPos) None) (\<lambda>v.
        addQueryParts parts
          (smap_insert (snd (uriDecode k [])) (snd (uriDecode v [])) m))))"

definition generateQueryMap ::
  "(string \<Rightarrow> string list) \<Rightarrow> string \<Rightarrow> query_impl \<Rightarrow> (rc \<times> query_impl) res" where
  "generateQueryMap split s q =
     bind_res (addQueryParts (split s) (queryMap q)) (\<lambda>m. Inr (0, q\<lparr>queryMap := m\<rparr>))"

text \<open>\<open>QueryImpl::setQuery\<close> with a map, and with a JSON document (which it ignores).\<close>

definition query_setQuery :: "string smap \<Rightarrow> query_impl \<Rightarrow> rc \<times> query_impl" where
  "query_setQuery m q =
     (let q1 = q\<lparr>queryMap := m\<rparr> in (0, q1\<lparr>queryEncodedStr := flattenQueryMap q1\<rparr>))"

definition query_setQueryDoc :: "'d \<Rightarrow> query_impl \<Rightarrow> rc \<times> query_impl" where
  "query_setQueryDoc d q = (0, q)"

definition query_setEncodedQuery ::
  "(string \<Rightarrow> string list) \<Rightarrow> string \<Rightarrow> query_impl \<Rightarrow> (rc \<times> query_impl) res" where
  "query_setEncodedQuery split s q =
     bind_res (generateQueryMap split s (q\<lparr>queryEncodedStr := s\<rparr>)) (\<lambda>(_, q1). Inr (0, q1))"

definition query_getQueryStr :: "query_impl \<Rightarrow> string" where
  "query_getQueryStr q = snd (uriDecode (queryEncodedStr q) [])"

definition query_getEncodedQuery :: "query_impl \<Rightarrow> string" where
  "query_getEncodedQuery q = queryEncodedStr q"

definition query_getQuery :: "string \<Rightarrow> query_impl \<Rightarrow> string option" where
  "query_getQuery key q = smap_find (queryMap q) key"

section \<open>What one part of a query string means\<close>

text \<open>The text before and after the first \<open>=\<close>; without one, both are the whole part.\<close>

definition part_key :: "string \<Rightarrow> string" where
  "part_key p = takeWhile (\<lambda>c. c \<noteq> CHR ''='') p"

definition part_value :: "string \<Rightarrow> string" where
  "part_value p = (if CHR ''='' \<in> set p then tl (dropWhile (\<lambda>c. c \<noteq> CHR ''='') p) else p)"

definition decode :: "string \<Rightarrow> string" where
  "decode s = snd (uriDecode s [])"

definition query_pairs :: "string list \<Rightarrow> (string \<times> string) list" where
  "query_pairs parts = map (\<lambda>p. (decode (part_key p), decode (part_value p))) parts"

lemma find_char_split:
  "find_char c s = (if c \<in> set s then Some (length (takeWhile (\<lambda>x. x \<noteq> c) s)) else None)"
  by (induction s) auto

lemma length_takeWhile_neq: "c \<in> set s \<Longrightarrow> length (takeWhile (\<lambda>x. x \<noteq> c) s) < length s"
  by (induction s) auto

lemma takeWhile_neq_all: "c \<notin> set s \<Longrightarrow> takeWhile (\<lambda>x. x \<noteq> c) s = s"
  by (induction s) auto

lemma takeWhile_neq_append: "c \<notin> set s \<Longrightarrow> takeWhile (\<lambda>x. x \<noteq> c) (s @ c # t) = s"
  by (induction s) auto

lemma dropWhile_neq_append: "c \<notin> set s \<Longrightarrow> dropWhile (\<lambda>x. x \<noteq> c) (s @ c # t) = c # t"
  by (induction s) auto

lemma substr_key: "substr p 0 (find_char (CHR ''='') p) = Inr (part_key p)"
proof (cases "CHR ''='' \<in> set p")
  case True
  then show ?thesis
    by (simp add: substr_def find_char_split part_key_def) (metis takeWhile_eq_take)
next
  case False
  then show ?thesis by (simp add: substr_def find_char_split part_key_def takeWhile_neq_all)
qed

lemma substr_value: "substr p (npos_succ (find_char (CHR ''='') p)) None = Inr (part_value p)"
proof (cases "CHR ''='' \<in> set p")
  case True
  let ?k = "takeWhile (\<lambda>c. c \<noteq> CHR ''='') p"
  have "length ?k < length p"
    using True by (rule length_takeWhile_neq)
  moreover have "drop (Suc (length ?k)) p = tl (dropWhile (\<lambda>c. c \<noteq> CHR ''='') p)"
    by (metis drop_Suc dropWhile_eq_drop tl_drop drop_tl)
  ultimately show ?thesis using True
    by (simp add: substr_def find_char_split part_value_def)
next
  case False
  then show ?thesis by (simp add: substr_def find_char_split part_value_def)
qed

text \<open>\<open>substr\<close> is never called out of range: parsing a query string does not throw.\<close>

lemma addQueryParts_insert_all:
  "addQueryParts parts m = Inr (sm.insert_all (query_pairs parts) m)"
  by (induction parts m rule: addQueryParts.induct)
     (simp_all add: query_pairs_def substr_key substr_value decode_def)

lemma setEncodedQuery_eq:
  "query_setEncodedQuery split s q =
     Inr (0, q\<lparr>queryEncodedStr := s, queryMap := sm.insert_all (query_pairs (split s)) (queryMap q)\<rparr>)"
  by (simp add: query_setEncodedQuery_def generateQueryMap_def addQueryParts_insert_all)

lemma smap_wf_insert_all: "smap_wf m \<Longrightarrow> smap_wf (sm.insert_all kvs m)"
  by (rule sm.inv_insert_all)

section \<open>Flattening\<close>

definition field_part :: "string \<times> string \<Rightarrow> string" where
  "field_part kv = encode reservedCharStr (fst kv) @ ''='' @ encode reservedCharStr (snd kv)"

lemma flattenFields_join:
  "flattenFields m acc = acc @ join_with (CHR ''&'') (map field_part m)"
proof (induction m acc rule: flattenFields.induct)
  case (1 acc)
  then show ?case by simp
next
  case (2 f s rest acc)
  then show ?case
    by (cases rest) (simp_all add: Let_def uriEncode_encode field_part_def)
qed

lemma flattenQueryMap_join:
  "flattenQueryMap q = join_with (CHR ''&'') (map field_part (queryMap q))"
  by (simp add: flattenQueryMap_def flattenFields_join)

lemma amp_notin_encode: "CHR ''&'' \<notin> set (encode reservedCharStr s)"
  by (rule encode_avoids) (auto simp: reservedCharStr_def unreserved_def schar_def Let_def)

lemma eq_notin_encode: "CHR ''='' \<notin> set (encode reservedCharStr s)"
  by (rule encode_avoids) (auto simp: reservedCharStr_def unreserved_def schar_def Let_def)

lemma decode_encode: "decode (encode r s) = s"
  by (simp add: decode_def uriDecode_encode)

lemma amp_notin_field_part: "CHR ''&'' \<notin> set (field_part kv)"
  by (simp add: field_part_def amp_notin_encode)

lemma field_part_parts:
  "part_key (field_part kv) = encode reservedCharStr (fst kv)"
  "part_value (field_part kv) = encode reservedCharStr (snd kv)"
  by (simp_all add: part_key_def part_value_def field_part_def takeWhile_neq_append dropWhile_neq_append eq_notin_encode)

lemma field_part_key: "decode (part_key (field_part kv)) = fst kv"
  by (simp add: field_part_parts decode_encode)

lemma field_part_value: "decode (part_value (field_part kv)) = snd kv"
  by (simp add: field_part_parts decode_encode)

lemma query_pairs_flatten:
  "m \<noteq> [] \<Longrightarrow> query_pairs (split_on (CHR ''&'') (join_with (CHR ''&'') (map field_part m))) = m"
  by (subst split_on_join_inverse)
     (auto simp: amp_notin_field_part query_pairs_def field_part_key field_part_value o_def)

lemma flattened_map_parses:
  assumes "splits_at (CHR ''&'') split" "smap_wf m" "m \<noteq> []"
  shows "query_setEncodedQuery split (query_getEncodedQuery (snd (query_setQuery m q))) newQueryImpl =
    Inr (0, snd (query_setQuery m newQueryImpl))"
proof -
  have "query_getEncodedQuery (snd (query_setQuery m q)) = join_with (CHR ''&'') (map field_part m)"
    by (simp add: query_setQuery_def query_getEncodedQuery_def Let_def flattenQueryMap_join)
  moreover have "sm.insert_all (query_pairs (split (join_with (CHR ''&'') (map field_part m)))) [] = m"
    using assms(2,3) unfolding splits_at_unique [OF assms(1)]
    by (simp add: query_pairs_flatten sm.insert_all_entries)
  ultimately show ?thesis
    by (simp add: setEncodedQuery_eq newQueryImpl_def query_setQuery_def Let_def flattenQueryMap_join)
qed

section \<open>Readers of HTML forms\<close>

text \<open>
  Servers that read a query as the fields of an HTML form take a plus for a blank before they
  decode the escapes.  The encoder leaves a plus as it is.
\<close>

definition plus_to_blank :: "string \<Rightarrow> string" where
  "plus_to_blank s = map (\<lambda>c. if c = CHR ''+'' then CHR '' '' else c) s"

definition form_fields :: "string \<Rightarrow> (string \<times> string) list" where
  "form_fields s = map (\<lambda>p. (decode (plus_to_blank (part_key p)), decode (plus_to_blank (part_value p))))
     (split_on (CHR ''&'') s)"

lemma plus_to_blank_simps [simp]:
  "plus_to_blank [] = []"
  "plus_to_blank (c # s) = (if c = CHR ''+'' then CHR '' '' else c) # plus_to_blank s"
  "plus_to_blank (s @ t) = plus_to_blank s @ plus_to_blank t"
  by (simp_all add: plus_to_blank_def)

lemma plus_to_blank_eq: "plus_to_blank s = s \<longleftrightarrow> CHR ''+'' \<notin> set s"
  by (induction s) auto

lemma enc1_plus: "enc1 reservedCharStr (CHR ''+'') = ''+''"
  by (simp add: enc1_def unreserved_def illegalCharStr_def reservedCharStr_def schar_def Let_def)

lemma plus_notin_enc1: "c \<noteq> CHR ''+'' \<Longrightarrow> CHR ''+'' \<notin> set (enc1 reservedCharStr c)"
proof
  assume c: "c \<noteq> CHR ''+''" and m: "CHR ''+'' \<in> set (enc1 reservedCharStr c)"
  have d: "(of_char c :: nat) div 16 < 16"
    using of_char_less_256 [of c] by (simp add: less_mult_imp_div_less)
  have "\<not> unreserved (CHR ''+'')" by (simp add: unreserved_def schar_def Let_def)
  then have "upper_digit (of_char c div 16) \<noteq> CHR ''+''" "upper_digit (of_char c mod 16) \<noteq> CHR ''+''"
    using unreserved_upper_digit [OF d] unreserved_upper_digit [of "of_char c mod 16"] by force+
  with c m show False by (auto simp: enc1_def split: if_splits)
qed

lemma form_denotes: "pct_denotes (plus_to_blank (encode reservedCharStr s)) (plus_to_blank s)"
proof (induction s)
  case Nil
  show ?case by (simp add: pct_nil)
next
  case (Cons c s)
  show ?case
  proof (cases "c = CHR ''+''")
    case True
    with Cons show ?thesis by (simp add: enc1_plus pct_plain)
  next
    case False
    then show ?thesis
      using pct_denotes_append [OF enc1_denotes [of reservedCharStr c] Cons]
      by (simp add: plus_to_blank_eq [THEN iffD2, OF plus_notin_enc1])
  qed
qed

lemma decode_form: "decode (plus_to_blank (encode reservedCharStr s)) = plus_to_blank s"
  using uriDecode_sound [OF form_denotes, of s] by (simp add: decode_def)

lemma form_fields_flatten:
  "m \<noteq> [] \<Longrightarrow> form_fields (join_with (CHR ''&'') (map field_part m)) =
     map (\<lambda>(k, v). (plus_to_blank k, plus_to_blank v)) m"
  unfolding form_fields_def
  by (subst split_on_join_inverse)
     (auto simp: amp_notin_field_part field_part_parts decode_form case_prod_unfold o_def)

section \<open>Properties\<close>

lemma query_pairs_empty: "query_pairs [[]] = [([], [])]"
  by (simp add: query_pairs_def part_key_def part_value_def decode_def)

text \<open>
  C14. The encoded query string that \<open>setQuery\<close> builds from a map of parameters
  is read back by \<open>setEncodedQuery\<close> as the same map, whatever bytes the keys and
  the values hold; only the empty map, whose string is empty, comes back as the
  map of the one parameter with an empty name and an empty value.
\<close>

theorem query_map_roundtrip:
  assumes "splits_at (CHR ''&'') split" "smap_wf m"
  shows "query_setEncodedQuery split (query_getEncodedQuery (snd (query_setQuery m q))) newQueryImpl =
    Inr (0, (snd (query_setQuery m newQueryImpl))\<lparr>queryMap := if m = [] then [([], [])] else m\<rparr>)"
proof (cases "m = []")
  case True
  then show ?thesis
    unfolding splits_at_unique [OF assms(1)]
    by (simp add: query_setQuery_def query_getEncodedQuery_def Let_def flattenQueryMap_join
        setEncodedQuery_eq newQueryImpl_def query_pairs_empty sm.insert_all.simps)
next
  case False
  then show ?thesis using flattened_map_parses [OF assms False, of q]
    by (simp add: query_setQuery_def Let_def)
qed

theorem query_map_roundtrip_witness:
  "query_setEncodedQuery (split_on (CHR ''&''))
     (query_getEncodedQuery (snd (query_setQuery [(''a&b'', ''1=2''), (''q'', ''x y'')] newQueryImpl))) newQueryImpl =
   Inr (0, snd (query_setQuery [(''a&b'', ''1=2''), (''q'', ''x y'')] newQueryImpl))"
  using query_map_roundtrip [OF split_on_splits, of "[(''a&b'', ''1=2''), (''q'', ''x y'')]" newQueryImpl]
  by (simp add: smap_wf_def query_setQuery_def Let_def)

text \<open>
  \<open>setEncodedQuery\<close> never fails, and never replaces a value: a key that the object
  already has keeps its value, and a key given several times gets the first one.
\<close>

theorem query_first_value_wins:
  assumes "splits_at (CHR ''&'') split" "smap_wf (queryMap q)"
  shows "\<exists>q'. query_setEncodedQuery split s q = Inr (0, q') \<and>
    query_getEncodedQuery q' = s \<and>
    (\<forall>key. query_getQuery key q' =
       (case query_getQuery key q of
          Some old \<Rightarrow> Some old
        | None \<Rightarrow> map_of (query_pairs (split_on (CHR ''&'') s)) key))"
  using splits_at_unique [OF assms(1)] assms(2)
  by (auto simp: setEncodedQuery_eq query_getEncodedQuery_def query_getQuery_def sm.find_insert_all
      split: option.splits)

theorem query_first_value_wins_witness:
  "\<exists>q'. query_setEncodedQuery (split_on (CHR ''&'')) ''a=1&a=2&b'' (newQueryImpl\<lparr>queryMap := [(''b'', ''old'')]\<rparr>) = Inr (0, q') \<and>
    query_getQuery ''a'' q' = Some ''1'' \<and> query_getQuery ''b'' q' = Some ''old''"
proof -
  have "map_of (query_pairs (split_on (CHR ''&'') ''a=1&a=2&b'')) ''a'' = Some ''1''"
    by code_simp
  then show ?thesis
    using query_first_value_wins [OF split_on_splits, of "newQueryImpl\<lparr>queryMap := [(''b'', ''old'')]\<rparr>" "''a=1&a=2&b''"]
    by (auto simp: smap_wf_def query_getQuery_def newQueryImpl_def smap_find_def)
qed

end
