(* ===== verification/Url.thy ===== *)
theory Url
  imports UrlBase UrlQuery
begin

text \<open>
  Class \<open>UrlImpl\<close> of \<open>src/core/Url.cpp\<close>: a URL container of the URL library
  together with a \<open>QueryImpl\<close>.  An exception of the library leaves a member
  as \<open>Inl\<close>, except where the code catches it.
\<close>

section \<open>Definitions\<close>

text \<open>The values of a configuration map; only the strings are read.\<close>

datatype variant = VInt int | VDouble | VString string

record url_impl =
  base :: url_base
  query :: query_impl

definition newUrlImpl :: url_impl where
  "newUrlImpl = \<lparr>base = new_url, query = newQueryImpl\<rparr>"

definition with_base :: "url_base res \<Rightarrow> url_impl \<Rightarrow> url_impl res" where
  "with_base r u = bind_res r (\<lambda>b. Inr (u\<lparr>base := b\<rparr>))"

definition url_option :: "string \<Rightarrow> variant \<Rightarrow> url_impl \<Rightarrow> url_impl res" where
  "url_option k v u =
     (case v of
        VInt _ \<Rightarrow> Inr u
      | VDouble \<Rightarrow> Inr u
      | VString s \<Rightarrow>
          if k = ''host'' then with_base (set_encoded_host s (base u)) u
          else if k = ''path'' then with_base (set_encoded_path s (base u)) u
          else if k = ''scheme'' then with_base (set_scheme s (base u)) u
          else if k = ''query'' then Inr (u\<lparr>base := set_query s (base u)\<rparr>)
          else Inr u)"

fun url_options :: "variant smap \<Rightarrow> url_impl \<Rightarrow> url_impl res" where
  "url_options [] u = Inr u"
| "url_options ((k, v) # m) u = bind_res (url_option k v u) (url_options m)"

definition newUrlImplMap :: "variant smap \<Rightarrow> url_impl res" where
  "newUrlImplMap m = url_options m newUrlImpl"

text \<open>\<open>setQuery\<close>: the query component changes before the library is asked.\<close>

definition url_setQuery :: "string smap \<Rightarrow> url_impl \<Rightarrow> rc \<times> url_impl" where
  "url_setQuery m u =
     (let u1 = u\<lparr>query := snd (query_setQuery m (query u))\<rparr> in
      case set_encoded_query (query_getEncodedQuery (query u1)) (base u1) of
        Inl _ \<Rightarrow> (-1, u1)
      | Inr b \<Rightarrow> (0, u1\<lparr>base := b\<rparr>))"

definition url_setQueryDoc :: "'d \<Rightarrow> url_impl \<Rightarrow> rc \<times> url_impl" where
  "url_setQueryDoc d u =
     (let u1 = u\<lparr>query := snd (query_setQueryDoc d (query u))\<rparr> in
      case set_encoded_query (query_getEncodedQuery (query u1)) (base u1) of
        Inl _ \<Rightarrow> (-1, u1)
      | Inr b \<Rightarrow> (0, u1\<lparr>base := b\<rparr>))"

definition url_setEncodedQuery ::
  "(string \<Rightarrow> string list) \<Rightarrow> string \<Rightarrow> url_impl \<Rightarrow> rc \<times> url_impl" where
  "url_setEncodedQuery split s u =
     (case query_setEncodedQuery split s (query u) of
        Inl _ \<Rightarrow> (-1, u\<lparr>query := (query u)\<lparr>queryEncodedStr := s\<rparr>\<rparr>)
      | Inr (_, q) \<Rightarrow> (0, u\<lparr>query := q\<rparr>))"

definition url_getEncodedQuery :: "url_impl \<Rightarrow> string" where
  "url_getEncodedQuery u = query_getEncodedQuery (query u)"

definition url_getQuery :: "string \<Rightarrow> url_impl \<Rightarrow> string option" where
  "url_getQuery key u = query_getQuery key (query u)"

definition url_url :: "url_impl \<Rightarrow> string" where
  "url_url u = encoded_url (base u)"

definition url_getEncodedHost :: "url_impl \<Rightarrow> string" where
  "url_getEncodedHost u = encoded_host (base u)"

definition url_target :: "url_impl \<Rightarrow> string" where
  "url_target u = encoded_path (base u) @ ''?'' @ url_getEncodedQuery u"

section \<open>Well-formed URLs\<close>

definition url_wf :: "url_impl \<Rightarrow> bool" where
  "url_wf u \<longleftrightarrow> url_inv (base u) \<and> smap_wf (queryMap (query u))"

lemma newUrlImpl_wf: "url_wf newUrlImpl"
  by (simp add: url_wf_def newUrlImpl_def newQueryImpl_def url_simps smap_simps)

lemma put_part_wf: "url_wf u \<Longrightarrow> i < 8 \<Longrightarrow> url_wf (u\<lparr>base := put_part i w (base u)\<rparr>)"
  by (simp add: url_wf_def put_part_inv)

lemma clear_authority_inv: 
  "url_inv u \<Longrightarrow> url_inv (clear_range id_user id_path u)"
proof -
  assume inv: "url_inv u"
  have m: "offset (uparts u) j \<le> offset (uparts u) (Suc j)" if "j < 8" for j
    using that inv by (intro offset_mono) auto
  have b: "offset (uparts u) 1 \<le> offset (uparts u) 5" "offset (uparts u) 5 \<le> length (ubuf u)"
    using inv offset_mono [of u 1 5] offset_bound [of u 5] by auto
  have ge: "offset (uparts u) 5 \<le> offset (uparts u) j" if "5 \<le> j" "j \<le> 8" for j
    using that inv by (intro offset_mono) auto
  have o: "offset (uparts (clear_range id_user id_path u)) j =
      (if j \<le> 1 then offset (uparts u) j else if j < 5 then offset (uparts u) 1
       else offset (uparts u) j - (offset (uparts u) 5 - offset (uparts u) 1))" if "j \<le> 8" for j
    using that b by (auto simp: clear_range_def Let_def parts_length_def le_Suc_eq)
  have "offset (uparts (clear_range id_user id_path u)) j
      \<le> offset (uparts (clear_range id_user id_path u)) (Suc j)" if "j < 8" for j
    using that m [OF that] b ge [of j] ge [of "Suc j"] by (auto simp: o [unfolded One_nat_def] le_Suc_eq)
  moreover have "length (ubuf (clear_range id_user id_path u)) =
      length (ubuf u) - (offset (uparts u) 5 - offset (uparts u) 1)"
    using b by (simp add: clear_range_def Let_def)
  ultimately show ?thesis
    using inv by (simp add: url_inv_def o [unfolded One_nat_def])
qed

lemma set_host_inv_all: "url_inv u \<Longrightarrow> url_inv (set_host s u)"
  by (cases "s = []")
     (auto simp: set_host_inv, auto simp: set_host_def clear_authority_inv [unfolded One_nat_def] put_part_inv)

lemma url_option_wf: "url_wf u \<Longrightarrow> url_option k v u = Inr u' \<Longrightarrow> url_wf u'"
  by (cases v)
     (auto simp: url_option_def with_base_def bind_res_Inr_iff url_wf_def set_query_def put_part_inv
       set_encoded_host_def set_host_inv_all url_simps
       dest!: set_encoded_path_Inr set_scheme_Inr split: if_splits)

lemma url_options_wf: "url_wf u \<Longrightarrow> url_options m u = Inr u' \<Longrightarrow> url_wf u'"
  by (induction m u rule: url_options.induct) (auto simp: bind_res_Inr_iff dest: url_option_wf)

lemma url_setQuery_wf: "url_wf u \<Longrightarrow> smap_wf m \<Longrightarrow> url_wf (snd (url_setQuery m u))"
  by (auto simp: url_setQuery_def Let_def url_wf_def query_setQuery_def put_part_inv
      dest!: set_encoded_query_Inr split: sum.splits)

lemma url_setEncodedQuery_eq:
  "url_setEncodedQuery split s u =
     (0, u\<lparr>query := (query u)\<lparr>queryEncodedStr := s,
        queryMap := sm.insert_all (query_pairs (split s)) (queryMap (query u))\<rparr>\<rparr>)"
  by (simp add: url_setEncodedQuery_def setEncodedQuery_eq)

lemma url_setEncodedQuery_wf: "url_wf u \<Longrightarrow> url_wf (snd (url_setEncodedQuery split s u))"
  by (simp add: url_setEncodedQuery_eq url_wf_def smap_wf_insert_all)

section \<open>Which encoded queries the URL library takes\<close>

text \<open>
  \<open>uriEncode\<close> leaves three characters as they are that the query table of the
  library does not allow.
\<close>

definition library_rejects :: "string \<Rightarrow> bool" where
  "library_rejects s \<longleftrightarrow> CHR ''#'' \<in> set s \<or> CHR ''['' \<in> set s \<or> CHR '']'' \<in> set s"

definition accepted_text :: "string \<Rightarrow> bool" where
  "accepted_text s \<longleftrightarrow> (\<exists>n. pct_decoded_size query_pct_set s = Inr n)"

lemma pct_validate_accepted:
  "pct_validate query_pct_set s = (if accepted_text s then Inr () else Inl InvalidPart)"
  by (auto simp: pct_validate_def accepted_text_def split: sum.splits)

lemma accepted_text_Nil: "accepted_text []"
  by (simp add: accepted_text_def)

lemma accepted_text_plain:
  "c \<noteq> CHR ''%'' \<Longrightarrow> accepted_text (c # s) \<longleftrightarrow> \<not> query_pct_set c \<and> accepted_text s"
  by (cases "pct_decoded_size query_pct_set s") (auto simp: accepted_text_def)

lemma hex_digit_upper: "d < 16 \<Longrightarrow> hex_digit (upper_digit d) = int d"
  by (auto simp: hex_digit_def upper_digit_def Let_def)

lemma accepted_text_escape:
  assumes "a < 16" "b < 16"
  shows "accepted_text (CHR ''%'' # upper_digit a # upper_digit b # s) \<longleftrightarrow> accepted_text s"
proof -
  have "check_escape (upper_digit a # upper_digit b # s) = None"
    using assms by (simp add: check_escape_def hex_digit_upper)
  then show ?thesis
    by (cases "pct_decoded_size query_pct_set s") (auto simp: accepted_text_def)
qed

lemma query_char:
  assumes "safe_char ''&='' c" "c \<noteq> CHR ''%''"
  shows "query_pct_set c \<longleftrightarrow> c \<in> {CHR ''#'', CHR ''['', CHR '']''}"
proof -
  define n where "n = (of_char c :: nat)"
  have c: "c = char_of n" by (simp add: n_def)
  have s: "0x20 < schar c" "schar c < 0x7F" using assms(1) by (simp_all add: safe_char_def)
  then have sc: "schar c = int n" using schar_mod [of c] by (simp add: n_def)
  with s have n: "0x20 < n" "n < 0x7F" by linarith+
  have a: "alnum c \<longleftrightarrow> (48 \<le> n \<and> n \<le> 57) \<or> (65 \<le> n \<and> n \<le> 90) \<or> (97 \<le> n \<and> n \<le> 122)"
    by (simp add: alnum_def Let_def n_def)
  show ?thesis
  proof (cases "alnum c")
    case True
    then have "c \<notin> {CHR ''#'', CHR ''['', CHR '']''}" by (auto simp: alnum_def Let_def)
    with True show ?thesis by (simp add: query_pct_set_def frag_pct_set_def)
  next
    case False
    with n a have "n \<in> set ([33..<48] @ [58..<65] @ [91..<97] @ [123..<127])"
      unfolding set_append set_upt Un_iff atLeastLessThan_iff by linarith
    then have "c \<in> set (map char_of ([33..<48] @ [58..<65] @ [91..<97] @ [123..<127]))"
      unfolding set_map using c by (rule rev_image_eqI)
    moreover have "map char_of ([33..<48] @ [58..<65] @ [91..<97] @ [123..<127 :: nat]) =
        ''!\"#$%&'' @ [CHR 0x27] @ ''()*+,-./:;<=>?@['' @ [CHR 0x5C] @ '']^_`{|}~''"
      by code_simp
    ultimately have m: "c \<in> set (''!\"#$%&'' @ [CHR 0x27] @ ''()*+,-./:;<=>?@['' @ [CHR 0x5C] @ '']^_`{|}~'')"
      by (simp only:)
    have "\<forall>x \<in> set (''!\"#$%&'' @ [CHR 0x27] @ ''()*+,-./:;<=>?@['' @ [CHR 0x5C] @ '']^_`{|}~'').
        x \<notin> set illegalCharStr \<or> x \<in> set ''-_.~'' \<longrightarrow> x \<noteq> CHR ''%'' \<longrightarrow>
        (query_pct_set x \<longleftrightarrow> x \<in> {CHR ''#'', CHR ''['', CHR '']''})"
      by (simp add: query_pct_set_def frag_pct_set_def alnum_def illegalCharStr_def Let_def)
    note this [THEN bspec, OF m]
    moreover have "c \<notin> set illegalCharStr \<or> c \<in> set ''-_.~''"
      using assms False a by (auto simp: safe_char_def unreserved_def sc)
    ultimately show ?thesis using assms(2) by (simp only: simp_thms)
  qed
qed

lemma accepted_text_enc1:
  "accepted_text (enc1 ''&='' c @ s) \<longleftrightarrow> c \<notin> {CHR ''#'', CHR ''['', CHR '']''} \<and> accepted_text s"
proof (cases "enc1 ''&='' c = [c]")
  case True
  have "safe_char ''&='' c" using enc1_safe [of c "''&=''" c] True by simp
  moreover have "c \<noteq> CHR ''%''"
    using True by (auto simp: enc1_def unreserved_def illegalCharStr_def schar_def Let_def)
  ultimately show ?thesis using True by (simp add: accepted_text_plain query_char)
next
  case False
  have b: "(of_char c :: nat) div 16 < 16" "(of_char c :: nat) mod 16 < 16"
    using of_char_less_256 [of c] by (simp_all add: less_mult_imp_div_less)
  have e: "enc1 ''&='' c = [CHR ''%'', upper_digit (of_char c div 16), upper_digit (of_char c mod 16)]"
    using False by (auto simp: enc1_def split: if_splits)
  have "c \<notin> {CHR ''#'', CHR ''['', CHR '']''}"
    using False by (auto simp: enc1_def unreserved_def illegalCharStr_def schar_def Let_def)
  with e b show ?thesis by (simp add: accepted_text_escape)
qed

lemma accepted_text_encode:
  "accepted_text (encode ''&='' s @ t) \<longleftrightarrow> \<not> library_rejects s \<and> accepted_text t"
  by (induction s) (auto simp: accepted_text_enc1 library_rejects_def)

lemma accepted_text_separators:
  "accepted_text (CHR ''='' # s) = accepted_text s" "accepted_text (CHR ''&'' # s) = accepted_text s"
proof -
  have "\<not> query_pct_set (CHR ''='')" "\<not> query_pct_set (CHR ''&'')" by code_simp+
  then show "accepted_text (CHR ''='' # s) = accepted_text s" "accepted_text (CHR ''&'' # s) = accepted_text s"
    by (simp_all add: accepted_text_plain)
qed

lemma accepted_text_field:
  "accepted_text (field_part kv @ t) \<longleftrightarrow>
     \<not> library_rejects (fst kv) \<and> \<not> library_rejects (snd kv) \<and> accepted_text t"
  by (simp add: field_part_def reservedCharStr_def accepted_text_encode accepted_text_separators)

lemma accepted_text_fields:
  "accepted_text (join_with (CHR ''&'') (map field_part m)) \<longleftrightarrow>
     \<not> (\<exists>kv \<in> set m. library_rejects (fst kv) \<or> library_rejects (snd kv))"
proof (induction m)
  case Nil
  then show ?case by (simp add: accepted_text_Nil)
next
  case (Cons kv m)
  then show ?case
    using accepted_text_field [of kv "[]"]
    by (cases m) (auto simp: accepted_text_field accepted_text_separators accepted_text_Nil)
qed

lemma join_fields_Nil: "join_with (CHR ''&'') (map field_part m) = [] \<longleftrightarrow> m = []"
proof (cases m)
  case (Cons kv rest)
  have "field_part kv \<noteq> []" by (simp add: field_part_def)
  with Cons show ?thesis by (cases rest) auto
qed simp

section \<open>Properties\<close>

text \<open>
  C26. \<open>UrlImpl::setQuery\<close> fails exactly when some key or value holds one of the
  three characters that \<open>uriEncode\<close> leaves and the URL library rejects.  It then
  returns -1 and leaves the URL text as it was, but the parameters that \<open>getQuery\<close>
  and \<open>target\<close> answer from have already been replaced; otherwise the URL text holds
  the encoded parameters.
\<close>

theorem url_setQuery_outcome:
  assumes "url_inv (base u)"
  shows "(let r = url_setQuery m u; enc = query_getEncodedQuery (snd (query_setQuery m (query u))) in
    fst r = (if \<exists>kv \<in> set m. library_rejects (fst kv) \<or> library_rejects (snd kv) then -1 else 0) \<and>
    url_getEncodedQuery (snd r) = enc \<and>
    (\<forall>key. url_getQuery key (snd r) = smap_find m key) \<and>
    (if fst r = 0 then encoded_query (base (snd r)) = enc else base (snd r) = base u))"
proof -
  let ?enc = "join_with (CHR ''&'') (map field_part m)"
  have enc: "query_getEncodedQuery (snd (query_setQuery m (query u))) = ?enc"
    by (simp add: query_setQuery_def query_getEncodedQuery_def Let_def flattenQueryMap_join)
  show ?thesis
  proof (cases "accepted_text ?enc")
    case True
    then have "set_encoded_query ?enc (base u) =
        Inr (put_part id_query (if ?enc = [] then [] else ''?'' @ ?enc) (base u))"
      by (simp add: set_encoded_query_def pct_validate_accepted)
    moreover have "part (put_part id_query (if ?enc = [] then [] else ''?'' @ ?enc) (base u)) id_query =
        (if ?enc = [] then [] else ''?'' @ ?enc)"
      using assms by (intro ub.get_put_same) simp_all
    ultimately show ?thesis
      using enc accepted_text_fields [of m] True
      by (simp add: url_setQuery_def Let_def url_getEncodedQuery_def url_getQuery_def query_getQuery_def
          query_setQuery_def encoded_query_def)
  next
    case False
    then have "m \<noteq> []" using accepted_text_Nil by auto
    then have "?enc \<noteq> []" by (simp add: join_fields_Nil)
    with False have "set_encoded_query ?enc (base u) = Inl InvalidPart"
      by (simp add: set_encoded_query_def pct_validate_accepted)
    with enc accepted_text_fields [of m] False show ?thesis
      by (simp add: url_setQuery_def Let_def url_getEncodedQuery_def url_getQuery_def query_getQuery_def
          query_setQuery_def)
  qed
qed

theorem url_setQuery_outcome_witness:
  "fst (url_setQuery [(''q'', ''a#b'')] newUrlImpl) = -1 \<and>
   url_getQuery ''q'' (snd (url_setQuery [(''q'', ''a#b'')] newUrlImpl)) = Some ''a#b'' \<and>
   base (snd (url_setQuery [(''q'', ''a#b'')] newUrlImpl)) = new_url"
proof -
  have i: "url_inv (base newUrlImpl)" by (simp add: newUrlImpl_def url_simps)
  show ?thesis
    using url_setQuery_outcome [OF i, of "[(''q'', ''a#b'')]"]
    by (simp add: Let_def library_rejects_def newUrlImpl_def smap_find_def)
qed

text \<open>
  C28. What the component setters change.  When a scheme, a path or an encoded query is
  accepted, the part it belongs to becomes that text with its delimiter and every other part
  keeps its text; when a host that is not empty is set, the host becomes the text, percent-encoded
  by \<open>set_host\<close> unless it is an IP address, and in a URL without an authority the part before
  it becomes the two slashes that start one, every other part keeping its text.  The URL is the
  concatenation of its parts afterwards.
\<close>

theorem url_setters_independent:
  assumes "url_inv b" "j < 8"
  shows "(set_scheme s b = Inr v \<longrightarrow>
      part v j = (if j = id_scheme then if s = [] then [] else s @ '':'' else part b j)) \<and>
    (set_encoded_path s b = Inr v \<longrightarrow> part v j = (if j = id_path then s else part b j)) \<and>
    (set_encoded_query s b = Inr v \<longrightarrow>
      part v j = (if j = id_query then if s = [] then [] else ''?'' @ s else part b j)) \<and>
    (s \<noteq> [] \<longrightarrow> set_encoded_host s b = Inr v \<longrightarrow>
      part v j = (if j = id_host then s else if j = id_user \<and> \<not> has_authority b then ''//'' else part b j)) \<and>
    (s \<noteq> [] \<longrightarrow> part (set_host s b) j =
      (if j = id_host then if parse_plain_hostname s \<noteq> HostName then s else pct_encode reg_name_pct_set s
       else if j = id_user \<and> \<not> has_authority b then ''//'' else part b j)) \<and>
    (set_scheme s b = Inr v \<or> set_encoded_path s b = Inr v \<or> set_encoded_query s b = Inr v \<or>
        set_encoded_host s b = Inr v \<or> v = set_host s b \<longrightarrow>
      encoded_url v = concat (map (part v) [0..<8]))"
proof -
  have host: "part v j = (if j = id_host then s else if j = id_user \<and> \<not> has_authority b then ''//'' else part b j)"
    if "s \<noteq> []" "set_encoded_host s b = Inr v"
    using that assms by (auto simp: set_encoded_host_def bind_res_Inr_iff url_simps part_put_host)
  have inv: "url_inv v" if "set_encoded_host s b = Inr v \<or> v = set_host s b"
    using that assms by (auto simp: set_encoded_host_def bind_res_Inr_iff set_host_inv_all put_host_inv url_simps split: if_splits)
  show ?thesis
    using assms host inv
    by (auto simp: ub.get_put ub.whole_parts put_part_inv part_set_host
        dest!: set_scheme_Inr set_encoded_path_Inr set_encoded_query_Inr)
qed

theorem url_setters_independent_witness:
  "\<exists>v. set_encoded_path ''/a'' new_url = Inr v \<and> part v 5 = ''/a''"
proof -
  have "\<not> (case set_encoded_path ''/a'' new_url of Inl _ \<Rightarrow> True | Inr _ \<Rightarrow> False)" by code_simp
  then obtain v where v: "set_encoded_path ''/a'' new_url = Inr v"
    by (auto split: sum.splits)
  have i: "url_inv new_url" by (simp add: url_simps)
  show ?thesis using url_setters_independent [OF i, of 5 "''/a''" v] v by simp
qed

text \<open>
  Whatever host, path, scheme and query a configuration map gives, the URL that
  the constructor of \<open>UrlImpl\<close> builds is well formed: its offsets ascend and end at
  the length of the text.
\<close>

theorem newUrl_well_formed:
  assumes "newUrlImplMap m = Inr u"
  shows "url_inv (base u) \<and> smap_wf (queryMap (query u)) \<and>
    url_url u = concat (map (part (base u)) [0..<8])"
proof -
  have "url_wf u"
    using assms by (simp add: newUrlImplMap_def url_options_wf [OF newUrlImpl_wf])
  then show ?thesis by (simp add: url_wf_def url_url_def ub.whole_parts)
qed

theorem newUrl_well_formed_witness:
  "\<exists>u. newUrlImplMap [(''host'', VString ''ex.org''), (''path'', VString ''/p'')] = Inr u \<and> url_inv (base u)"
proof -
  have "\<not> (case newUrlImplMap [(''host'', VString ''ex.org''), (''path'', VString ''/p'')] of
      Inl _ \<Rightarrow> True | Inr _ \<Rightarrow> False)" by code_simp
  then obtain u where "newUrlImplMap [(''host'', VString ''ex.org''), (''path'', VString ''/p'')] = Inr u"
    by (auto split: sum.splits)
  with newUrl_well_formed show ?thesis by blast
qed

end
