(* ===== verification/Decimal.thy ===== *)
theory Decimal
  imports Prelude
begin

text \<open>
  Decimal numbers of the standard library: \<open>std::to_string\<close> and \<open>std::stoi\<close> on
  a 32-bit \<open>int\<close>, and the round trip between them.
\<close>

section \<open>Definitions\<close>

definition digit :: "nat \<Rightarrow> char" where
  "digit n = char_of (48 + n)"

fun dec_nat :: "nat \<Rightarrow> string" where
  "dec_nat n = (if n < 10 then [digit n] else dec_nat (n div 10) @ [digit (n mod 10)])"

declare dec_nat.simps [simp del]

definition to_string :: "int \<Rightarrow> string" where
  "to_string i = (if i < 0 then CHR ''-'' # dec_nat (nat (- i)) else dec_nat (nat i))"

definition is_digit :: "char \<Rightarrow> bool" where
  "is_digit c \<longleftrightarrow> 48 \<le> (of_char c :: nat) \<and> (of_char c :: nat) \<le> 57"

definition is_space :: "char \<Rightarrow> bool" where
  "is_space c \<longleftrightarrow> of_char c = (32 :: nat) \<or> (9 \<le> (of_char c :: nat) \<and> (of_char c :: nat) \<le> 13)"

fun read_dec :: "nat \<Rightarrow> string \<Rightarrow> nat" where
  "read_dec acc [] = acc"
| "read_dec acc (c # cs) = (if is_digit c then read_dec (10 * acc + (of_char c - 48)) cs else acc)"

definition int_ok :: "int \<Rightarrow> bool" where
  "int_ok i \<longleftrightarrow> - (2 ^ 31) \<le> i \<and> i < 2 ^ 31"

text \<open>
  \<open>std::stoi\<close>: leading white space, an optional sign, the longest run of digits;
  no digit is \<open>std::invalid_argument\<close>, a value that is no \<open>int\<close> is
  \<open>std::out_of_range\<close>, and what follows the digits is ignored.
\<close>

definition stoi :: "string \<Rightarrow> int res" where
  "stoi s =
     (let t = dropWhile is_space s;
          neg = (case t of [] \<Rightarrow> False | c # _ \<Rightarrow> c = CHR ''-'');
          ds = (case t of [] \<Rightarrow> [] | c # cs \<Rightarrow> if c = CHR ''-'' \<or> c = CHR ''+'' then cs else t)
      in case ds of
           [] \<Rightarrow> Inl InvalidArgument
         | d # _ \<Rightarrow>
             if \<not> is_digit d then Inl InvalidArgument
             else (let n = int (read_dec 0 ds); i = (if neg then - n else n)
                   in if int_ok i then Inr i else Inl OutOfRange))"

section \<open>Printing and reading back\<close>

lemma of_char_digit: "n < 10 \<Longrightarrow> (of_char (digit n) :: nat) = 48 + n"
  by (simp add: digit_def)

lemma is_digit_digit: "n < 10 \<Longrightarrow> is_digit (digit n)"
  by (simp add: is_digit_def of_char_digit)

lemma dec_nat_neq_Nil [simp]: "dec_nat n \<noteq> []"
  by (subst dec_nat.simps) simp

lemma dec_nat_digits: "c \<in> set (dec_nat n) \<Longrightarrow> is_digit c"
proof (induction n arbitrary: c rule: dec_nat.induct)
  case (1 n)
  then show ?case
    by (subst (asm) (2) dec_nat.simps) (auto simp: is_digit_digit split: if_splits)
qed

lemma read_dec_append:
  "\<forall>c \<in> set s. is_digit c \<Longrightarrow> read_dec acc (s @ t) = read_dec (read_dec acc s) t"
  by (induction s arbitrary: acc) auto

lemma read_dec_dec_nat: "read_dec 0 (dec_nat n) = n"
proof (induction n rule: dec_nat.induct)
  case (1 n)
  show ?case
  proof (cases "n < 10")
    case True
    then show ?thesis by (subst dec_nat.simps) (simp add: is_digit_digit of_char_digit)
  next
    case False
    moreover have "read_dec 0 (dec_nat (n div 10) @ [digit (n mod 10)]) = n"
      using 1 [OF False] dec_nat_digits
      by (simp add: read_dec_append is_digit_digit of_char_digit)
    ultimately show ?thesis by (subst dec_nat.simps) simp
  qed
qed

lemma digit_not_space: "is_digit c \<Longrightarrow> \<not> is_space c"
  by (auto simp: is_digit_def is_space_def)

lemma digit_not_sign: "is_digit c \<Longrightarrow> c \<noteq> CHR ''-'' \<and> c \<noteq> CHR ''+''"
  by (auto simp: is_digit_def)

lemma dec_nat_hd: obtains d ds where "dec_nat n = d # ds" "is_digit d"
  by (metis dec_nat_digits dec_nat_neq_Nil list.exhaust list.set_intros(1))

lemma stoi_to_string: "int_ok i \<Longrightarrow> stoi (to_string i) = Inr i"
proof -
  assume ok: "int_ok i"
  obtain d ds where e: "dec_nat (nat \<bar>i\<bar>) = d # ds" "is_digit d" by (rule dec_nat_hd)
  have r: "read_dec 0 (d # ds) = nat \<bar>i\<bar>" using read_dec_dec_nat [of "nat \<bar>i\<bar>"] e by simp
  note sp = digit_not_space [OF e(2)] and sg = digit_not_sign [OF e(2)]
  show ?thesis
  proof (cases "i < 0")
    case True
    with e have "to_string i = CHR ''-'' # d # ds" by (simp add: to_string_def)
    moreover have "\<not> is_space (CHR ''-'')" by (simp add: is_space_def)
    ultimately show ?thesis using True r ok e(2)
      by (simp add: stoi_def Let_def del: read_dec.simps)
  next
    case False
    with e have "to_string i = d # ds" by (simp add: to_string_def)
    then show ?thesis using False r ok e(2) sp sg
      by (simp add: stoi_def Let_def del: read_dec.simps)
  qed
qed

lemma stoi_Inr_int_ok: "stoi s = Inr i \<Longrightarrow> int_ok i"
  by (auto simp: stoi_def Let_def split: list.splits if_splits)

lemma to_string_chars: "c \<in> set (to_string i) \<Longrightarrow> is_digit c \<or> c = CHR ''-''"
  by (auto simp: to_string_def dest: dec_nat_digits split: if_splits)

end
