(* ===== verification/Cookie.thy ===== *)
theory Cookie
  imports Decimal
begin

text \<open>
  Class \<open>CookieImpl\<close> of \<open>src/core/RequestCookie.cpp\<close>.  The clock (nanoseconds
  since the epoch), the zone and locale dependent \<open>std::put_time\<close> of a local
  time, and \<open>std::get_time\<close> followed by \<open>std::mktime\<close>, are arguments.  The clock
  counts nanoseconds in 64 bits; a date after April 2262 does not fit, and the product wraps
  around, as it does on x86-64.
\<close>

section \<open>Definitions\<close>

datatype same_site = SAME_SITE_NOT_SPECIFIED | SAME_SITE_NONE | SAME_SITE_LAX | SAME_SITE_STRICT

record cookie =
  cversion :: int
  cname :: string
  cvalue :: string
  ccomment :: string
  cdomain :: string
  cpath :: string
  cpriority :: string
  csecure :: bool
  cmaxAge :: int
  chttpOnly :: bool
  csameSite :: same_site

definition newCookie :: cookie where
  "newCookie = \<lparr>cversion = 0, cname = [], cvalue = [], ccomment = [], cdomain = [], cpath = [],
     cpriority = [], csecure = False, cmaxAge = -1, chttpOnly = False,
     csameSite = SAME_SITE_NOT_SPECIFIED\<rparr>"

definition newCookieName :: "string \<Rightarrow> cookie" where
  "newCookieName n = newCookie\<lparr>cname := n\<rparr>"

definition newCookieNameValue :: "string \<Rightarrow> string \<Rightarrow> cookie" where
  "newCookieNameValue n v = newCookie\<lparr>cname := n, cvalue := v\<rparr>"

definition cookie_setVersion :: "int \<Rightarrow> cookie \<Rightarrow> cookie" where
  "cookie_setVersion v c = c\<lparr>cversion := v\<rparr>"

definition cookie_setName :: "string \<Rightarrow> cookie \<Rightarrow> cookie" where
  "cookie_setName n c = c\<lparr>cname := n\<rparr>"

definition cookie_setValue :: "string \<Rightarrow> cookie \<Rightarrow> cookie" where
  "cookie_setValue v c = c\<lparr>cvalue := v\<rparr>"

definition cookie_value :: "cookie \<Rightarrow> string" where
  "cookie_value c = cvalue c"

definition cookie_setComment :: "string \<Rightarrow> cookie \<Rightarrow> cookie" where
  "cookie_setComment v c = c\<lparr>ccomment := v\<rparr>"

definition cookie_setDomain :: "string \<Rightarrow> cookie \<Rightarrow> cookie" where
  "cookie_setDomain v c = c\<lparr>cdomain := v\<rparr>"

definition cookie_setPath :: "string \<Rightarrow> cookie \<Rightarrow> cookie" where
  "cookie_setPath v c = c\<lparr>cpath := v\<rparr>"

definition cookie_setPriority :: "string \<Rightarrow> cookie \<Rightarrow> cookie" where
  "cookie_setPriority v c = c\<lparr>cpriority := v\<rparr>"

definition cookie_setSecure :: "bool \<Rightarrow> cookie \<Rightarrow> cookie" where
  "cookie_setSecure b c = c\<lparr>csecure := b\<rparr>"

definition cookie_setMaxAge :: "int \<Rightarrow> cookie \<Rightarrow> cookie" where
  "cookie_setMaxAge a c = c\<lparr>cmaxAge := a\<rparr>"

definition cookie_setHttpOnly :: "bool \<Rightarrow> cookie \<Rightarrow> cookie" where
  "cookie_setHttpOnly b c = c\<lparr>chttpOnly := b\<rparr>"

definition cookie_setSameSite :: "same_site \<Rightarrow> cookie \<Rightarrow> cookie" where
  "cookie_setSameSite s c = c\<lparr>csameSite := s\<rparr>"

definition copyCookie :: "cookie \<Rightarrow> cookie" where
  "copyCookie c = \<lparr>cversion = cversion c, cname = cname c, cvalue = cvalue c,
     ccomment = ccomment c, cdomain = cdomain c, cpath = cpath c, cpriority = cpriority c,
     csecure = csecure c, cmaxAge = cmaxAge c, chttpOnly = chttpOnly c, csameSite = csameSite c\<rparr>"

definition escape :: "string \<Rightarrow> string" where
  "escape str = []"

definition unescape :: "string \<Rightarrow> string" where
  "unescape str = []"

text \<open>\<open>std::chrono::duration_cast\<close> from nanoseconds to seconds rounds towards zero.\<close>

definition duration_seconds :: "int \<Rightarrow> int" where
  "duration_seconds ns = sgn ns * (\<bar>ns\<bar> div 1000000000)"

definition sameSiteText :: "same_site \<Rightarrow> string" where
  "sameSiteText s =
     (case s of
        SAME_SITE_NONE \<Rightarrow> ''; SameSite=None''
      | SAME_SITE_LAX \<Rightarrow> ''; SameSite=Lax''
      | SAME_SITE_STRICT \<Rightarrow> ''; SameSite=Strict''
      | SAME_SITE_NOT_SPECIFIED \<Rightarrow> [])"

definition cookie_toString :: "(int \<Rightarrow> string) \<Rightarrow> int \<Rightarrow> cookie \<Rightarrow> string" where
  "cookie_toString put_time now c =
     (let quoted = (\<lambda>k v. if v \<noteq> [] then k @ ''=\"'' @ v @ ''\"'' else []);
          plain = (\<lambda>k v. if v \<noteq> [] then k @ ''='' @ v else [])
      in cname c @ ''='' @
       (if cversion c = 0 then
          cvalue c @
          plain ''; domain'' (cdomain c) @
          plain ''; path'' (cpath c) @
          plain ''; Priority'' (cpriority c) @
          (if cmaxAge c \<noteq> -1
           then ''; expires='' @ put_time (duration_seconds (now + cmaxAge c * 1000000000))
           else []) @
          sameSiteText (csameSite c) @
          (if csecure c then ''; secure'' else []) @
          (if chttpOnly c then ''; HttpOnly'' else [])
        else
          ''\"'' @ cvalue c @ ''\"'' @
          quoted ''; Comment'' (ccomment c) @
          quoted ''; Domain'' (cdomain c) @
          quoted ''; Path'' (cpath c) @
          quoted ''; Priority'' (cpriority c) @
          (if cmaxAge c \<noteq> -1 then ''; Max-Age=\"'' @ to_string (cmaxAge c) @ ''\"'' else []) @
          sameSiteText (csameSite c) @
          (if csecure c then ''; secure'' else []) @
          (if chttpOnly c then ''; HttpOnly'' else []) @
          ''; Version=\"1\"''))"

text \<open>
  The seconds from \<open>now\<close> to a date: \<open>from_time_t\<close>, the difference of the two time
  points, the cast to seconds, and the \<open>int\<close> that the setter takes.
\<close>

definition expires_age :: "int \<Rightarrow> int \<Rightarrow> int" where
  "expires_age date now = int32 (duration_seconds (int64 (int64 (date * 1000000000) - now)))"

text \<open>One turn of the loop of the constructor from a map.\<close>

definition cookie_attribute ::
  "(string \<Rightarrow> int) \<Rightarrow> int \<Rightarrow> string \<Rightarrow> string \<Rightarrow> cookie \<Rightarrow> cookie res" where
  "cookie_attribute get_time now name val c =
     (if name = ''comment'' then Inr (cookie_setComment val c)
      else if name = ''domain'' then Inr (cookie_setDomain val c)
      else if name = ''path'' then Inr (cookie_setPath val c)
      else if name = ''priority'' then Inr (cookie_setPriority val c)
      else if name = ''max-age'' then bind_res (stoi val) (\<lambda>a. Inr (cookie_setMaxAge a c))
      else if name = ''secure'' then Inr (cookie_setSecure True c)
      else if name = ''expires'' then
        Inr (cookie_setMaxAge (expires_age (get_time val) now) c)
      else if name = ''SameSite'' then
        Inr (if val = ''None'' then c\<lparr>csameSite := SAME_SITE_NONE\<rparr>
             else if val = ''Lax'' then c\<lparr>csameSite := SAME_SITE_LAX\<rparr>
             else if val = ''Strict'' then c\<lparr>csameSite := SAME_SITE_STRICT\<rparr>
             else c)
      else if name = ''version'' then bind_res (stoi val) (\<lambda>v. Inr (cookie_setVersion v c))
      else if name = ''HttpOnly'' then Inr (cookie_setHttpOnly True c)
      else Inr (cookie_setValue val (cookie_setName name c)))"

fun cookie_attributes ::
  "(string \<Rightarrow> int) \<Rightarrow> int \<Rightarrow> string smap \<Rightarrow> cookie \<Rightarrow> cookie res" where
  "cookie_attributes get_time now [] c = Inr c"
| "cookie_attributes get_time now ((name, val) # nvc) c =
     bind_res (cookie_attribute get_time now name val c) (cookie_attributes get_time now nvc)"

definition newCookieMap :: "(string \<Rightarrow> int) \<Rightarrow> int \<Rightarrow> string smap \<Rightarrow> cookie res" where
  "newCookieMap get_time now nvc = cookie_attributes get_time now nvc newCookie"

section \<open>Building a cookie from its attributes\<close>

definition attribute_names :: "string set" where
  "attribute_names = {''comment'', ''domain'', ''path'', ''priority'', ''max-age'', ''secure'',
     ''expires'', ''SameSite'', ''version'', ''HttpOnly''}"

definition optional :: "'a \<Rightarrow> ('v \<Rightarrow> 'a res) \<Rightarrow> 'v option \<Rightarrow> 'a res" where
  "optional d f x = (case x of None \<Rightarrow> Inr d | Some v \<Rightarrow> f v)"

definition same_site_of :: "string \<Rightarrow> same_site \<Rightarrow> same_site" where
  "same_site_of v d =
     (if v = ''None'' then SAME_SITE_NONE else if v = ''Lax'' then SAME_SITE_LAX
      else if v = ''Strict'' then SAME_SITE_STRICT else d)"

definition custom_entries :: "string smap \<Rightarrow> string smap" where
  "custom_entries m = filter (\<lambda>kv. fst kv \<notin> attribute_names) m"

text \<open>
  What the attribute map \<open>m\<close> makes of the cookie \<open>c\<close>: each attribute is looked up
  on its own, \<open>max-age\<close> wins over \<open>expires\<close>, and the greatest key that names
  no attribute is the name of the cookie.
\<close>

definition cookie_of_map ::
  "(string \<Rightarrow> int) \<Rightarrow> int \<Rightarrow> string smap \<Rightarrow> cookie \<Rightarrow> cookie res" where
  "cookie_of_map get_time now m c =
     bind_res (optional
         (case smap_find m ''expires'' of
            None \<Rightarrow> cmaxAge c
          | Some v \<Rightarrow> expires_age (get_time v) now)
         stoi (smap_find m ''max-age'')) (\<lambda>age.
     bind_res (optional (cversion c) stoi (smap_find m ''version'')) (\<lambda>ver.
       Inr \<lparr>cversion = ver,
         cname = (if custom_entries m = [] then cname c else fst (last (custom_entries m))),
         cvalue = (if custom_entries m = [] then cvalue c else snd (last (custom_entries m))),
         ccomment = case_option (ccomment c) id (smap_find m ''comment''),
         cdomain = case_option (cdomain c) id (smap_find m ''domain''),
         cpath = case_option (cpath c) id (smap_find m ''path''),
         cpriority = case_option (cpriority c) id (smap_find m ''priority''),
         csecure = (csecure c \<or> smap_find m ''secure'' \<noteq> None),
         cmaxAge = age,
         chttpOnly = (chttpOnly c \<or> smap_find m ''HttpOnly'' \<noteq> None),
         csameSite = case_option (csameSite c) (\<lambda>v. same_site_of v (csameSite c))
           (smap_find m ''SameSite'')\<rparr>))"

lemma smap_find_Cons: "smap_find ((k, v) # m) k' = (if k' = k then Some v else smap_find m k')"
  by (simp add: smap_find_def)

lemma smap_find_above:
  "smap_wf ((k, v) # m) \<Longrightarrow> k' \<le> k \<Longrightarrow> smap_find m k' = None"
  by (auto simp: smap_find_def smap_wf_Cons map_of_eq_None_iff)

lemma custom_entries_Cons:
  "custom_entries ((k, v) # m) =
     (if k \<in> attribute_names then custom_entries m else (k, v) # custom_entries m)"
  by (simp add: custom_entries_def)

lemma cookie_of_map_Cons:
  assumes "smap_wf ((k, v) # m)"
  shows "cookie_of_map gt now ((k, v) # m) c =
    bind_res (cookie_attribute gt now k v c) (cookie_of_map gt now m)"
proof (cases "k \<in> attribute_names")
  case False
  then have n: "k \<noteq> ''comment''" "k \<noteq> ''domain''" "k \<noteq> ''path''" "k \<noteq> ''priority''"
    "k \<noteq> ''max-age''" "k \<noteq> ''secure''" "k \<noteq> ''expires''" "k \<noteq> ''SameSite''"
    "k \<noteq> ''version''" "k \<noteq> ''HttpOnly''"
    by (simp_all only: attribute_names_def insert_iff de_Morgan_disj simp_thms)
  have "cookie_attribute gt now k v c = Inr (c\<lparr>cname := k, cvalue := v\<rparr>)"
    by (simp only: cookie_attribute_def n if_False cookie_setName_def cookie_setValue_def)
  moreover have "smap_find ((k, v) # m) x = smap_find m x" if "x \<in> attribute_names" for x
    using that False by (auto simp: smap_find_Cons)
  then have f: "smap_find ((k, v) # m) ''comment'' = smap_find m ''comment''"
    "smap_find ((k, v) # m) ''domain'' = smap_find m ''domain''"
    "smap_find ((k, v) # m) ''path'' = smap_find m ''path''"
    "smap_find ((k, v) # m) ''priority'' = smap_find m ''priority''"
    "smap_find ((k, v) # m) ''max-age'' = smap_find m ''max-age''"
    "smap_find ((k, v) # m) ''secure'' = smap_find m ''secure''"
    "smap_find ((k, v) # m) ''expires'' = smap_find m ''expires''"
    "smap_find ((k, v) # m) ''SameSite'' = smap_find m ''SameSite''"
    "smap_find ((k, v) # m) ''version'' = smap_find m ''version''"
    "smap_find ((k, v) # m) ''HttpOnly'' = smap_find m ''HttpOnly''"
    by (simp_all only: attribute_names_def insert_iff simp_thms)
  have "cookie_of_map gt now ((k, v) # m) c = cookie_of_map gt now m (c\<lparr>cname := k, cvalue := v\<rparr>)"
    unfolding cookie_of_map_def f custom_entries_Cons if_not_P [OF False]
    by (cases "custom_entries m = []") (simp_all cong: option.case_cong)
  ultimately show ?thesis by simp
next
  case True
  note above = smap_find_above [OF assms]
  from True have "k = ''comment'' \<or> k = ''domain'' \<or> k = ''path'' \<or> k = ''priority'' \<or>
      k = ''max-age'' \<or> k = ''secure'' \<or> k = ''expires'' \<or> k = ''SameSite'' \<or>
      k = ''version'' \<or> k = ''HttpOnly''"
    by (simp only: attribute_names_def insert_iff empty_iff simp_thms)
  then consider "k = ''comment''" | "k = ''domain''" | "k = ''path''" | "k = ''priority''"
    | "k = ''max-age''" | "k = ''secure''" | "k = ''expires''" | "k = ''SameSite''"
    | "k = ''version''" | "k = ''HttpOnly''"
    by argo
  then show ?thesis
  proof cases
    case 5
    then have "smap_find m ''expires'' = None" "smap_find m ''max-age'' = None"
      by (simp_all add: above)
    with 5 True show ?thesis
      by (cases "stoi v") (simp_all add: cookie_of_map_def cookie_attribute_def smap_find_Cons
          custom_entries_Cons cookie_setMaxAge_def optional_def cong: option.case_cong)
  next
    case 7
    then have "smap_find m ''expires'' = None" by (simp add: above)
    with 7 True show ?thesis
      by (simp add: cookie_of_map_def cookie_attribute_def smap_find_Cons
          custom_entries_Cons cookie_setMaxAge_def cong: option.case_cong)
  next
    case 9
    then have "smap_find m ''max-age'' = None" "smap_find m ''version'' = None"
      "smap_find m ''expires'' = None"
      by (simp_all add: above)
    with 9 True show ?thesis
      by (cases "stoi v") (simp_all add: cookie_of_map_def cookie_attribute_def smap_find_Cons
          custom_entries_Cons cookie_setVersion_def optional_def cong: option.case_cong)
  next
    case 8
    then have "smap_find m ''SameSite'' = None" by (simp add: above)
    with 8 True show ?thesis
      by (simp add: cookie_of_map_def cookie_attribute_def smap_find_Cons custom_entries_Cons
          same_site_of_def cong: option.case_cong)
  qed (use True above [of k] in \<open>simp_all add: cookie_of_map_def cookie_attribute_def smap_find_Cons
       custom_entries_Cons cookie_setComment_def cookie_setDomain_def cookie_setPath_def
       cookie_setPriority_def cookie_setSecure_def cookie_setHttpOnly_def cong: option.case_cong\<close>)
qed

lemma cookie_attributes_of_map:
  "smap_wf m \<Longrightarrow> cookie_attributes gt now m c = cookie_of_map gt now m c"
proof (induction m arbitrary: c)
  case Nil
  then show ?case
    by (simp add: cookie_of_map_def smap_simps optional_def custom_entries_def)
next
  case (Cons kv m)
  obtain k v where kv: "kv = (k, v)" by (cases kv)
  have "cookie_attributes gt now (kv # m) c =
      bind_res (cookie_attribute gt now k v c) (cookie_of_map gt now m)"
    using Cons kv by (cases "cookie_attribute gt now k v c") (auto simp: smap_wf_Cons)
  with Cons.prems kv show ?case by (simp add: cookie_of_map_Cons)
qed

section \<open>The Set-Cookie text\<close>

text \<open>
  A reader of the header splits it at the semicolons, drops the space after each
  and separates name and value at the first equals sign.
\<close>

definition header_pieces :: "string \<Rightarrow> string list" where
  "header_pieces s = map (\<lambda>p. if p \<noteq> [] \<and> hd p = CHR '' '' then tl p else p) (split_on (CHR '';'') s)"

definition piece_pair :: "string \<Rightarrow> string \<times> string" where
  "piece_pair p = (takeWhile (\<lambda>c. c \<noteq> CHR ''='') p, drop 1 (dropWhile (\<lambda>c. c \<noteq> CHR ''='') p))"

text \<open>The attributes a Netscape cookie prints, in their order.\<close>

definition netscape_attributes :: "(int \<Rightarrow> string) \<Rightarrow> int \<Rightarrow> cookie \<Rightarrow> string list" where
  "netscape_attributes put_time now c =
     (if cdomain c = [] then [] else [''domain='' @ cdomain c]) @
     (if cpath c = [] then [] else [''path='' @ cpath c]) @
     (if cpriority c = [] then [] else [''Priority='' @ cpriority c]) @
     (if cmaxAge c = -1 then []
      else [''expires='' @ put_time (duration_seconds (now + cmaxAge c * 1000000000))]) @
     (case csameSite c of SAME_SITE_NOT_SPECIFIED \<Rightarrow> [] | SAME_SITE_NONE \<Rightarrow> [''SameSite=None'']
        | SAME_SITE_LAX \<Rightarrow> [''SameSite=Lax''] | SAME_SITE_STRICT \<Rightarrow> [''SameSite=Strict'']) @
     (if csecure c then [''secure''] else []) @
     (if chttpOnly c then [''HttpOnly''] else [])"

fun with_semicolons :: "string list \<Rightarrow> string" where
  "with_semicolons [] = []"
| "with_semicolons (p # ps) = ''; '' @ p @ with_semicolons ps"

lemma with_semicolons_append:
  "with_semicolons (ps @ qs) = with_semicolons ps @ with_semicolons qs"
  by (induction ps) auto

lemma join_with_semicolons:
  "join_with (CHR '';'') (p # map ((#) (CHR '' '')) ps) = p @ with_semicolons ps"
  by (induction ps arbitrary: p) auto

lemma netscape_toString:
  "cversion c = 0 \<Longrightarrow> cookie_toString put_time now c =
     (cname c @ ''='' @ cvalue c) @ with_semicolons (netscape_attributes put_time now c)"
  by (simp add: cookie_toString_def Let_def netscape_attributes_def with_semicolons_append
      sameSiteText_def split: same_site.split)

lemma header_pieces_with_semicolons:
  assumes "CHR '';'' \<notin> set p" "p = [] \<or> hd p \<noteq> CHR '' ''" "\<forall>q \<in> set ps. CHR '';'' \<notin> set q"
  shows "header_pieces (p @ with_semicolons ps) = p # ps"
proof -
  have "split_on (CHR '';'') (join_with (CHR '';'') (p # map ((#) (CHR '' '')) ps))
      = p # map ((#) (CHR '' '')) ps"
    using assms by (intro split_on_join_inverse) auto
  then have "split_on (CHR '';'') (p @ with_semicolons ps) = p # map ((#) (CHR '' '')) ps"
    by (simp only: join_with_semicolons)
  with assms show ?thesis by (auto simp: header_pieces_def o_def)
qed

text \<open>No field and no printed date holds a semicolon.\<close>

definition semicolon_free :: "(int \<Rightarrow> string) \<Rightarrow> cookie \<Rightarrow> bool" where
  "semicolon_free put_time c \<longleftrightarrow>
     CHR '';'' \<notin> set (cname c) \<and> CHR '';'' \<notin> set (cvalue c) \<and> CHR '';'' \<notin> set (cdomain c) \<and>
     CHR '';'' \<notin> set (cpath c) \<and> CHR '';'' \<notin> set (cpriority c) \<and>
     (\<forall>t. CHR '';'' \<notin> set (put_time t))"

lemma netscape_attributes_semicolon_free:
  "semicolon_free put_time c \<Longrightarrow> \<forall>p \<in> set (netscape_attributes put_time now c). CHR '';'' \<notin> set p"
  by (cases "csameSite c") (simp_all add: netscape_attributes_def semicolon_free_def ball_Un)

lemma netscape_pieces:
  assumes "cversion c = 0" "semicolon_free put_time c" "cname c = [] \<or> hd (cname c) \<noteq> CHR '' ''"
  shows "header_pieces (cookie_toString put_time now c) =
    (cname c @ ''='' @ cvalue c) # netscape_attributes put_time now c"
  unfolding netscape_toString [OF assms(1)]
  using assms netscape_attributes_semicolon_free [OF assms(2)]
  by (intro header_pieces_with_semicolons) (auto simp: semicolon_free_def hd_append)

section \<open>Reading a Netscape cookie back\<close>

lemma smap_find_filter:
  "smap_find (filter (\<lambda>kv. P (fst kv)) m) k = (if P k then smap_find m k else None)"
  by (induction m) (auto simp: smap_find_def)

lemma smap_wf_filter: "smap_wf m \<Longrightarrow> smap_wf (filter P m)"
  by (induction m) (auto simp: smap_wf_def)

text \<open>A map with one or two entries that name no attribute: the greater key comes last.\<close>

lemma custom_entries_last:
  assumes "smap_wf m" "n \<notin> attribute_names" "x \<notin> attribute_names"
    and "\<And>k. k \<notin> attribute_names \<Longrightarrow>
      smap_find m k = (if k = n then Some v else if k = x \<and> w \<noteq> [] then Some w else None)"
  shows "custom_entries m \<noteq> [] \<and> last (custom_entries m) = (if w = [] \<or> \<not> n < x then (n, v) else (x, w))"
proof -
  let ?e = "if w = [] \<or> n = x then [(n, v)] else if n < x then [(n, v), (x, w)] else [(x, w), (n, v)]"
  have "custom_entries m = ?e"
  proof (rule smap_unique)
    show "smap_wf (custom_entries m)" using assms(1) by (simp add: custom_entries_def smap_wf_filter)
    show "smap_wf ?e" by (auto simp: smap_wf_def)
    show "\<forall>k. smap_find (custom_entries m) k = smap_find ?e k"
      unfolding custom_entries_def smap_find_filter [of "\<lambda>k. k \<notin> attribute_names"]
      using assms(2-4) by (auto simp: smap_find_def)
  qed
  then show ?thesis by auto
qed

lemma piece_pair_eq: "CHR ''='' \<notin> set k \<Longrightarrow> piece_pair (k @ CHR ''='' # v) = (k, v)"
  by (induction k) (auto simp: piece_pair_def)

lemma piece_pair_flag: "CHR ''='' \<notin> set k \<Longrightarrow> piece_pair k = (k, [])"
  by (induction k) (auto simp: piece_pair_def)

definition netscape_pairs :: "cookie \<Rightarrow> (string \<times> string) list" where
  "netscape_pairs c =
     (if cdomain c = [] then [] else [(''domain'', cdomain c)]) @
     (if cpath c = [] then [] else [(''path'', cpath c)]) @
     (if cpriority c = [] then [] else [(''Priority'', cpriority c)]) @
     (case csameSite c of SAME_SITE_NOT_SPECIFIED \<Rightarrow> [] | SAME_SITE_NONE \<Rightarrow> [(''SameSite'', ''None'')]
        | SAME_SITE_LAX \<Rightarrow> [(''SameSite'', ''Lax'')] | SAME_SITE_STRICT \<Rightarrow> [(''SameSite'', ''Strict'')]) @
     (if csecure c then [(''secure'', [])] else []) @
     (if chttpOnly c then [(''HttpOnly'', [])] else [])"

lemma piece_pair_literals:
  "piece_pair (''domain='' @ v) = (''domain'', v)" "piece_pair (''path='' @ v) = (''path'', v)"
  "piece_pair (''Priority='' @ v) = (''Priority'', v)"
  "piece_pair ''SameSite=None'' = (''SameSite'', ''None'')"
  "piece_pair ''SameSite=Lax'' = (''SameSite'', ''Lax'')"
  "piece_pair ''SameSite=Strict'' = (''SameSite'', ''Strict'')"
  "piece_pair ''secure'' = (''secure'', [])" "piece_pair ''HttpOnly'' = (''HttpOnly'', [])"
  by (simp_all add: piece_pair_def)

lemma netscape_attributes_pairs:
  "cmaxAge c = -1 \<Longrightarrow>
     map piece_pair (netscape_attributes put_time now c) = netscape_pairs c"
  by (cases "csameSite c")
     (simp_all add: netscape_attributes_def netscape_pairs_def piece_pair_literals
       del: append_Cons append_Nil)

lemma netscape_pairs_lookup:
  "map_of (netscape_pairs c) ''domain'' = (if cdomain c = [] then None else Some (cdomain c))"
  "map_of (netscape_pairs c) ''path'' = (if cpath c = [] then None else Some (cpath c))"
  "map_of (netscape_pairs c) ''secure'' = (if csecure c then Some [] else None)"
  "map_of (netscape_pairs c) ''HttpOnly'' = (if chttpOnly c then Some [] else None)"
  "map_of (netscape_pairs c) ''comment'' = None" "map_of (netscape_pairs c) ''priority'' = None"
  "map_of (netscape_pairs c) ''expires'' = None" "map_of (netscape_pairs c) ''max-age'' = None"
  "map_of (netscape_pairs c) ''version'' = None"
  by (cases "csameSite c"; simp add: netscape_pairs_def map_add_def)+

lemma netscape_pairs_sameSite:
  "case_option SAME_SITE_NOT_SPECIFIED (\<lambda>v. same_site_of v SAME_SITE_NOT_SPECIFIED)
     (map_of (netscape_pairs c) ''SameSite'') = csameSite c"
  by (cases "csameSite c"; simp add: netscape_pairs_def map_add_def same_site_of_def)

lemma netscape_pairs_keys: "\<forall>p \<in> set (netscape_pairs c). fst p \<in> attribute_names \<or> fst p = ''Priority''"
  by (cases "csameSite c") (simp_all add: netscape_pairs_def attribute_names_def ball_Un)

lemma netscape_pairs_priority:
  "map_of (netscape_pairs c) ''Priority'' = (if cpriority c \<noteq> [] then Some (cpriority c) else None)"
  by (cases "csameSite c"; simp add: netscape_pairs_def map_add_def)

text \<open>The cookie that a reader gets back: the priority is taken for a name.\<close>

definition read_back :: "cookie \<Rightarrow> cookie" where
  "read_back c =
     (if cpriority c = [] then c
      else if cname c < ''Priority'' then c\<lparr>cpriority := [], cname := ''Priority'', cvalue := cpriority c\<rparr>
      else c\<lparr>cpriority := []\<rparr>)"

lemma cookie_of_netscape_pairs:
  assumes n: "cname c \<notin> attribute_names"
    and c: "cversion c = 0" "ccomment c = []" "cmaxAge c = -1"
  shows "newCookieMap gt now (sm.insert_all ((cname c, cvalue c) # netscape_pairs c) []) = Inr (read_back c)"
proof -
  let ?m = "sm.insert_all ((cname c, cvalue c) # netscape_pairs c) []"
  have wf: "smap_wf ?m" by (intro sm.inv_insert_all smap_wf_Nil)
  have f: "smap_find ?m k = (if k = cname c then Some (cvalue c) else map_of (netscape_pairs c) k)" for k
    using sm.find_insert_all [of "[]" "(cname c, cvalue c) # netscape_pairs c" k]
    by (simp add: smap_simps del: sm.insert_all.simps)
  have p: "''Priority'' \<notin> attribute_names" by (simp add: attribute_names_def)
  have "map_of (netscape_pairs c) k = (if k = ''Priority'' \<and> cpriority c \<noteq> [] then Some (cpriority c) else None)"
    if "k \<notin> attribute_names" for k
  proof (cases "k = ''Priority''")
    case True
    then show ?thesis by (simp add: netscape_pairs_priority)
  next
    case False
    then show ?thesis using that netscape_pairs_keys [of c] by (auto simp: map_of_eq_None_iff)
  qed
  then have cu: "custom_entries ?m \<noteq> []" "last (custom_entries ?m) =
      (if cpriority c = [] \<or> \<not> cname c < ''Priority'' then (cname c, cvalue c) else (''Priority'', cpriority c))"
    using custom_entries_last [OF wf n p, of "cvalue c" "cpriority c"] by (simp_all add: f del: sm.insert_all.simps)
  have g: "smap_find ?m k = map_of (netscape_pairs c) k" if "k \<in> attribute_names" for k
    using that n by (auto simp: f simp del: sm.insert_all.simps)
  have gs: "smap_find ?m ''comment'' = None" "smap_find ?m ''priority'' = None"
    "smap_find ?m ''expires'' = None" "smap_find ?m ''max-age'' = None" "smap_find ?m ''version'' = None"
    "smap_find ?m ''domain'' = (if cdomain c = [] then None else Some (cdomain c))"
    "smap_find ?m ''path'' = (if cpath c = [] then None else Some (cpath c))"
    "smap_find ?m ''secure'' = (if csecure c then Some [] else None)"
    "smap_find ?m ''HttpOnly'' = (if chttpOnly c then Some [] else None)"
    "smap_find ?m ''SameSite'' = map_of (netscape_pairs c) ''SameSite''"
    by (subst g, simp only: attribute_names_def insert_iff simp_thms,
        (simp only: netscape_pairs_lookup)?)+
  show ?thesis
    unfolding newCookieMap_def cookie_attributes_of_map [OF wf] cookie_of_map_def gs cu(2) if_not_P [OF cu(1)]
    using c netscape_pairs_sameSite [of c]
    by (auto simp: optional_def newCookie_def read_back_def cong: option.case_cong intro!: cookie.equality)
qed

section \<open>Properties\<close>

text \<open>
  C30. The constructor of \<open>CookieImpl\<close> from a map does not depend on the order in which
  it meets the entries: each attribute is what its own entry says, \<open>max-age\<close> wins
  over \<open>expires\<close>, unknown \<open>SameSite\<close> values are ignored, the greatest key that is no
  attribute name gives name and value, and the only error is a number that is none.
\<close>

theorem newCookieMap_reads_each_attribute:
  assumes "smap_wf m"
  shows "newCookieMap get_time now m = cookie_of_map get_time now m newCookie"
  using assms by (simp add: newCookieMap_def cookie_attributes_of_map)

theorem newCookieMap_reads_each_attribute_witness:
  "newCookieMap (\<lambda>_. 0) 0 [(''SameSite'', ''Lax''), (''max-age'', ''60''), (''sid'', ''7'')] =
     Inr (newCookie\<lparr>cname := ''sid'', cvalue := ''7'', cmaxAge := 60, csameSite := SAME_SITE_LAX\<rparr>)"
proof -
  have wf: "smap_wf [(''SameSite'', ''Lax''), (''max-age'', ''60''), (''sid'', ''7'')]" by code_simp
  have "cookie_of_map (\<lambda>_. 0) 0 [(''SameSite'', ''Lax''), (''max-age'', ''60''), (''sid'', ''7'')] newCookie =
      Inr (newCookie\<lparr>cname := ''sid'', cvalue := ''7'', cmaxAge := 60, csameSite := SAME_SITE_LAX\<rparr>)"
    by code_simp
  with newCookieMap_reads_each_attribute [OF wf] show ?thesis by simp
qed

text \<open>
  Split at its semicolons, the Set-Cookie text of a Netscape cookie is the pair of
  name and value followed by exactly the attributes that are set, in a fixed order.
\<close>

theorem set_cookie_pieces:
  assumes "cversion c = 0" "semicolon_free put_time c" "cname c = [] \<or> hd (cname c) \<noteq> CHR '' ''"
  shows "header_pieces (cookie_toString put_time now c) =
    (cname c @ ''='' @ cvalue c) # netscape_attributes put_time now c"
  using assms by (rule netscape_pieces)

theorem set_cookie_pieces_witness:
  "header_pieces (cookie_toString (\<lambda>_. ''later'') 0 (newCookie\<lparr>cname := ''sid'', cpath := ''/'', cmaxAge := 60\<rparr>)) =
     [''sid='', ''path=/'', ''expires=later'']"
proof -
  let ?c = "newCookie\<lparr>cname := ''sid'', cpath := ''/'', cmaxAge := 60\<rparr>"
  have c: "cversion ?c = 0" "semicolon_free (\<lambda>_. ''later'') ?c" "cname ?c = [] \<or> hd (cname ?c) \<noteq> CHR '' ''"
    by (simp_all add: newCookie_def semicolon_free_def)
  show ?thesis
    unfolding set_cookie_pieces [OF c] by (simp add: newCookie_def netscape_attributes_def)
qed

text \<open>
  C29. A Netscape session cookie without a priority survives the trip through the header text:
  split into pieces, each piece into name and value, and given to the constructor from a map,
  the text of \<open>toString\<close> is the same cookie again.  With a priority it does not: the text
  says \<open>Priority\<close> and the constructor knows only \<open>priority\<close>, so that the priority is lost, and
  when the name of the cookie comes before it in the order of the map the priority even
  replaces name and value.  The name must be free of equals signs, not begin with a blank and
  not be the name of an attribute, and no text of the cookie may hold a semicolon.
\<close>

theorem cookie_roundtrip:
  assumes "cversion c = 0" "ccomment c = []" "cmaxAge c = -1"
    and "semicolon_free put_time c" "cname c = [] \<or> hd (cname c) \<noteq> CHR '' ''"
    and "CHR ''='' \<notin> set (cname c)" "cname c \<notin> attribute_names"
  shows "newCookieMap get_time now'
    (sm.insert_all (map piece_pair (header_pieces (cookie_toString put_time now c))) []) =
    Inr (if cpriority c = [] then c
      else if cname c < ''Priority'' then c\<lparr>cpriority := [], cname := ''Priority'', cvalue := cpriority c\<rparr>
      else c\<lparr>cpriority := []\<rparr>)"
proof -
  have "map piece_pair (header_pieces (cookie_toString put_time now c)) = (cname c, cvalue c) # netscape_pairs c"
    using netscape_pieces [OF assms(1,4,5)] netscape_attributes_pairs [OF assms(3)] assms(6)
    by (simp add: piece_pair_eq)
  then show ?thesis using cookie_of_netscape_pairs [OF assms(7,1-3)] unfolding read_back_def by simp
qed

theorem cookie_roundtrip_witness:
  "newCookieMap (\<lambda>_. 0) 0 (sm.insert_all (map piece_pair (header_pieces (cookie_toString (\<lambda>_. []) 0
     (newCookie\<lparr>cname := ''sid'', cvalue := ''a=b'', cpath := ''/'', csecure := True\<rparr>)))) []) =
   Inr (newCookie\<lparr>cname := ''sid'', cvalue := ''a=b'', cpath := ''/'', csecure := True\<rparr>) \<and>
   newCookieMap (\<lambda>_. 0) 0 (sm.insert_all (map piece_pair (header_pieces (cookie_toString (\<lambda>_. []) 0
     (newCookie\<lparr>cname := ''ID'', cvalue := ''7'', cpriority := ''High''\<rparr>)))) []) =
   Inr (newCookie\<lparr>cname := ''Priority'', cvalue := ''High''\<rparr>)"
proof
  have l: "''ID'' < ''Priority''" by code_simp
  show "newCookieMap (\<lambda>_. 0) 0 (sm.insert_all (map piece_pair (header_pieces (cookie_toString (\<lambda>_. []) 0
     (newCookie\<lparr>cname := ''sid'', cvalue := ''a=b'', cpath := ''/'', csecure := True\<rparr>)))) []) =
   Inr (newCookie\<lparr>cname := ''sid'', cvalue := ''a=b'', cpath := ''/'', csecure := True\<rparr>)"
    by (subst cookie_roundtrip) (simp_all add: newCookie_def semicolon_free_def attribute_names_def)
  show "newCookieMap (\<lambda>_. 0) 0 (sm.insert_all (map piece_pair (header_pieces (cookie_toString (\<lambda>_. []) 0
     (newCookie\<lparr>cname := ''ID'', cvalue := ''7'', cpriority := ''High''\<rparr>)))) []) =
   Inr (newCookie\<lparr>cname := ''Priority'', cvalue := ''High''\<rparr>)"
    by (subst cookie_roundtrip) (use l in \<open>simp_all add: newCookie_def semicolon_free_def attribute_names_def\<close>)
qed

end
