(* ===== verification/Message.thy ===== *)
theory Message
  imports Url Cookie
begin

text \<open>
  HTTP messages and the classes \<open>UserAgentImpl\<close>, \<open>RequestImpl\<close> and
  \<open>ResponseImpl\<close> of \<open>src/core/RequestUserAgent.cpp\<close>, \<open>Request.cpp\<close> and
  \<open>Response.cpp\<close>.  A message of the HTTP library is the record of what the
  program reads from it or assigns to it.  What the program uses of the
  libraries and cannot be read in the repository is a field of the record
  \<open>lib\<close>, an argument of the operations that call it.
\<close>

section \<open>Messages of the HTTP library\<close>

datatype verb = VGet | VHead | VPost | VOther

datatype field = FServer | FContentType | FHost | FName string

text \<open>
  A request: \<open>rq_header\<close> answers \<open>base().find(name)\<close> for the header as received
  and \<open>rq_set\<close> lists the fields the program assigned, latest last.  A field that
  was assigned replaces the received one; names are compared without regard to
  case, as the field container of the HTTP library documents.
\<close>

record http_request =
  rq_method :: verb
  rq_method_string :: string
  rq_target :: string
  rq_version :: nat
  rq_header :: "string \<Rightarrow> string option"
  rq_set :: "(field \<times> string) list"
  rq_keep_alive :: "bool option"

definition field_name :: "field \<Rightarrow> string" where
  "field_name f = (case f of FServer \<Rightarrow> ''Server'' | FContentType \<Rightarrow> ''Content-Type'' | FHost \<Rightarrow> ''Host'' | FName n \<Rightarrow> n)"

definition lower_char :: "char \<Rightarrow> char" where
  "lower_char c = (if schar (CHR ''A'') \<le> schar c \<and> schar c \<le> schar (CHR ''Z'') then to_char (schar c + 32) else c)"

definition same_field :: "string \<Rightarrow> string \<Rightarrow> bool" where
  "same_field n m \<longleftrightarrow> List.map lower_char n = List.map lower_char m"

definition header_find :: "http_request \<Rightarrow> string \<Rightarrow> string option" where
  "header_find b n =
     (case List.find (\<lambda>(f, v). same_field (field_name f) n) (rev (rq_set b)) of
        Some (f, v) \<Rightarrow> Some v
      | None \<Rightarrow> rq_header b n)"

text \<open>A response: \<open>None\<close> is what the library's constructor left.\<close>

record http_response =
  rs_result :: "nat option"
  rs_version :: "nat option"
  rs_set :: "(field \<times> string) list"
  rs_keep_alive :: "bool option"
  rs_body :: string
  rs_content_length :: "nat option"
  rs_prepared :: bool

definition fresh_response :: http_response where
  "fresh_response = \<lparr>rs_result = None, rs_version = None, rs_set = [], rs_keep_alive = None,
     rs_body = [], rs_content_length = None, rs_prepared = False\<rparr>"

text \<open>
  Library code outside the repository: the splitting of a query string,
  \<open>keep_alive()\<close> of a request, the version string of the HTTP library and the
  browser family the user agent parser finds, given its rule file.
\<close>

record lib =
  split_amp :: "string \<Rightarrow> string list"
  keep_alive_of :: "http_request \<Rightarrow> bool"
  beast_version :: string
  browser_family :: "string \<Rightarrow> string \<Rightarrow> string res"

section \<open>Requests\<close>

record request_impl =
  ri_beast :: "http_request option"
  ri_url :: url_impl
  ri_method :: string
  ri_referer :: string
  ri_userAgent :: string
  ri_browser :: string

text \<open>The member \<open>userAgent\<close> parses one fixed string, whatever the request holds.\<close>

definition newUserAgentImpl :: "lib \<Rightarrow> string res" where
  "newUserAgentImpl L = browser_family L ''resources/regexes.yaml''
     ''Mozilla/5.0 (Windows NT 10.0; Win64; x64) AppleWebKit/537.36 (KHTML, like Gecko) Chrome/86.0.4240.183 Safari/537.36''"

definition newRequestImpl :: "lib \<Rightarrow> request_impl res" where
  "newRequestImpl L = bind_res (newUserAgentImpl L) (\<lambda>browser.
     Inr \<lparr>ri_beast = None, ri_url = newUrlImpl, ri_method = [], ri_referer = [],
       ri_userAgent = [], ri_browser = browser\<rparr>)"

definition req_setRequest :: "http_request option \<Rightarrow> request_impl \<Rightarrow> rc \<times> request_impl" where
  "req_setRequest b r = (0, r\<lparr>ri_beast := b\<rparr>)"

definition req_getRequest :: "request_impl \<Rightarrow> http_request option" where
  "req_getRequest r = ri_beast r"

definition req_url :: "request_impl \<Rightarrow> string" where
  "req_url r = url_url (ri_url r)"

definition req_method :: "request_impl \<Rightarrow> string" where
  "req_method r = ri_method r"

definition req_host :: "request_impl \<Rightarrow> string" where
  "req_host r = encoded_host (base (ri_url r))"

definition req_path :: "request_impl \<Rightarrow> string" where
  "req_path r = encoded_path (base (ri_url r))"

definition req_setHeader :: "string smap \<Rightarrow> request_impl \<Rightarrow> (rc \<times> request_impl) res" where
  "req_setHeader m r =
     (case ri_beast r of
        None \<Rightarrow> if m = [] then Inr (0, r) else Inl NullDereference
      | Some b \<Rightarrow> Inr (0, r\<lparr>ri_beast := Some (b\<lparr>rq_set := rq_set b @ map (\<lambda>(k, v). (FName k, v)) m\<rparr>)\<rparr>))"

definition req_getEncodedQuery :: "request_impl \<Rightarrow> string" where
  "req_getEncodedQuery r = url_getEncodedQuery (ri_url r)"

definition req_getQuery :: "string \<Rightarrow> request_impl \<Rightarrow> string option" where
  "req_getQuery key r = url_getQuery key (ri_url r)"

definition req_getCookie :: "string \<Rightarrow> request_impl \<Rightarrow> cookie" where
  "req_getCookie name r = newCookie"

definition req_getUserAgentBrowser :: "request_impl \<Rightarrow> string" where
  "req_getUserAgentBrowser r = ri_browser r"

definition parseRequest :: "lib \<Rightarrow> request_impl \<Rightarrow> (rc \<times> request_impl) res" where
  "parseRequest L r =
     (case ri_beast r of
        None \<Rightarrow> Inr (-1, r)
      | Some b \<Rightarrow>
          let r1 = r\<lparr>ri_method := rq_method_string b\<rparr>;
              target = rq_target b
          in bind_res
              (case find_char (CHR ''?'') target of
                 Some pos \<Rightarrow>
                   bind_res (substr target 0 (Some pos)) (\<lambda>p.
                   bind_res (with_base (set_encoded_path p (base (ri_url r1))) (ri_url r1)) (\<lambda>u.
                   bind_res (substr target (pos + 1) None) (\<lambda>q.
                     Inr (r1\<lparr>ri_url := snd (url_setEncodedQuery (split_amp L) q u)\<rparr>))))
               | None \<Rightarrow>
                   bind_res (with_base (set_encoded_path target (base (ri_url r1))) (ri_url r1)) (\<lambda>u.
                     Inr (r1\<lparr>ri_url := u\<rparr>)))
              (\<lambda>r2.
                let r3 = (case header_find b ''User-Agent'' of None \<Rightarrow> r2 | Some v \<Rightarrow> r2\<lparr>ri_userAgent := v\<rparr>);
                    r4 = (case header_find b ''Referer'' of None \<Rightarrow> r3 | Some v \<Rightarrow> r3\<lparr>ri_referer := v\<rparr>);
                    r5 = (case header_find b ''Host'' of
                            None \<Rightarrow> r4
                          | Some v \<Rightarrow> r4\<lparr>ri_url := (ri_url r4)\<lparr>base := set_host v (base (ri_url r4))\<rparr>\<rparr>)
                in Inr (0, snd (req_setRequest (Some b) r5))))"

definition routeValidate :: "string \<Rightarrow> string \<Rightarrow> request_impl \<Rightarrow> rc" where
  "routeValidate method path r =
     (if req_method r \<noteq> method then -1 else if req_path r \<noteq> path then -1 else 0)"

section \<open>Responses\<close>

record response_impl =
  rp_beast :: "http_response option"
  rp_writableEnded :: bool
  rp_body :: string

definition newResponseImpl :: response_impl where
  "newResponseImpl = \<lparr>rp_beast = None, rp_writableEnded = False, rp_body = []\<rparr>"

definition res_setResponse :: "http_response option \<Rightarrow> response_impl \<Rightarrow> rc \<times> response_impl" where
  "res_setResponse b r = (0, r\<lparr>rp_beast := b\<rparr>)"

definition res_getResponse :: "response_impl \<Rightarrow> http_response option" where
  "res_getResponse r = rp_beast r"

definition res_end :: "string \<Rightarrow> response_impl \<Rightarrow> rc \<times> response_impl" where
  "res_end bodyStr r = (0, r\<lparr>rp_body := bodyStr, rp_writableEnded := True\<rparr>)"

definition res_nothing :: "response_impl \<Rightarrow> response_impl" where
  "res_nothing r = r"

definition res_writableEnded :: "response_impl \<Rightarrow> bool" where
  "res_writableEnded r = rp_writableEnded r"

definition res_body :: "response_impl \<Rightarrow> string" where
  "res_body r = rp_body r"

definition res_parseResponse :: "response_impl \<Rightarrow> rc \<times> response_impl" where
  "res_parseResponse r = (0, r)"

definition res_setCookie :: "string \<Rightarrow> string \<Rightarrow> variant smap \<Rightarrow> response_impl \<Rightarrow> rc \<times> response_impl" where
  "res_setCookie name val m r = (0, r)"

section \<open>What a parsed request holds\<close>

lemma header_find_received: "rq_set b = [] \<Longrightarrow> header_find b n = rq_header b n"
  by (simp add: header_find_def)

text \<open>A field that a handler sets is what the next parse reads, under any spelling.\<close>

lemma header_find_set:
  "same_field n m \<Longrightarrow> header_find (b\<lparr>rq_set := rq_set b @ [(FName n, v)]\<rparr>) m = Some v"
  by (simp add: header_find_def field_name_def)

text \<open>The target before and after its first question mark.\<close>

definition target_path :: "string \<Rightarrow> string" where
  "target_path t = takeWhile (\<lambda>c. c \<noteq> CHR ''?'') t"

definition target_query :: "string \<Rightarrow> string option" where
  "target_query t =
     (if CHR ''?'' \<in> set t then Some (tl (dropWhile (\<lambda>c. c \<noteq> CHR ''?'') t)) else None)"

lemma substr_target:
  assumes "find_char (CHR ''?'') t = Some pos"
  shows "substr t 0 (Some pos) = Inr (target_path t)"
    "substr t (Suc pos) None = Inr (the (target_query t))" "target_query t \<noteq> None"
proof -
  have m: "CHR ''?'' \<in> set t" and p: "pos = length (takeWhile (\<lambda>c. c \<noteq> CHR ''?'') t)"
    using assms by (auto simp: find_char_split split: if_splits)
  have l: "pos < length t" unfolding p using m by (rule length_takeWhile_neq)
  show "substr t 0 (Some pos) = Inr (target_path t)"
    using l by (simp add: substr_def target_path_def p) (metis takeWhile_eq_take)
  have "drop (Suc pos) t = tl (dropWhile (\<lambda>c. c \<noteq> CHR ''?'') t)"
    unfolding p by (metis drop_Suc dropWhile_eq_drop tl_drop drop_tl)
  with l m show "substr t (Suc pos) None = Inr (the (target_query t))"
    by (simp add: substr_def target_query_def)
  show "target_query t \<noteq> None" using m by (simp add: target_query_def)
qed

lemma target_without_query: "find_char (CHR ''?'') t = None \<Longrightarrow> target_path t = t \<and> target_query t = None"
  by (simp add: find_char_None target_path_def target_query_def takeWhile_neq_all)

text \<open>The URL of a request after parsing: path, query and host in that order.\<close>

definition with_query :: "lib \<Rightarrow> string option \<Rightarrow> url_impl \<Rightarrow> url_impl" where
  "with_query L q u = (case q of None \<Rightarrow> u | Some s \<Rightarrow> snd (url_setEncodedQuery (split_amp L) s u))"

definition with_host :: "string option \<Rightarrow> url_impl \<Rightarrow> url_impl" where
  "with_host h u = (case h of None \<Rightarrow> u | Some v \<Rightarrow> u\<lparr>base := set_host v (base u)\<rparr>)"

lemma parseRequest_eq:
  assumes "ri_beast r = Some b"
  shows "parseRequest L r =
    bind_res (set_encoded_path (target_path (rq_target b)) (base (ri_url r))) (\<lambda>p.
      Inr (0, \<lparr>ri_beast = Some b,
        ri_url = with_host (header_find b ''Host'')
          (with_query L (target_query (rq_target b)) ((ri_url r)\<lparr>base := p\<rparr>)),
        ri_method = rq_method_string b,
        ri_referer = case_option (ri_referer r) id (header_find b ''Referer''),
        ri_userAgent = case_option (ri_userAgent r) id (header_find b ''User-Agent''),
        ri_browser = ri_browser r\<rparr>))"
proof (cases "find_char (CHR ''?'') (rq_target b)")
  case None
  show ?thesis
    using target_without_query [OF None] assms None
    by (cases "set_encoded_path (rq_target b) (base (ri_url r))"; cases "header_find b ''User-Agent''";
        cases "header_find b ''Referer''"; cases "header_find b ''Host''")
       (simp_all add: parseRequest_def Let_def with_base_def with_query_def with_host_def req_setRequest_def
         request_impl.equality)
next
  case (Some pos)
  note s = substr_target [OF Some]
  from s(3) obtain q where q: "target_query (rq_target b) = Some q" by auto
  show ?thesis
    using s(1,2) assms Some q
    by (cases "set_encoded_path (target_path (rq_target b)) (base (ri_url r))";
        cases "header_find b ''User-Agent''"; cases "header_find b ''Referer''"; cases "header_find b ''Host''")
       (simp_all add: parseRequest_def Let_def with_base_def with_query_def with_host_def req_setRequest_def
         request_impl.equality)
qed

section \<open>Concrete values for the witnesses\<close>

definition example_request :: http_request where
  "example_request = \<lparr>rq_method = VGet, rq_method_string = ''GET'', rq_target = ''/hi?n=1'', rq_version = 11,
     rq_header = (\<lambda>k. if k = ''Host'' then Some ''localhost:3000'' else None), rq_set = [], rq_keep_alive = None\<rparr>"

definition example_lib :: lib where
  "example_lib = \<lparr>split_amp = split_on (CHR ''&''), keep_alive_of = (\<lambda>_. True), beast_version = ''Beast'',
     browser_family = (\<lambda>_ _. Inr ''Chrome'')\<rparr>"

end
