(* ===== verification/Route.thy ===== *)
theory Route
  imports Message "HOL-Library.Multiset"
begin

text \<open>
  Routing: class \<open>RouteImpl\<close> of \<open>src/core/ServerRoute.cpp\<close> and
  \<open>RouteCombiner\<close> of \<open>src/core/ServerUtil.hpp\<close>.  A path owns a signal: the
  connected handlers and the combiner, which holds a pointer to a response.
  The request and the response of a connection are shared between the
  connection, the handlers and the combiner, so they live in a store and are
  named by a number.
\<close>

section \<open>Handlers\<close>

text \<open>
  What a handler can do through the \<open>Request\<close> and \<open>Response\<close> interfaces; it is a
  function of the two objects it is given and returns its calls and its result.
  An empty \<open>std::function\<close> is \<open>None\<close>.
\<close>

datatype handler_op =
    OpEnd string
  | OpBody string
  | OpSetCookie string string "variant smap"
  | OpNothing
  | OpSetHeader "string smap"
  | OpParseRequest

type_synonym handler = "request_impl \<Rightarrow> response_impl \<Rightarrow> (string \<times> handler_op list) res"
type_synonym slots = "(int \<times> handler option) list"
type_synonym store = "nat \<Rightarrow> request_impl \<times> response_impl"

definition apply_op ::
  "lib \<Rightarrow> handler_op \<Rightarrow> request_impl \<times> response_impl \<Rightarrow> (request_impl \<times> response_impl) res" where
  "apply_op L oper s =
     (case oper of
        OpEnd b \<Rightarrow> Inr (fst s, snd (res_end b (snd s)))
      | OpBody b \<Rightarrow> Inr (fst s, (snd s)\<lparr>rp_body := b\<rparr>)
      | OpSetCookie n v m \<Rightarrow> Inr (fst s, snd (res_setCookie n v m (snd s)))
      | OpNothing \<Rightarrow> Inr (fst s, res_nothing (snd s))
      | OpSetHeader m \<Rightarrow> bind_res (req_setHeader m (fst s)) (\<lambda>(_, r). Inr (r, snd s))
      | OpParseRequest \<Rightarrow> bind_res (parseRequest L (fst s)) (\<lambda>(_, r). Inr (r, snd s)))"

fun apply_ops ::
  "lib \<Rightarrow> handler_op list \<Rightarrow> request_impl \<times> response_impl \<Rightarrow> (request_impl \<times> response_impl) res" where
  "apply_ops L [] s = Inr s"
| "apply_ops L (oper # opers) s = bind_res (apply_op L oper s) (apply_ops L opers)"

definition call_slot ::
  "lib \<Rightarrow> handler option \<Rightarrow> request_impl \<times> response_impl \<Rightarrow>
   (string \<times> request_impl \<times> response_impl) res" where
  "call_slot L h s =
     (case h of
        None \<Rightarrow> Inl BadFunctionCall
      | Some f \<Rightarrow> bind_res (f (fst s) (snd s)) (\<lambda>(v, opers).
          bind_res (apply_ops L opers s) (\<lambda>s1. Inr (v, s1))))"

section \<open>Signals and their combiner\<close>

record signal =
  sg_slots :: slots
  sg_combiner :: "nat option"

definition new_signal :: signal where
  "new_signal = \<lparr>sg_slots = [], sg_combiner = None\<rparr>"

text \<open>
  \<open>RouteCombiner::operator()\<close> over the call results of the slots: the objects
  \<open>i\<close> are passed to the handlers, \<open>c\<close> is the response the combiner holds.
\<close>

fun combine_slots ::
  "lib \<Rightarrow> nat option \<Rightarrow> nat \<Rightarrow> slots \<Rightarrow> string \<Rightarrow> store \<Rightarrow> (string \<times> store) res" where
  "combine_slots L c i [] valueLast st = Inr (valueLast, st)"
| "combine_slots L c i ((p, h) # rest) valueLast st =
     bind_res (call_slot L h (st i)) (\<lambda>(v, s).
       let st1 = st(i := s) in
       (case c of
          None \<Rightarrow> Inl NullDereference
        | Some k \<Rightarrow>
            if res_writableEnded (snd (st1 k)) then Inr (res_body (snd (st1 k)), st1)
            else combine_slots L c i rest v st1))"

definition call_signal :: "lib \<Rightarrow> signal \<Rightarrow> nat \<Rightarrow> store \<Rightarrow> (string option \<times> store) res" where
  "call_signal L sg i st =
     bind_res (combine_slots L (sg_combiner sg) i (sg_slots sg) [] st) (\<lambda>(v, st1). Inr (Some v, st1))"

section \<open>The route table\<close>

record router =
  routePostMap :: "signal smap"
  routeGetMap :: "signal smap"
  routeAllMap :: "signal smap"

definition newRouteImpl :: router where
  "newRouteImpl = \<lparr>routePostMap = [], routeGetMap = [], routeAllMap = []\<rparr>"

type_synonym connector = "int \<Rightarrow> handler option \<Rightarrow> slots \<Rightarrow> slots"

definition connect_slot :: "connector \<Rightarrow> int \<Rightarrow> handler option \<Rightarrow> signal \<Rightarrow> signal" where
  "connect_slot cn priority h sg = sg\<lparr>sg_slots := cn priority h (sg_slots sg)\<rparr>"

definition route_add ::
  "connector \<Rightarrow> string \<Rightarrow> int \<Rightarrow> handler option \<Rightarrow> signal smap \<Rightarrow> rc \<times> signal smap" where
  "route_add cn path priority h routeMap =
     (let routeMap1 = (case smap_find routeMap path of
                         None \<Rightarrow> smap_insert path new_signal routeMap
                       | Some _ \<Rightarrow> routeMap)
      in (0, smap_update path (connect_slot cn priority h) routeMap1))"

definition getAdd ::
  "connector \<Rightarrow> string \<Rightarrow> int \<Rightarrow> handler option \<Rightarrow> router \<Rightarrow> rc \<times> router" where
  "getAdd cn path priority h R =
     (case route_add cn path priority h (routeGetMap R) of (rc, m) \<Rightarrow> (rc, R\<lparr>routeGetMap := m\<rparr>))"

definition postAdd ::
  "connector \<Rightarrow> string \<Rightarrow> int \<Rightarrow> handler option \<Rightarrow> router \<Rightarrow> rc \<times> router" where
  "postAdd cn path priority h R =
     (case route_add cn path priority h (routePostMap R) of (rc, m) \<Rightarrow> (rc, R\<lparr>routePostMap := m\<rparr>))"

definition allAdd ::
  "connector \<Rightarrow> string \<Rightarrow> int \<Rightarrow> handler option \<Rightarrow> router \<Rightarrow> rc \<times> router" where
  "allAdd cn path priority h R =
     (case route_add cn path priority h (routeAllMap R) of (rc, m) \<Rightarrow> (rc, R\<lparr>routeAllMap := m\<rparr>))"

text \<open>Where \<open>doSignal\<close> finds a signal: in the map it is given, or in the map of all methods.\<close>

datatype found = InMethod string | InAll string | NotFound

definition find_signal :: "string \<Rightarrow> signal smap \<Rightarrow> signal smap \<Rightarrow> found" where
  "find_signal path routeMap allMap =
     (if smap_find routeMap path \<noteq> None then InMethod path
      else if smap_find routeMap ''*'' \<noteq> None then InMethod ''*''
      else if smap_find allMap path \<noteq> None then InAll path
      else if smap_find allMap ''*'' \<noteq> None then InAll ''*''
      else NotFound)"

text \<open>The assignments to the response after the signal has returned a body.\<close>

definition fill_response :: "lib \<Rightarrow> nat \<Rightarrow> http_request \<Rightarrow> string \<Rightarrow> http_response \<Rightarrow> http_response" where
  "fill_response L status req bodyStr res = res\<lparr>rs_result := Some status,
     rs_version := Some (rq_version req),
     rs_set := rs_set res @ [(FServer, beast_version L), (FContentType, ''text/html'')],
     rs_keep_alive := Some (keep_alive_of L req),
     rs_body := bodyStr,
     rs_content_length := Some (length bodyStr),
     rs_prepared := True\<rparr>"

definition answer :: "lib \<Rightarrow> string \<Rightarrow> nat \<Rightarrow> store \<Rightarrow> (rc \<times> store) res" where
  "answer L bodyStr i st =
     (case req_getRequest (fst (st i)) of
        None \<Rightarrow> Inl NullDereference
      | Some reqBeast \<Rightarrow>
          (case res_getResponse (snd (st i)) of
             None \<Rightarrow> Inl NullDereference
           | Some resBeast \<Rightarrow> Inr (0, st(i := (fst (st i),
               (snd (st i))\<lparr>rp_beast := Some (fill_response L 200 reqBeast bodyStr resBeast)\<rparr>)))))"

definition set_combiner :: "nat \<Rightarrow> signal \<Rightarrow> signal" where
  "set_combiner i sg = sg\<lparr>sg_combiner := Some i\<rparr>"

definition run_signal :: "lib \<Rightarrow> signal option \<Rightarrow> nat \<Rightarrow> store \<Rightarrow> (rc \<times> store) res" where
  "run_signal L sg i st =
     (case sg of
        None \<Rightarrow> Inr (-1, st)
      | Some g \<Rightarrow> bind_res (call_signal L g i st) (\<lambda>(returnStrOpt, st1).
          (case returnStrOpt of
             None \<Rightarrow> Inr (-1, st1)
           | Some bodyStr \<Rightarrow> answer L bodyStr i st1)))"

definition doSignal ::
  "lib \<Rightarrow> string \<Rightarrow> nat \<Rightarrow> signal smap \<Rightarrow> signal smap \<Rightarrow> store \<Rightarrow>
   (rc \<times> signal smap \<times> signal smap \<times> store) res" where
  "doSignal L path i routeMap allMap st =
     (case find_signal path routeMap allMap of
        NotFound \<Rightarrow> Inr (-1, routeMap, allMap, st)
      | InMethod k \<Rightarrow>
          let routeMap1 = smap_update k (set_combiner i) routeMap in
          bind_res (run_signal L (smap_find routeMap1 k) i st) (\<lambda>(rc, st1).
            Inr (rc, routeMap1, allMap, st1))
      | InAll k \<Rightarrow>
          let allMap1 = smap_update k (set_combiner i) allMap in
          bind_res (run_signal L (smap_find allMap1 k) i st) (\<lambda>(rc, st1).
            Inr (rc, routeMap, allMap1, st1)))"

definition doGetSignal ::
  "lib \<Rightarrow> string \<Rightarrow> nat \<Rightarrow> router \<Rightarrow> store \<Rightarrow> (rc \<times> router \<times> store) res" where
  "doGetSignal L path i R st =
     bind_res (doSignal L path i (routeGetMap R) (routeAllMap R) st) (\<lambda>(rc, m, a, st1).
       Inr (rc, R\<lparr>routeGetMap := m, routeAllMap := a\<rparr>, st1))"

section \<open>The interface of a route table\<close>

text \<open>
  A table from paths to signals: adding a route changes the signal of its path,
  a new one when there was none, and nothing else.
\<close>

locale route_table =
  fixes lookup :: "'t \<Rightarrow> string \<Rightarrow> 's option"
    and add :: "string \<Rightarrow> 'h \<Rightarrow> 't \<Rightarrow> 't"
    and join :: "'h \<Rightarrow> 's \<Rightarrow> 's"
    and blank :: 's
    and inv :: "'t \<Rightarrow> bool"
  assumes inv_add: "inv t \<Longrightarrow> inv (add p h t)"
    and lookup_add: "inv t \<Longrightarrow> lookup (add p h t) q =
      (if q = p then Some (join h (case lookup t p of None \<Rightarrow> blank | Some s \<Rightarrow> s)) else lookup t q)"
begin

fun add_all :: "(string \<times> 'h) list \<Rightarrow> 't \<Rightarrow> 't" where
  "add_all [] t = t"
| "add_all ((p, h) # rs) t = add_all rs (add p h t)"

fun join_all :: "'h list \<Rightarrow> 's \<Rightarrow> 's" where
  "join_all [] s = s"
| "join_all (h # hs) s = join_all hs (join h s)"

definition routes_of :: "string \<Rightarrow> (string \<times> 'h) list \<Rightarrow> 'h list" where
  "routes_of q rs = map snd (filter (\<lambda>r. fst r = q) rs)"

lemma inv_add_all: "inv t \<Longrightarrow> inv (add_all rs t)"
  by (induction rs t rule: add_all.induct) (auto intro: inv_add)

text \<open>After a list of registrations a path holds its own registrations, in their order.\<close>

lemma lookup_add_all:
  "inv t \<Longrightarrow> lookup (add_all rs t) q =
     (case lookup t q of
        None \<Rightarrow> if routes_of q rs = [] then None else Some (join_all (routes_of q rs) blank)
      | Some s \<Rightarrow> Some (join_all (routes_of q rs) s))"
  by (induction rs t rule: add_all.induct)
     (auto simp: lookup_add inv_add routes_of_def split: option.splits)

lemma lookup_add_all_none: "inv t \<Longrightarrow> routes_of q rs = [] \<Longrightarrow> lookup (add_all rs t) q = lookup t q"
  by (simp add: lookup_add_all split: option.splits)

end

lemma smap_find_route_add:
  "smap_wf m \<Longrightarrow> smap_find (snd (route_add cn path priority h m)) q =
     (if q = path
      then Some (connect_slot cn priority h (case smap_find m path of None \<Rightarrow> new_signal | Some s \<Rightarrow> s))
      else smap_find m q)"
  by (auto simp: route_add_def smap_simps sm.find_insert split: option.splits)

lemma smap_wf_route_add: "smap_wf m \<Longrightarrow> smap_wf (snd (route_add cn path priority h m))"
  by (simp add: route_add_def smap_simps sm.inv_insert split: option.splits)

lemma route_add_rc: "fst (route_add cn path priority h m) = 0"
  by (simp add: route_add_def)

interpretation rt: route_table smap_find "\<lambda>p (pr, h) m. snd (route_add cn p pr h m)"
  "\<lambda>(pr, h). connect_slot cn pr h" new_signal smap_wf
  for cn :: connector
  by unfold_locales (auto simp: smap_find_route_add smap_wf_route_add)

section \<open>The order of the handlers\<close>

text \<open>
  The documented behaviour of \<open>signal::connect(group, slot)\<close>: groups are called in
  ascending order, and a new slot comes after those of its group.
\<close>

definition connects_at_back :: "connector \<Rightarrow> bool" where
  "connects_at_back cn \<longleftrightarrow> (\<forall>p h xs. sorted (map fst xs) \<longrightarrow>
     sorted (map fst (cn p h xs)) \<and>
     (\<forall>q. filter (\<lambda>x. fst x = q) (cn p h xs) =
        filter (\<lambda>x. fst x = q) xs @ (if q = p then [(p, h)] else [])))"

text \<open>One function with that behaviour.\<close>

definition group_insert :: connector where
  "group_insert p h xs =
     takeWhile (\<lambda>x. fst x \<le> p) xs @ (p, h) # dropWhile (\<lambda>x. fst x \<le> p) xs"

lemma sorted_dropWhile_greater:
  "sorted (map fst (xs :: (int \<times> 'b) list)) \<Longrightarrow> x \<in> set (dropWhile (\<lambda>x. fst x \<le> p) xs) \<Longrightarrow> p < fst x"
  by (induction xs) (auto split: if_splits)

lemma group_insert_at_back: "connects_at_back group_insert"
  unfolding connects_at_back_def
proof (intro allI impI conjI)
  fix p :: int and h :: "handler option" and xs :: slots and q :: int
  assume s: "sorted (map fst xs)"
  let ?t = "takeWhile (\<lambda>x. fst x \<le> p) xs" and ?d = "dropWhile (\<lambda>x. fst x \<le> p) xs"
  have split: "?t @ ?d = xs" by simp
  have "sorted (map fst (?t @ ?d))" using s by simp
  then have st: "sorted (map fst ?t)" "sorted (map fst ?d)"
    by (simp_all only: map_append sorted_append)
  have le: "\<forall>x \<in> set ?t. fst x \<le> p" by (blast dest: set_takeWhileD)
  have gt: "\<forall>x \<in> set ?d. p < fst x" using sorted_dropWhile_greater [OF s] by blast
  have "fst x \<le> fst y" if "x \<in> set ?t" "y \<in> set ?d" for x y
    using that le gt by force
  then show "sorted (map fst (group_insert p h xs))"
    using st le gt by (simp add: group_insert_def sorted_append less_imp_le)
  have "filter (\<lambda>x. fst x = q) xs = filter (\<lambda>x. fst x = q) ?t @ filter (\<lambda>x. fst x = q) ?d"
    by (simp only: filter_append [symmetric] split)
  moreover have "filter (\<lambda>x. fst x = p) ?d = []" using gt by (auto simp: filter_empty_conv)
  ultimately show "filter (\<lambda>x. fst x = q) (group_insert p h xs) =
      filter (\<lambda>x. fst x = q) xs @ (if q = p then [(p, h)] else [])"
    by (auto simp: group_insert_def)
qed

definition connect_all :: "connector \<Rightarrow> (int \<times> handler option) list \<Rightarrow> slots \<Rightarrow> slots" where
  "connect_all cn rs xs = foldl (\<lambda>ys r. cn (fst r) (snd r) ys) xs rs"

lemma connect_all_filter:
  assumes "connects_at_back cn" "sorted (map fst xs)"
  shows "sorted (map fst (connect_all cn rs xs)) \<and>
    (\<forall>q. filter (\<lambda>x. fst x = q) (connect_all cn rs xs) =
       filter (\<lambda>x. fst x = q) xs @ filter (\<lambda>x. fst x = q) rs)"
  using assms(2)
proof (induction rs arbitrary: xs)
  case Nil
  then show ?case by (simp add: connect_all_def)
next
  case (Cons r rs)
  have c: "sorted (map fst (cn (fst r) (snd r) xs))"
    "\<And>q. filter (\<lambda>x. fst x = q) (cn (fst r) (snd r) xs) =
       filter (\<lambda>x. fst x = q) xs @ (if q = fst r then [(fst r, snd r)] else [])"
    using assms(1) Cons.prems by (simp_all add: connects_at_back_def)
  show ?case
    using Cons.IH [OF c(1)] by (auto simp: connect_all_def c(2))
qed

lemma mset_eq_filters:
  fixes xs ys :: "('k \<times> 'b) list"
  assumes "\<And>q. filter (\<lambda>x. fst x = q) ys = filter (\<lambda>x. fst x = q) xs"
  shows "mset ys = mset xs"
proof (rule multiset_eqI)
  fix a :: "'k \<times> 'b"
  have "count (mset zs) a = count (mset (filter (\<lambda>x. fst x = fst a) zs)) a" for zs
    by (induction zs) auto
  then show "count (mset ys) a = count (mset xs) a" using assms by metis
qed

text \<open>The slots are the registrations, stably sorted by priority.\<close>

lemma connect_all_sort_key:
  "connects_at_back cn \<Longrightarrow> connect_all cn rs [] = sort_key fst rs"
proof -
  assume cn: "connects_at_back cn"
  have f: "filter (\<lambda>x. fst x = q) (connect_all cn rs []) = filter (\<lambda>x. fst x = q) rs" for q
    using connect_all_filter [OF cn, of "[]" rs] by simp
  have "sort_key fst rs = connect_all cn rs []"
  proof (rule properties_for_sort_key)
    show "mset (connect_all cn rs []) = mset rs" by (rule mset_eq_filters) (rule f)
    show "sorted (map fst (connect_all cn rs []))" using connect_all_filter [OF cn, of "[]" rs] by simp
    show "filter (\<lambda>x. fst k = fst x) (connect_all cn rs []) = filter (\<lambda>x. fst k = fst x) rs" for k
      using f [of "fst k"] by (simp add: eq_commute)
  qed
  then show ?thesis by simp
qed

lemma join_all_slots:
  "sg_slots (rt.join_all cn rs sg) = connect_all cn rs (sg_slots sg)"
  by (induction rs arbitrary: sg) (auto simp: connect_all_def connect_slot_def)

section \<open>One connection at a time\<close>

text \<open>
  The contract of a dispatch on the objects of one connection alone: handlers run
  in order until one of them has ended the response.
\<close>

fun run_handlers ::
  "lib \<Rightarrow> slots \<Rightarrow> string \<Rightarrow> request_impl \<times> response_impl \<Rightarrow>
   (string \<times> request_impl \<times> response_impl) res" where
  "run_handlers L [] valueLast s = Inr (valueLast, s)"
| "run_handlers L ((p, h) # rest) valueLast s =
     bind_res (call_slot L h s) (\<lambda>(v, s1).
       if rp_writableEnded (snd s1) then Inr (rp_body (snd s1), s1) else run_handlers L rest v s1)"

definition respond ::
  "lib \<Rightarrow> slots \<Rightarrow> request_impl \<times> response_impl \<Rightarrow> (request_impl \<times> response_impl) res" where
  "respond L sl s =
     bind_res (run_handlers L sl [] s) (\<lambda>(v, s1).
       (case ri_beast (fst s1) of
          None \<Rightarrow> Inl NullDereference
        | Some q \<Rightarrow>
            (case rp_beast (snd s1) of
               None \<Rightarrow> Inl NullDereference
             | Some r \<Rightarrow> Inr (fst s1, (snd s1)\<lparr>rp_beast := Some (fill_response L 200 q v r)\<rparr>))))"

lemma combine_slots_own:
  "combine_slots L (Some i) i sl v st =
     bind_res (run_handlers L sl v (st i)) (\<lambda>(w, s). Inr (w, st(i := s)))"
proof (induction sl arbitrary: v st)
  case Nil
  then show ?case by (simp add: fun_upd_def fun_eq_iff)
next
  case (Cons a sl)
  obtain p h where a: "a = (p, h)" by (cases a)
  show ?case
  proof (cases "call_slot L h (st i)")
    case (Inl e)
    with a show ?thesis by simp
  next
    case (Inr r)
    obtain w s where r: "r = (w, s)" by (cases r)
    show ?thesis
      using Cons [of w "st(i := s)"] a Inr r
      by (simp add: Let_def res_writableEnded_def res_body_def fun_upd_def cong: if_cong)
  qed
qed

text \<open>The signal \<open>doSignal\<close> selects, with its handlers.\<close>

definition selected :: "string \<Rightarrow> signal smap \<Rightarrow> signal smap \<Rightarrow> signal option" where
  "selected path routeMap allMap =
     (case find_signal path routeMap allMap of
        InMethod k \<Rightarrow> smap_find routeMap k
      | InAll k \<Rightarrow> smap_find allMap k
      | NotFound \<Rightarrow> None)"

definition marked :: "nat \<Rightarrow> found \<Rightarrow> signal smap \<times> signal smap \<Rightarrow> signal smap \<times> signal smap" where
  "marked i f ms =
     (case f of
        InMethod k \<Rightarrow> (smap_update k (set_combiner i) (fst ms), snd ms)
      | InAll k \<Rightarrow> (fst ms, smap_update k (set_combiner i) (snd ms))
      | NotFound \<Rightarrow> ms)"

lemma find_signal_selected:
  "find_signal path m a = InMethod k \<Longrightarrow> smap_find m k \<noteq> None"
  "find_signal path m a = InAll k \<Longrightarrow> smap_find a k \<noteq> None"
  by (auto simp: find_signal_def split: if_splits)

lemma call_signal_own:
  "run_signal L (Some (set_combiner i g)) i st =
     bind_res (respond L (sg_slots g) (st i)) (\<lambda>s. Inr (0, st(i := s)))"
  by (cases "run_handlers L (sg_slots g) [] (st i)")
     (auto simp: run_signal_def call_signal_def set_combiner_def combine_slots_own respond_def
       answer_def req_getRequest_def res_getResponse_def split: option.splits prod.splits)

lemma doSignal_respond:
  "doSignal L path i m a st =
     (case selected path m a of
        None \<Rightarrow> Inr (-1, m, a, st)
      | Some g \<Rightarrow> bind_res (respond L (sg_slots g) (st i)) (\<lambda>s.
          Inr (0, fst (marked i (find_signal path m a) (m, a)),
            snd (marked i (find_signal path m a) (m, a)), st(i := s))))"
proof (cases "find_signal path m a")
  case (InMethod k)
  then obtain g where g: "smap_find m k = Some g"
    using find_signal_selected(1) by blast
  then show ?thesis
    using InMethod
    by (cases "respond L (sg_slots g) (st i)")
       (simp_all add: doSignal_def selected_def marked_def Let_def smap_simps call_signal_own)
next
  case (InAll k)
  then obtain g where g: "smap_find a k = Some g"
    using find_signal_selected(2) by blast
  then show ?thesis
    using InAll
    by (cases "respond L (sg_slots g) (st i)")
       (simp_all add: doSignal_def selected_def marked_def Let_def smap_simps call_signal_own)
next
  case NotFound
  then show ?thesis by (simp add: doSignal_def selected_def)
qed

section \<open>What handlers cannot change\<close>

lemma parseRequest_beast: "parseRequest L r = Inr (c, r') \<Longrightarrow> ri_beast r' = ri_beast r"
  by (cases "ri_beast r")
     (auto simp: parseRequest_eq bind_res_Inr_iff, simp add: parseRequest_def)

lemma apply_op_beast:
  "apply_op L oper s = Inr s' \<Longrightarrow>
     rp_beast (snd s') = rp_beast (snd s) \<and> (ri_beast (fst s') = None \<longleftrightarrow> ri_beast (fst s) = None)"
  by (cases oper)
     (auto simp: apply_op_def res_end_def res_setCookie_def res_nothing_def req_setHeader_def
       bind_res_Inr_iff dest: parseRequest_beast split: option.splits if_splits)

lemma apply_ops_beast:
  "apply_ops L opers s = Inr s' \<Longrightarrow>
     rp_beast (snd s') = rp_beast (snd s) \<and> (ri_beast (fst s') = None \<longleftrightarrow> ri_beast (fst s) = None)"
  by (induction L opers s rule: apply_ops.induct) (auto simp: bind_res_Inr_iff dest: apply_op_beast)

lemma call_slot_beast:
  "call_slot L h s = Inr (v, s') \<Longrightarrow>
     rp_beast (snd s') = rp_beast (snd s) \<and> (ri_beast (fst s') = None \<longleftrightarrow> ri_beast (fst s) = None)"
  by (auto simp: call_slot_def bind_res_Inr_iff dest!: apply_ops_beast split: option.splits)

lemma run_handlers_beast:
  "run_handlers L sl v s = Inr (w, s') \<Longrightarrow>
     rp_beast (snd s') = rp_beast (snd s) \<and> (ri_beast (fst s') = None \<longleftrightarrow> ri_beast (fst s) = None)"
proof (induction sl arbitrary: v s)
  case Nil
  then show ?case by simp
next
  case (Cons a sl)
  then show ?case
    by (cases a) (auto simp: bind_res_Inr_iff split: if_splits dest!: call_slot_beast)
qed

text \<open>With both messages set, the response is filled whenever the handlers return.\<close>

lemma respond_handlers:
  assumes "ri_beast (fst s) \<noteq> None" "rp_beast (snd s) = Some r"
  shows "respond L sl s = bind_res (run_handlers L sl [] s) (\<lambda>(v, s1).
    Inr (fst s1, (snd s1)\<lparr>rp_beast := Some (fill_response L 200 (the (ri_beast (fst s1))) v r)\<rparr>))"
proof (cases "run_handlers L sl [] s")
  case (Inl e)
  then show ?thesis by (simp add: respond_def)
next
  case (Inr x)
  obtain v s1 where x: "x = (v, s1)" by (cases x)
  with run_handlers_beast [of L sl "[]" s v s1] Inr assms
  show ?thesis by (auto simp: respond_def)
qed


section \<open>Properties\<close>

text \<open>
  C11. A dispatch with \<open>doSignal\<close> implements its contract: without a matching signal it
  returns -1 and changes nothing; otherwise the handlers of the selected signal run in
  their order on the request and the response of this connection alone, the response is
  filled, and the only trace in the tables is the combiner of the selected signal.  An
  exception can only come from the handlers.
\<close>

theorem dispatch_contract:
  assumes "ri_beast (fst (st i)) \<noteq> None" "rp_beast (snd (st i)) = Some r"
  shows "doSignal L path i m a st =
    (case selected path m a of
       None \<Rightarrow> Inr (-1, m, a, st)
     | Some g \<Rightarrow> bind_res (run_handlers L (sg_slots g) [] (st i)) (\<lambda>(body, s).
         Inr (0, fst (marked i (find_signal path m a) (m, a)),
           snd (marked i (find_signal path m a) (m, a)),
           st(i := (fst s, (snd s)\<lparr>rp_beast :=
             Some (fill_response L 200 (the (ri_beast (fst s))) body r)\<rparr>)))))"
proof (cases "selected path m a")
  case None
  then show ?thesis by (simp add: doSignal_respond)
next
  case (Some g)
  then show ?thesis
    using respond_handlers [OF assms, of L "sg_slots g"]
    by (cases "run_handlers L (sg_slots g) [] (st i)") (auto simp: doSignal_respond)
qed

definition example_signal :: signal where
  "example_signal = \<lparr>sg_slots = [(10, Some (\<lambda>_ _. Inr (''hello'', [])))], sg_combiner = None\<rparr>"

definition example_store :: store where
  "example_store = (\<lambda>_.
     (\<lparr>ri_beast = Some example_request, ri_url = newUrlImpl, ri_method = [], ri_referer = [],
       ri_userAgent = [], ri_browser = []\<rparr>,
      newResponseImpl\<lparr>rp_beast := Some fresh_response\<rparr>))"

theorem dispatch_contract_witness:
  "\<exists>m a st. doSignal example_lib ''/hi'' 3 [(''/hi'', example_signal)] [] example_store = Inr (0, m, a, st) \<and>
     map_option rs_body (rp_beast (snd (st 3))) = Some ''hello''"
proof -
  have b: "ri_beast (fst (example_store 3)) \<noteq> None" "rp_beast (snd (example_store 3)) = Some fresh_response"
    by (simp_all add: example_store_def)
  have s: "selected ''/hi'' [(''/hi'', example_signal)] [] = Some example_signal"
    by (simp add: selected_def find_signal_def smap_find_def)
  show ?thesis
    unfolding dispatch_contract [where st = example_store and i = 3, OF b] s
    by (simp add: example_signal_def call_slot_def newResponseImpl_def example_store_def fill_response_def)
qed




definition register_all :: "connector \<Rightarrow> (string \<times> int \<times> handler option) list \<Rightarrow> router \<Rightarrow> router" where
  "register_all cn rs R = foldl (\<lambda>R (p, pr, h). snd (getAdd cn p pr h R)) R rs"

lemma register_all_map:
  "routeGetMap (register_all cn rs R) = rt.add_all cn rs (routeGetMap R)"
  by (induction rs arbitrary: R) (auto simp: register_all_def getAdd_def split: prod.splits)

lemma register_all_slots:
  assumes "connects_at_back cn"
  shows "map_option sg_slots (smap_find (routeGetMap (register_all cn rs newRouteImpl)) path) =
    (let mine = map snd (filter (\<lambda>r. fst r = path) rs)
     in if mine = [] then None else Some (sort_key fst mine))"
  using assms
  by (simp add: register_all_map newRouteImpl_def rt.lookup_add_all smap_simps rt.routes_of_def Let_def
      join_all_slots new_signal_def connect_all_sort_key)

text \<open>
  C15. After any sequence of registrations, a path calls the handlers registered for it
  in ascending priority and, within one priority, in the order of registration; a path
  nothing was registered for has no signal.
\<close>

theorem handlers_in_priority_order:
  assumes "connects_at_back cn"
  shows "map_option sg_slots (smap_find (routeGetMap (register_all cn rs newRouteImpl)) path) =
    (let mine = map snd (filter (\<lambda>r. fst r = path) rs)
     in if mine = [] then None else Some (sort_key fst mine))"
  using assms by (rule register_all_slots)

theorem handlers_in_priority_order_witness:
  "map_option (map fst) (map_option sg_slots (smap_find (routeGetMap (register_all group_insert
     [(''/a'', 10, None), (''/b'', 1, None), (''/a'', 5, None)] newRouteImpl)) ''/a'')) = Some [5, 10]"
  unfolding handlers_in_priority_order [OF group_insert_at_back] by simp

end
