(* ===== verification/Concurrent.thy ===== *)
theory Concurrent
  imports Route
begin

text \<open>
  Several connections dispatching on one signal, whatever else they do: the small model of
  the dispatch that \<open>Threads\<close> embeds in the server.  The signal is shared through
  \<open>RouteImpl\<close>, the server runs its connections on a pool of threads, and
  \<open>RouteImpl::doSignal\<close> replaces the combiner of the shared signal before it
  calls it.  One call of the signal takes the combiner and the slots as they are
  when it starts; every other connection may take steps between the statements
  of \<open>doSignal\<close> and between two handlers.
\<close>

section \<open>Steps\<close>

text \<open>
  Where a connection is in \<open>doSignal\<close>: before \<open>set_combiner\<close>, after it, inside the
  call of the signal with the combiner it took and the slots that remain, after
  the call with the body, or left by an exception.
\<close>

datatype phase =
    Waiting
  | Prepared
  | Calling "nat option" slots string
  | Answered "nat option" string
  | Threw exn

record system =
  sys_combiner :: "nat option"
  sys_store :: store
  sys_phase :: "nat \<Rightarrow> phase"

definition system_init :: "store \<Rightarrow> system" where
  "system_init st = \<lparr>sys_combiner = None, sys_store = st, sys_phase = (\<lambda>_. Waiting)\<rparr>"

definition set_phase :: "nat \<Rightarrow> phase \<Rightarrow> system \<Rightarrow> system" where
  "set_phase i ph S = S\<lparr>sys_phase := (sys_phase S)(i := ph)\<rparr>"

text \<open>One turn of the loop of the combiner of connection \<open>i\<close>.\<close>

definition combiner_turn ::
  "lib \<Rightarrow> nat \<Rightarrow> nat option \<Rightarrow> handler option \<Rightarrow> slots \<Rightarrow> system \<Rightarrow> system" where
  "combiner_turn L i c h rest S =
     (case call_slot L h (sys_store S i) of
        Inl e \<Rightarrow> set_phase i (Threw e) S
      | Inr (v, s) \<Rightarrow>
          let S1 = S\<lparr>sys_store := (sys_store S)(i := s)\<rparr> in
          (case c of
             None \<Rightarrow> set_phase i (Threw NullDereference) S1
           | Some k \<Rightarrow>
               if res_writableEnded (snd (sys_store S1 k))
               then set_phase i (Answered c (res_body (snd (sys_store S1 k)))) S1
               else set_phase i (Calling c rest v) S1))"

definition dispatch_step :: "lib \<Rightarrow> slots \<Rightarrow> nat \<Rightarrow> system \<Rightarrow> system" where
  "dispatch_step L sl i S =
     (case sys_phase S i of
        Waiting \<Rightarrow> set_phase i Prepared (S\<lparr>sys_combiner := Some i\<rparr>)
      | Prepared \<Rightarrow> set_phase i (Calling (sys_combiner S) sl []) S
      | Calling c [] v \<Rightarrow> set_phase i (Answered c v) S
      | Calling c ((p, h) # rest) v \<Rightarrow> combiner_turn L i c h rest S
      | Answered c b \<Rightarrow> S
      | Threw e \<Rightarrow> S)"

fun run_schedule :: "lib \<Rightarrow> slots \<Rightarrow> nat list \<Rightarrow> system \<Rightarrow> system" where
  "run_schedule L sl [] S = S"
| "run_schedule L sl (i # is) S = run_schedule L sl is (dispatch_step L sl i S)"

inductive reachable :: "lib \<Rightarrow> slots \<Rightarrow> store \<Rightarrow> system \<Rightarrow> bool" for L sl st where
  start: "reachable L sl st (system_init st)"
| step: "reachable L sl st S \<Longrightarrow> reachable L sl st (dispatch_step L sl i S)"

section \<open>Isolation of a connection that takes its own combiner\<close>

definition own_progress :: "lib \<Rightarrow> slots \<Rightarrow> store \<Rightarrow> system \<Rightarrow> nat \<Rightarrow> bool" where
  "own_progress L sl st S i =
     (case sys_phase S i of
        Waiting \<Rightarrow> sys_store S i = st i
      | Prepared \<Rightarrow> sys_store S i = st i
      | Calling c rest v \<Rightarrow> c = Some i \<longrightarrow>
          run_handlers L sl [] (st i) = run_handlers L rest v (sys_store S i)
      | Answered c b \<Rightarrow> c = Some i \<longrightarrow> run_handlers L sl [] (st i) = Inr (b, sys_store S i)
      | Threw e \<Rightarrow> True)"

lemma combiner_turn_other:
  "j \<noteq> i \<Longrightarrow> sys_phase (combiner_turn L i c h rest S) j = sys_phase S j"
  "j \<noteq> i \<Longrightarrow> sys_store (combiner_turn L i c h rest S) j = sys_store S j"
  by (auto simp: combiner_turn_def set_phase_def Let_def split: sum.splits option.splits prod.splits)

lemma dispatch_step_other:
  "j \<noteq> i \<Longrightarrow> sys_phase (dispatch_step L sl i S) j = sys_phase S j"
  "j \<noteq> i \<Longrightarrow> sys_store (dispatch_step L sl i S) j = sys_store S j"
  by (auto simp: dispatch_step_def combiner_turn_other set_phase_def
      split: phase.splits list.splits prod.splits)

lemma combiner_turn_own:
  assumes "sys_phase S i = Calling c ((p, h) # rest) v" "own_progress L sl st S i"
  shows "own_progress L sl st (combiner_turn L i c h rest S) i"
  using assms
  by (auto simp: own_progress_def combiner_turn_def set_phase_def Let_def res_writableEnded_def
      res_body_def split: sum.splits option.splits prod.splits)

lemma dispatch_step_own:
  "own_progress L sl st S i \<Longrightarrow> own_progress L sl st (dispatch_step L sl i S) i"
  by (auto simp: dispatch_step_def combiner_turn_own split: phase.splits list.splits prod.splits)
     (auto simp: own_progress_def set_phase_def)

lemma reachable_progress: "reachable L sl st S \<Longrightarrow> own_progress L sl st S i"
proof (induction rule: reachable.induct)
  case start
  then show ?case by (simp add: own_progress_def system_init_def)
next
  case (step S j)
  show ?case
  proof (cases "i = j")
    case True
    with step.IH show ?thesis by (simp add: dispatch_step_own)
  next
    case False
    with step.IH show ?thesis
      by (simp add: own_progress_def dispatch_step_other cong: phase.case_cong)
  qed
qed

lemma reachable_schedule: "reachable L sl st S \<Longrightarrow> reachable L sl st (run_schedule L sl is S)"
  by (induction L sl "is" S rule: run_schedule.induct) (auto intro: reachable.step)

section \<open>Properties\<close>

text \<open>
  However the steps of any number of connections interleave, a connection whose call
  of the signal took the combiner it had set itself gets the body that its handlers give
  when they run alone on its request and response.
\<close>

theorem own_combiner_isolates:
  assumes "reachable L sl st S" "sys_phase S i = Answered (Some i) body"
  shows "run_handlers L sl [] (st i) = Inr (body, sys_store S i)"
  using reachable_progress [OF assms(1), of i] assms(2) by (simp add: own_progress_def)

definition echo_slots :: slots where
  "echo_slots = [(10, Some (\<lambda>req res. Inr ([], [OpEnd (req_getUserAgentBrowser req)])))]"

definition echo_store :: store where
  "echo_store = (\<lambda>i.
     (\<lparr>ri_beast = None, ri_url = newUrlImpl, ri_method = [], ri_referer = [], ri_userAgent = [],
       ri_browser = (if i = 1 then ''alice'' else ''bob'')\<rparr>, newResponseImpl))"

lemma reachable_from_start: "reachable L sl st (run_schedule L sl is (system_init st))"
  by (intro reachable_schedule reachable.start)

lemmas schedule_simps = dispatch_step_def combiner_turn_def set_phase_def call_slot_def apply_op_def
  res_end_def res_writableEnded_def res_body_def system_init_def

theorem own_combiner_isolates_witness:
  "\<exists>s. run_handlers example_lib echo_slots [] (echo_store 1) = Inr (''alice'', s)"
proof -
  let ?S = "run_schedule example_lib echo_slots [1, 1, 2, 1] (system_init echo_store)"
  have "sys_phase ?S 1 = Answered (Some 1) ''alice''"
    by (simp add: schedule_simps echo_slots_def echo_store_def newResponseImpl_def req_getUserAgentBrowser_def)
  from own_combiner_isolates [OF reachable_from_start this] show ?thesis by blast
qed

text \<open>
  Connections can mix up their responses.  With one handler that ends each response
  with a text of its own request, there is an interleaving of two connections in which
  both calls complete, the first connection's handler ended its response with its text,
  and yet the body the dispatch of the first connection returns is the second one's.
\<close>

theorem combiner_race_leaks_body:
  "\<exists>sched. (let S = run_schedule L echo_slots sched (system_init echo_store) in
     sys_phase S 1 = Answered (Some 2) ''bob'' \<and> sys_phase S 2 = Answered (Some 2) ''bob'' \<and>
     rp_body (snd (sys_store S 1)) = ''alice'')"
  by (rule exI [of _ "[1, 2, 2, 2, 1, 1]"])
     (simp add: schedule_simps echo_slots_def echo_store_def newResponseImpl_def Let_def
       req_getUserAgentBrowser_def)

end
