(* ===== verification/Connection.thy ===== *)
theory Connection
  imports Route
begin

text \<open>
  Class \<open>Connection\<close> of \<open>src/core/ServerConnection.cpp\<close>: the coroutine of one
  TLS connection as a state machine.  The results of the asynchronous
  operations are the events; between two events the coroutine runs the code up
  to its next asynchronous call.  An exception that leaves the coroutine is the
  phase \<open>Crashed\<close>.
\<close>

section \<open>Responses the connection makes itself\<close>

definition badRequest :: "lib \<Rightarrow> http_request \<Rightarrow> http_response \<Rightarrow> string \<Rightarrow> rc \<times> http_response" where
  "badRequest L req res what = (0, fill_response L 400 req what res)"

definition notFound :: "lib \<Rightarrow> http_request \<Rightarrow> http_response \<Rightarrow> string \<Rightarrow> rc \<times> http_response" where
  "notFound L req res what =
     (0, fill_response L 404 req
       (''The resource '' @ [CHR 0x27] @ what @ [CHR 0x27] @ '' was not found.'') res)"

definition serverError :: "lib \<Rightarrow> http_request \<Rightarrow> http_response \<Rightarrow> string \<Rightarrow> rc \<times> http_response" where
  "serverError L req res what =
     (0, fill_response L 500 req
       (''An error occurred: '' @ [CHR 0x27] @ what @ [CHR 0x27]) res)"

section \<open>The coroutine\<close>

datatype io_event =
    Handshaken bool
  | ReadRequest http_request
  | ReadEof
  | ReadError
  | Written bool
  | ShutDown bool

datatype conn_phase =
    Handshaking
  | Reading
  | Writing http_response
  | ShuttingDown
  | Returned rc
  | Crashed exn

text \<open>The routes, the objects of the requests so far, and the next free number.\<close>

record world =
  w_router :: router
  w_store :: store
  w_next :: nat

record connection =
  cn_phase :: conn_phase
  cn_world :: world
  cn_written :: "http_response list"

definition newConnection :: "world \<Rightarrow> connection" where
  "newConnection W = \<lparr>cn_phase = Handshaking, cn_world = W, cn_written = []\<rparr>"

definition accepted_method :: "http_request \<Rightarrow> bool" where
  "accepted_method req \<longleftrightarrow> \<not> (rq_method req \<noteq> VGet \<and> rq_method req \<noteq> VHead)"

definition illegal_target :: "string \<Rightarrow> bool" where
  "illegal_target t \<longleftrightarrow> t = [] \<or> t ! 0 \<noteq> CHR ''/'' \<or> contains t ''..''"

text \<open>From the accepted request to the response that is written.\<close>

definition process_request :: "lib \<Rightarrow> http_request \<Rightarrow> world \<Rightarrow> (http_response \<times> world) res" where
  "process_request L reqBeast W =
     bind_res (newRequestImpl L) (\<lambda>reqImpl0.
     bind_res (parseRequest L (snd (req_setRequest (Some reqBeast) reqImpl0))) (\<lambda>(_, reqImpl).
       let i = w_next W;
           resImpl = snd (res_setResponse (Some fresh_response) newResponseImpl);
           st = (w_store W)(i := (reqImpl, resImpl))
       in bind_res (doGetSignal L (req_path reqImpl) i (w_router W) st) (\<lambda>(rc, R, st1).
            (case res_getResponse (snd (st1 i)) of
               None \<Rightarrow> Inl NullDereference
             | Some resBeast \<Rightarrow>
                 (case req_getRequest (fst (st1 i)) of
                    None \<Rightarrow> Inl NullDereference
                  | Some req1 \<Rightarrow>
                      let resBeast1 = (if rc < 0
                            then snd (notFound L req1 resBeast (req_path (fst (st1 i))))
                            else resBeast);
                          st2 = st1(i := (fst (st1 i),
                            snd (res_parseResponse ((snd (st1 i))\<lparr>rp_beast := Some resBeast1\<rparr>))))
                      in Inr (resBeast1, \<lparr>w_router = R, w_store = st2, w_next = Suc i\<rparr>))))))"

definition on_read :: "lib \<Rightarrow> http_request \<Rightarrow> connection \<Rightarrow> connection" where
  "on_read L req C =
     (if \<not> accepted_method req
      then C\<lparr>cn_phase := Returned (fst (badRequest L req fresh_response ''Unknown HTTP-method''))\<rparr>
      else if illegal_target (rq_target req)
      then C\<lparr>cn_phase := Returned (fst (badRequest L req fresh_response ''Illegal request-target''))\<rparr>
      else
        (case process_request L req (cn_world C) of
           Inl e \<Rightarrow> C\<lparr>cn_phase := Crashed e\<rparr>
         | Inr (res, W) \<Rightarrow> C\<lparr>cn_phase := Writing res, cn_world := W\<rparr>))"

definition conn_step :: "lib \<Rightarrow> connection \<Rightarrow> io_event \<Rightarrow> connection" where
  "conn_step L C ev =
     (case (cn_phase C, ev) of
        (Handshaking, Handshaken ok) \<Rightarrow> C\<lparr>cn_phase := (if ok then Reading else Returned (-1))\<rparr>
      | (Reading, ReadRequest req) \<Rightarrow> on_read L req C
      | (Reading, ReadEof) \<Rightarrow> C\<lparr>cn_phase := ShuttingDown\<rparr>
      | (Reading, ReadError) \<Rightarrow> C\<lparr>cn_phase := Returned (-1)\<rparr>
      | (Writing res, Written ok) \<Rightarrow>
          if ok then C\<lparr>cn_phase := Reading, cn_written := cn_written C @ [res]\<rparr>
          else C\<lparr>cn_phase := Returned (-1)\<rparr>
      | (ShuttingDown, ShutDown ok) \<Rightarrow> C\<lparr>cn_phase := Returned (if ok then 0 else -1)\<rparr>
      | _ \<Rightarrow> C)"

definition conn_run :: "lib \<Rightarrow> connection \<Rightarrow> io_event list \<Rightarrow> connection" where
  "conn_run L C evs = foldl (conn_step L) C evs"

section \<open>The interface of a request server\<close>

text \<open>
  What the coroutine relies on when it serves a request: the state keeps its
  invariant and the response is fit to be written.  A server is stateless when
  the answer to a request is a function of the request and of a part of the
  state that serving does not change.
\<close>

locale request_server =
  fixes serve :: "'q \<Rightarrow> 'w \<Rightarrow> ('r \<times> 'w) res"
    and winv :: "'w \<Rightarrow> bool"
    and good :: "'r \<Rightarrow> bool"
  assumes serve_inv: "winv w \<Longrightarrow> serve q w = Inr (r, w') \<Longrightarrow> winv w'"
    and serve_good: "winv w \<Longrightarrow> serve q w = Inr (r, w') \<Longrightarrow> good r"
begin

fun serve_all :: "'q list \<Rightarrow> 'w \<Rightarrow> ('r list \<times> 'w) res" where
  "serve_all [] w = Inr ([], w)"
| "serve_all (q # qs) w =
     bind_res (serve q w) (\<lambda>(r, w1). bind_res (serve_all qs w1) (\<lambda>(rs, w2). Inr (r # rs, w2)))"

lemma serve_all_good:
  "winv w \<Longrightarrow> serve_all qs w = Inr (rs, w') \<Longrightarrow> winv w' \<and> length rs = length qs \<and> (\<forall>r \<in> set rs. good r)"
proof (induction qs arbitrary: w rs)
  case Nil
  then show ?case by simp
next
  case (Cons q qs)
  then show ?case
    by (fastforce simp: bind_res_Inr_iff dest: serve_inv serve_good)
qed

end

locale stateless_server = request_server serve winv good
  for serve :: "'q \<Rightarrow> 'w \<Rightarrow> ('r \<times> 'w) res" and winv good +
  fixes answer_for :: "'w \<Rightarrow> 'q \<Rightarrow> 'r res"
  assumes serve_answer: "answer_for w q = Inr r \<Longrightarrow> \<exists>w'. serve q w = Inr (r, w')"
    and serve_error: "answer_for w q = Inl e \<Longrightarrow> serve q w = Inl e"
    and serve_same: "serve q w = Inr (r, w') \<Longrightarrow> answer_for w' = answer_for w"
begin

lemma serve_all_answers:
  "\<forall>q \<in> set qs. answer_for w q = Inr (f q) \<Longrightarrow> \<exists>w'. serve_all qs w = Inr (map f qs, w')"
proof (induction qs arbitrary: w)
  case Nil
  then show ?case by simp
next
  case (Cons q qs)
  then obtain w1 where w1: "serve q w = Inr (f q, w1)"
    using serve_answer [of w q "f q"] by auto
  with Cons.prems have "\<forall>q \<in> set qs. answer_for w1 q = Inr (f q)"
    by (simp add: serve_same [OF w1])
  with Cons.IH w1 show ?case by fastforce
qed

end

section \<open>The server of the model\<close>

definition signals_wf :: "signal smap \<Rightarrow> bool" where
  "signals_wf m \<longleftrightarrow> smap_wf m \<and> (\<forall>k g. smap_find m k = Some g \<longrightarrow> sg_slots g \<noteq> [])"

definition router_wf :: "router \<Rightarrow> bool" where
  "router_wf R \<longleftrightarrow> signals_wf (routePostMap R) \<and> signals_wf (routeGetMap R) \<and> signals_wf (routeAllMap R)"

text \<open>A response that is ready to be written: status, length, body and header agree.\<close>

definition complete_response :: "http_response \<Rightarrow> bool" where
  "complete_response r \<longleftrightarrow> rs_result r \<in> {Some 200, Some 404} \<and>
     rs_version r \<noteq> None \<and> rs_keep_alive r \<noteq> None \<and> rs_prepared r \<and>
     rs_content_length r = Some (length (rs_body r)) \<and>
     (\<exists>v. rs_set r = [(FServer, v), (FContentType, ''text/html'')])"

text \<open>The handlers a path leads to, and the answer they give to a request.\<close>

definition slots_at :: "router \<Rightarrow> string \<Rightarrow> slots option" where
  "slots_at R path = map_option sg_slots (selected path (routeGetMap R) (routeAllMap R))"

definition parsed :: "lib \<Rightarrow> http_request \<Rightarrow> request_impl res" where
  "parsed L q = bind_res (newRequestImpl L) (\<lambda>r0.
     bind_res (parseRequest L (r0\<lparr>ri_beast := Some q\<rparr>)) (\<lambda>(_, r). Inr r))"

definition answered :: "lib \<Rightarrow> slots option \<Rightarrow> http_request \<Rightarrow> request_impl \<Rightarrow> (http_response \<times> request_impl \<times> response_impl) res" where
  "answered L sl q r =
     (let res0 = newResponseImpl\<lparr>rp_beast := Some fresh_response\<rparr> in
      case sl of
        None \<Rightarrow> (let x = snd (notFound L q fresh_response (req_path r))
                 in Inr (x, r, res0\<lparr>rp_beast := Some x\<rparr>))
      | Some hs \<Rightarrow> bind_res (run_handlers L hs [] (r, res0)) (\<lambda>(v, s).
          (let x = fill_response L 200 (the (ri_beast (fst s))) v fresh_response
           in Inr (x, fst s, (snd s)\<lparr>rp_beast := Some x\<rparr>))))"

definition response_for :: "lib \<Rightarrow> router \<Rightarrow> http_request \<Rightarrow> http_response res" where
  "response_for L R q =
     bind_res (parsed L q) (\<lambda>r. bind_res (answered L (slots_at R (req_path r)) q r) (\<lambda>x. Inr (fst x)))"

lemma parsed_beast: "parsed L q = Inr r \<Longrightarrow> ri_beast r = Some q"
  by (auto simp: parsed_def bind_res_Inr_iff dest: parseRequest_beast)

text \<open>Serving a request, written with the contract of a dispatch.\<close>

definition dispatched :: "nat \<Rightarrow> string \<Rightarrow> router \<Rightarrow> router" where
  "dispatched i path R =
     (case marked i (find_signal path (routeGetMap R) (routeAllMap R)) (routeGetMap R, routeAllMap R) of
        (m, a) \<Rightarrow> R\<lparr>routeGetMap := m, routeAllMap := a\<rparr>)"

lemma marked_none: "selected path m a = None \<Longrightarrow> marked i (find_signal path m a) (m, a) = (m, a)"
  by (auto simp: selected_def marked_def dest: find_signal_selected split: found.splits)

lemma process_request_eq:
  "process_request L q W =
     bind_res (parsed L q) (\<lambda>r.
     bind_res (answered L (slots_at (w_router W) (req_path r)) q r) (\<lambda>(x, s).
       Inr (x, \<lparr>w_router = dispatched (w_next W) (req_path r) (w_router W),
         w_store = (w_store W)(w_next W := s), w_next = Suc (w_next W)\<rparr>)))"
proof (cases "parsed L q")
  case (Inl e)
  then show ?thesis
    by (auto simp: process_request_def parsed_def req_setRequest_def bind_res_Inl_iff
        split: sum.splits prod.splits)
next
  case (Inr r)
  then obtain r0 c where r0: "newRequestImpl L = Inr r0"
      "parseRequest L (r0\<lparr>ri_beast := Some q\<rparr>) = Inr (c, r)"
    by (auto simp: parsed_def bind_res_Inr_iff)
  note b = parsed_beast [OF Inr]
  let ?R = "w_router W" and ?i = "w_next W"
  let ?res0 = "newResponseImpl\<lparr>rp_beast := Some fresh_response\<rparr>"
  show ?thesis
  proof (cases "selected (req_path r) (routeGetMap ?R) (routeAllMap ?R)")
    case None
    then show ?thesis
      using Inr r0 b
      by (simp add: process_request_def req_setRequest_def res_setResponse_def Let_def doGetSignal_def
          doSignal_respond slots_at_def answered_def res_getResponse_def req_getRequest_def
          res_parseResponse_def dispatched_def marked_none)
  next
    case (Some g)
    note s = this
    have resp: "respond L (sg_slots g) (r, ?res0) =
        bind_res (run_handlers L (sg_slots g) [] (r, ?res0)) (\<lambda>(v, s1).
          Inr (fst s1, (snd s1)\<lparr>rp_beast := Some (fill_response L 200 (the (ri_beast (fst s1))) v fresh_response)\<rparr>))"
      using b by (intro respond_handlers) simp_all
    show ?thesis
    proof (cases "run_handlers L (sg_slots g) [] (r, ?res0)")
      case (Inl e)
      then show ?thesis
        using Inr r0 b s resp
        by (simp add: process_request_def req_setRequest_def res_setResponse_def Let_def doGetSignal_def
            doSignal_respond slots_at_def answered_def)
    next
      case run: (Inr x)
      obtain v s1 where x: "x = (v, s1)" by (cases x)
      have "ri_beast (fst s1) \<noteq> None"
        using run_handlers_beast run x b by fastforce
      then show ?thesis
        using Inr r0 b s resp run x
        by (auto simp: process_request_def req_setRequest_def res_setResponse_def Let_def doGetSignal_def
            doSignal_respond slots_at_def answered_def res_getResponse_def req_getRequest_def
            res_parseResponse_def dispatched_def split: prod.splits)
    qed
  qed
qed

section \<open>Serving keeps the routes and completes the response\<close>

lemma smap_find_set_combiner:
  "map_option sg_slots (smap_find (smap_update k (set_combiner i) m) p) = map_option sg_slots (smap_find m p)"
  by (cases "smap_find m p") (auto simp: smap_simps set_combiner_def)

lemma smap_find_set_combiner_None:
  "smap_find (smap_update k (set_combiner i) m) p = None \<longleftrightarrow> smap_find m p = None"
  by (auto simp: smap_simps)

definition slots_equal :: "signal smap \<Rightarrow> signal smap \<Rightarrow> bool" where
  "slots_equal m m' \<longleftrightarrow> (\<forall>p. map_option sg_slots (smap_find m' p) = map_option sg_slots (smap_find m p))"

lemma marked_slots_equal:
  "slots_equal m (fst (marked i f (m, a)))" "slots_equal a (snd (marked i f (m, a)))"
  by (cases f; simp add: slots_equal_def marked_def smap_find_set_combiner)+

lemma slots_equal_None: "slots_equal m m' \<Longrightarrow> smap_find m' p = None \<longleftrightarrow> smap_find m p = None"
  unfolding slots_equal_def by (metis map_option_is_None)

lemma selected_slots_equal:
  assumes "slots_equal m m'" "slots_equal a a'"
  shows "map_option sg_slots (selected p m' a') = map_option sg_slots (selected p m a)"
proof -
  have "find_signal p m' a' = find_signal p m a"
    by (simp add: find_signal_def slots_equal_None [OF assms(1)] slots_equal_None [OF assms(2)])
  then show ?thesis
    using assms by (cases "find_signal p m a") (simp_all add: selected_def slots_equal_def)
qed

lemma dispatched_maps:
  "routeGetMap (dispatched i p R) =
     fst (marked i (find_signal p (routeGetMap R) (routeAllMap R)) (routeGetMap R, routeAllMap R))"
  "routeAllMap (dispatched i p R) =
     snd (marked i (find_signal p (routeGetMap R) (routeAllMap R)) (routeGetMap R, routeAllMap R))"
  "routePostMap (dispatched i p R) = routePostMap R"
  by (simp_all add: dispatched_def split: prod.splits)

lemma slots_at_dispatched: "slots_at (dispatched i p R) q = slots_at R q"
  by (simp add: slots_at_def dispatched_maps marked_slots_equal selected_slots_equal)

lemma response_for_dispatched: "response_for L (dispatched i p R) = response_for L R"
  by (simp add: response_for_def slots_at_dispatched fun_eq_iff)

lemma signals_wf_marked:
  assumes "signals_wf m" "signals_wf a"
  shows "signals_wf (fst (marked i f (m, a)))" "signals_wf (snd (marked i f (m, a)))"
  using assms by (cases f; auto simp: signals_wf_def marked_def smap_simps set_combiner_def split: if_splits)+

lemma router_wf_dispatched: "router_wf R \<Longrightarrow> router_wf (dispatched i p R)"
  by (simp add: router_wf_def dispatched_maps signals_wf_marked)

lemma complete_fill:
  "st \<in> {200, 404} \<Longrightarrow> complete_response (fill_response L st q body fresh_response)"
  by (auto simp: complete_response_def fill_response_def fresh_response_def)

lemma answered_complete: "answered L sl q r = Inr (x, s) \<Longrightarrow> complete_response x"
  by (auto simp: answered_def Let_def notFound_def complete_fill bind_res_Inr_iff split: option.splits)

lemma process_request_response:
  "response_for L (w_router W) q = Inr x \<Longrightarrow> \<exists>W'. process_request L q W = Inr (x, W')"
  "response_for L (w_router W) q = Inl e \<Longrightarrow> process_request L q W = Inl e"
  "process_request L q W = Inr (x, W') \<Longrightarrow> response_for L (w_router W) q = Inr x \<and>
     (\<exists>i p. w_router W' = dispatched i p (w_router W)) \<and> complete_response x"
  by (auto simp: process_request_eq response_for_def bind_res_Inr_iff bind_res_Inl_iff
      dest: answered_complete) blast

interpretation cs: stateless_server "process_request L" "\<lambda>W. router_wf (w_router W)"
  complete_response "\<lambda>W. response_for L (w_router W)" for L
proof
  show "router_wf (w_router W) \<Longrightarrow> process_request L q W = Inr (r, W') \<Longrightarrow> router_wf (w_router W')"
    for W q r W'
    using process_request_response(3) router_wf_dispatched by metis
  show "router_wf (w_router W) \<Longrightarrow> process_request L q W = Inr (r, W') \<Longrightarrow> complete_response r"
    for W q r W'
    using process_request_response(3) by blast
  show "response_for L (w_router W) q = Inr r \<Longrightarrow> \<exists>W'. process_request L q W = Inr (r, W')"
    for W q r
    by (rule process_request_response(1))
  show "response_for L (w_router W) q = Inl e \<Longrightarrow> process_request L q W = Inl e" for W q e
    by (rule process_request_response(2))
  show "process_request L q W = Inr (r, W') \<Longrightarrow> response_for L (w_router W') = response_for L (w_router W)"
    for W q r W'
    using process_request_response(3) response_for_dispatched by metis
qed

section \<open>Runs of the coroutine\<close>

lemma conn_run_Nil [simp]: "conn_run L C [] = C"
  by (simp add: conn_run_def)

lemma conn_run_Cons [simp]: "conn_run L C (e # es) = conn_run L (conn_step L C e) es"
  by (simp add: conn_run_def)

lemma conn_run_append: "conn_run L C (es @ fs) = conn_run L (conn_run L C es) fs"
  by (simp add: conn_run_def)

definition accepted :: "http_request \<Rightarrow> bool" where
  "accepted q \<longleftrightarrow> accepted_method q \<and> \<not> illegal_target (rq_target q)"

definition request_round :: "http_request \<Rightarrow> io_event list" where
  "request_round q = [ReadRequest q, Written True]"

lemma conn_round:
  assumes "cn_phase C = Reading" "accepted q" "process_request L q (cn_world C) = Inr (r, W)"
  shows "conn_run L C (request_round q) = C\<lparr>cn_world := W, cn_written := cn_written C @ [r]\<rparr>"
  using assms by (simp add: request_round_def conn_step_def on_read_def accepted_def connection.equality)

lemma conn_rounds:
  "cn_phase C = Reading \<Longrightarrow> \<forall>q \<in> set qs. accepted q \<Longrightarrow> cs.serve_all L qs (cn_world C) = Inr (rs, W) \<Longrightarrow>
     conn_run L C (concat (map request_round qs)) = C\<lparr>cn_world := W, cn_written := cn_written C @ rs\<rparr>"
proof (induction qs arbitrary: C rs)
  case Nil
  then show ?case by simp
next
  case (Cons q qs)
  then obtain r W1 rs1 where r: "process_request L q (cn_world C) = Inr (r, W1)"
      "cs.serve_all L qs W1 = Inr (rs1, W)" "rs = r # rs1"
    by (auto simp: bind_res_Inr_iff)
  show ?case
    using Cons.prems r Cons.IH [of "C\<lparr>cn_world := W1, cn_written := cn_written C @ [r]\<rparr>" rs1]
    by (simp add: conn_run_append conn_round)
qed

text \<open>Everything written is complete, whatever the peer does.\<close>

definition conn_inv :: "connection \<Rightarrow> bool" where
  "conn_inv C \<longleftrightarrow> router_wf (w_router (cn_world C)) \<and> (\<forall>r \<in> set (cn_written C). complete_response r) \<and>
     (\<forall>r. cn_phase C = Writing r \<longrightarrow> complete_response r)"

lemma on_read_inv: "conn_inv C \<Longrightarrow> conn_inv (on_read L q C)"
  by (auto simp: conn_inv_def on_read_def split: sum.splits dest: cs.serve_inv cs.serve_good)

lemma conn_step_inv: "conn_inv C \<Longrightarrow> conn_inv (conn_step L C ev)"
  by (cases "cn_phase C"; cases ev) (auto simp: conn_step_def on_read_inv, auto simp: conn_inv_def)

lemma conn_run_inv: "conn_inv C \<Longrightarrow> conn_inv (conn_run L C evs)"
  by (induction evs arbitrary: C) (simp_all add: conn_step_inv)

lemma newConnection_inv: "router_wf (w_router W) \<Longrightarrow> conn_inv (newConnection W)"
  by (simp add: conn_inv_def newConnection_def)

text \<open>A finished coroutine ignores what follows.\<close>

definition finished :: "connection \<Rightarrow> bool" where
  "finished C \<longleftrightarrow> (case cn_phase C of Returned _ \<Rightarrow> True | Crashed _ \<Rightarrow> True | _ \<Rightarrow> False)"

lemma finished_run: "finished C \<Longrightarrow> conn_run L C evs = C"
  by (induction evs) (auto simp: finished_def conn_step_def split: conn_phase.splits)

lemma cn_written_grows: "\<exists>ws. cn_written (conn_step L C ev) = cn_written C @ ws \<and> length ws \<le> 1"
  by (cases "cn_phase C"; cases ev) (auto simp: conn_step_def on_read_def split: sum.splits)

section \<open>What a request is parsed into\<close>

lemma fresh_request_parts:
  "newRequestImpl L = Inr r0 \<Longrightarrow>
     ri_url r0 = newUrlImpl \<and> ri_referer r0 = [] \<and> ri_userAgent r0 = []"
  by (auto simp: newRequestImpl_def bind_res_Inr_iff)

text \<open>How the text of a Host header is stored.\<close>

definition stored_host :: "string option \<Rightarrow> string" where
  "stored_host h =
     (case h of
        None \<Rightarrow> []
      | Some s \<Rightarrow> if s = [] \<or> parse_plain_hostname s \<noteq> HostName then s else pct_encode reg_name_pct_set s)"

lemma with_host_parts:
  assumes "url_inv (base u)" "\<not> has_authority (base u)" "j = id_path \<or> j = id_host"
  shows "part (base (with_host h u)) j = (if j = id_host \<and> h \<noteq> None then stored_host h else part (base u) j)"
proof (cases h)
  case None
  then show ?thesis by (simp add: with_host_def)
next
  case (Some s)
  show ?thesis
  proof (cases "s = []")
    case True
    have "parts_length (uparts (base u)) id_user id_host \<noteq> 2"
      using no_authority_offsets [OF assms(1,2)] by (simp add: parts_length_def)
    then have "set_host s (base u) = put_part id_host [] (base u)"
      using True by (simp add: set_host_def)
    with Some True assms show ?thesis
      by (auto simp: with_host_def stored_host_def ub.get_put)
  next
    case False
    with Some assms show ?thesis
      by (auto simp: with_host_def stored_host_def part_set_host)
  qed
qed

lemma with_host_query: "query (with_host h u) = query u"
  by (simp add: with_host_def split: option.splits)

lemma with_query_base: "base (with_query L q u) = base u"
  by (simp add: with_query_def url_setEncodedQuery_eq split: option.splits)

lemma put_path_authority:
  assumes "url_inv u" "\<not> has_authority u"
  shows "\<not> has_authority (put_part id_path w u)"
  using assms by (simp add: has_authority_iff put_part_inv no_authority_def ub.get_put)

lemma accepted_target: "accepted q \<Longrightarrow> \<exists>t. rq_target q = CHR ''/'' # t"
  by (cases "rq_target q") (auto simp: accepted_def illegal_target_def)

lemma accepted_path: "accepted q \<Longrightarrow> target_path (rq_target q) \<noteq> [] \<and> hd (target_path (rq_target q)) = CHR ''/''"
  using accepted_target [of q] by (auto simp: target_path_def)

lemma new_url_path:
  "s \<noteq> [] \<Longrightarrow> hd s = CHR ''/'' \<Longrightarrow>
     set_encoded_path s new_url = bind_res (match_path_absolute s) (\<lambda>_. Inr (put_part id_path s new_url))"
  by (simp add: set_encoded_path_def has_authority_def parts_length_def new_url_def no_parts_def)

lemma accepted_path_split:
  "accepted q \<Longrightarrow> newRequestImpl L = Inr r0 \<Longrightarrow>
     set_encoded_path (target_path (rq_target q)) (base (ri_url r0)) =
       bind_res (match_path_absolute (target_path (rq_target q)))
         (\<lambda>_. Inr (put_part id_path (target_path (rq_target q)) new_url))"
  using accepted_path [of q] fresh_request_parts [of L r0] by (simp add: newUrlImpl_def new_url_path)

lemma match_path_absolute_Inl: "match_path_absolute s = Inl e \<Longrightarrow> e = InvalidPart"
  by (simp add: match_path_absolute_def require_done_Inl)

lemma pipeline_run:
  assumes "\<forall>q \<in> set qs. accepted q \<and> response_for L (w_router W) q = Inr (f q)"
  shows "let C = conn_run L (newConnection W)
        (Handshaken True # concat (map request_round qs) @ [ReadEof, ShutDown True]) in
    cn_phase C = Returned 0 \<and> cn_written C = map f qs"
proof -
  let ?C = "(newConnection W)\<lparr>cn_phase := Reading\<rparr>"
  have w: "cn_world ?C = W" "cn_phase ?C = Reading" "cn_written ?C = []"
    by (simp_all add: newConnection_def)
  obtain W' where "cs.serve_all L qs W = Inr (map f qs, W')"
    using cs.serve_all_answers [of qs L W f] assms by auto
  with w assms have "conn_run L ?C (concat (map request_round qs)) =
      ?C\<lparr>cn_world := W', cn_written := map f qs\<rparr>"
    using conn_rounds [of ?C qs L "map f qs" W'] by simp
  then show ?thesis
    by (simp add: conn_run_append conn_step_def newConnection_def)
qed

section \<open>Properties\<close>

text \<open>
  C10. A connection that sends any number of acceptable requests and then closes gets
  exactly one response for each, in order, each the response the route table gives to
  that request alone; then the coroutine shuts the connection down and returns 0.
\<close>

theorem pipeline:
  assumes "\<forall>q \<in> set qs. accepted q \<and> response_for L (w_router W) q = Inr (f q)"
  shows "let C = conn_run L (newConnection W)
        (Handshaken True # concat (map request_round qs) @ [ReadEof, ShutDown True]) in
    cn_phase C = Returned 0 \<and> cn_written C = map f qs"
  using assms by (rule pipeline_run)

definition example_world :: world where
  "example_world = \<lparr>w_router = newRouteImpl\<lparr>routeGetMap := [(''/hi'', example_signal)]\<rparr>,
     w_store = example_store, w_next = 0\<rparr>"

definition answer_text :: "string \<Rightarrow> http_response" where
  "answer_text body = fill_response example_lib 200 example_request body fresh_response"

lemma example_parsed: "\<exists>r. parsed example_lib example_request = Inr r \<and> req_path r = ''/hi''"
proof -
  have "\<not> (case bind_res (parsed example_lib example_request) (\<lambda>r. Inr (req_path r)) of
      Inl _ \<Rightarrow> True | Inr p \<Rightarrow> p \<noteq> ''/hi'')"
    by code_simp
  then show ?thesis by (cases "parsed example_lib example_request") auto
qed

lemma example_response:
  "response_for example_lib (w_router example_world) example_request = Inr (answer_text ''hello'')"
proof -
  obtain r where r: "parsed example_lib example_request = Inr r" "req_path r = ''/hi''"
    using example_parsed by blast
  then show ?thesis
    using parsed_beast [OF r(1)]
    by (simp add: response_for_def answered_def slots_at_def selected_def find_signal_def smap_find_def
        example_world_def example_signal_def call_slot_def Let_def answer_text_def newResponseImpl_def
        newRouteImpl_def)
qed

lemma example_accepted: "accepted example_request"
  by (simp add: accepted_def accepted_method_def illegal_target_def example_request_def)

theorem pipeline_witness:
  "cn_written (conn_run example_lib (newConnection example_world)
     (Handshaken True # concat (map request_round [example_request, example_request]) @ [ReadEof, ShutDown True])) =
   [answer_text ''hello'', answer_text ''hello'']"
  using pipeline [of "[example_request, example_request]" example_lib example_world "\<lambda>_. answer_text ''hello''"]
  by (simp add: example_response example_accepted Let_def del: conn_run_Cons concat.simps)

text \<open>
  Whatever the peer sends and whatever the handlers do, every response the
  connection has written is complete: its status is 200 or 404, its Content-Length is
  the length of its body, and the version, keep-alive, Server and Content-Type fields
  are set.
\<close>

theorem written_responses_complete:
  assumes "router_wf (w_router W)" "r \<in> set (cn_written (conn_run L (newConnection W) evs))"
  shows "complete_response r"
  using conn_run_inv [OF newConnection_inv [OF assms(1)], of L evs] assms(2)
  by (simp add: conn_inv_def)

theorem written_responses_complete_witness:
  "complete_response (answer_text ''hello'')"
proof -
  have w: "router_wf (w_router example_world)"
    by (simp add: router_wf_def signals_wf_def smap_wf_def smap_find_def example_world_def newRouteImpl_def
        example_signal_def)
  have "conn_run example_lib (newConnection example_world) (Handshaken True # request_round example_request) =
      conn_run example_lib ((newConnection example_world)\<lparr>cn_phase := Reading\<rparr>) (request_round example_request)"
    by (simp add: conn_step_def newConnection_def)
  moreover obtain W' where "process_request example_lib example_request example_world =
      Inr (answer_text ''hello'', W')"
    using process_request_response(1) [OF example_response] by blast
  ultimately have "answer_text ''hello'' \<in> set (cn_written (conn_run example_lib (newConnection example_world)
      (Handshaken True # request_round example_request)))"
    by (simp add: newConnection_def conn_round example_accepted)
  with w show ?thesis by (rule written_responses_complete)
qed

text \<open>
  C25. A request whose method is neither GET nor HEAD, or whose target is not absolute or
  contains two dots in a row, is never answered: the coroutine fills a 400 response and
  returns 0 without writing it and without shutting the connection down.
\<close>

theorem bad_request_unanswered:
  assumes "cn_phase C = Reading" "\<not> accepted q"
  shows "conn_run L C (ReadRequest q # evs) = C\<lparr>cn_phase := Returned 0\<rparr>"
proof -
  have "conn_step L C (ReadRequest q) = C\<lparr>cn_phase := Returned 0\<rparr>"
    using assms by (auto simp: conn_step_def on_read_def accepted_def badRequest_def)
  then show ?thesis by (simp add: finished_run finished_def)
qed

theorem bad_request_unanswered_witness:
  "cn_written (conn_run example_lib ((newConnection example_world)\<lparr>cn_phase := Reading\<rparr>)
     [ReadRequest (example_request\<lparr>rq_method := VPost\<rparr>), Written True, ReadEof, ShutDown True]) = []"
proof -
  have "\<not> accepted (example_request\<lparr>rq_method := VPost\<rparr>)"
    by (simp add: accepted_def accepted_method_def)
  from bad_request_unanswered [OF _ this, of "(newConnection example_world)\<lparr>cn_phase := Reading\<rparr>"
      example_lib "[Written True, ReadEof, ShutDown True]"]
  show ?thesis by (simp add: newConnection_def del: conn_run_Cons)
qed

text \<open>
  One acceptable request with a path the URL library rejects ends the process: the
  exception of \<open>parseRequest\<close> leaves the coroutine.
\<close>

lemma malformed_path_parsed:
  assumes "accepted q" "newRequestImpl L = Inr r0" "match_path_absolute (target_path (rq_target q)) = Inl e"
  shows "parsed L q = Inl InvalidPart"
proof -
  have "parseRequest L (r0\<lparr>ri_beast := Some q\<rparr>) = Inl InvalidPart"
    using assms accepted_path_split [OF assms(1,2)] match_path_absolute_Inl [OF assms(3)]
    by (simp add: parseRequest_eq)
  with assms(2) show ?thesis by (simp add: parsed_def)
qed

theorem malformed_path_crashes:
  assumes "cn_phase C = Reading" "accepted q" "newRequestImpl L = Inr r0"
    and "match_path_absolute (target_path (rq_target q)) = Inl e"
  shows "conn_run L C (ReadRequest q # evs) = C\<lparr>cn_phase := Crashed InvalidPart\<rparr>"
proof -
  have "process_request L q (cn_world C) = Inl InvalidPart"
    by (simp add: process_request_eq malformed_path_parsed [OF assms(2-4)])
  then have "conn_step L C (ReadRequest q) = C\<lparr>cn_phase := Crashed InvalidPart\<rparr>"
    using assms(1,2) by (simp add: conn_step_def on_read_def accepted_def)
  then show ?thesis by (simp add: finished_run finished_def)
qed

definition malformed_request :: http_request where
  "malformed_request = example_request\<lparr>rq_target := ''/x%2f''\<rparr>"

lemma malformed_accepted: "accepted malformed_request"
  by (simp add: accepted_def accepted_method_def illegal_target_def example_request_def malformed_request_def)

lemma malformed_rejected: "\<exists>e. match_path_absolute (target_path (rq_target malformed_request)) = Inl e"
proof -
  have "\<not> (case match_path_absolute (target_path ''/x%2f'') of Inl _ \<Rightarrow> False | Inr _ \<Rightarrow> True)"
    by code_simp
  then show ?thesis by (auto simp: malformed_request_def split: sum.splits)
qed

lemma example_fresh_request:
  "newRequestImpl example_lib = Inr \<lparr>ri_beast = None, ri_url = newUrlImpl, ri_method = [],
     ri_referer = [], ri_userAgent = [], ri_browser = ''Chrome''\<rparr>"
  by (simp add: newRequestImpl_def newUserAgentImpl_def example_lib_def)

lemma malformed_parsed: "parsed example_lib malformed_request = Inl InvalidPart"
  using malformed_rejected malformed_path_parsed [OF malformed_accepted example_fresh_request] by blast

theorem malformed_path_crashes_witness:
  "cn_phase (conn_run example_lib ((newConnection example_world)\<lparr>cn_phase := Reading\<rparr>)
     [ReadRequest malformed_request]) = Crashed InvalidPart"
proof -
  obtain e where e: "match_path_absolute (target_path (rq_target malformed_request)) = Inl e"
    using malformed_rejected by blast
  show ?thesis
    using malformed_path_crashes [OF _ malformed_accepted example_fresh_request e,
        of "(newConnection example_world)\<lparr>cn_phase := Reading\<rparr>" "[]"]
    by (simp add: newConnection_def)
qed

lemma parsed_request_parts:
  assumes "accepted q" "newRequestImpl L = Inr r0"
    and "match_path_absolute (target_path (rq_target q)) = Inr ()"
  shows "\<exists>r. parsed L q = Inr r \<and> req_path r = target_path (rq_target q) \<and>
    ri_url r = with_host (header_find q ''Host'')
      (with_query L (target_query (rq_target q)) (newUrlImpl\<lparr>base := put_part id_path (target_path (rq_target q)) new_url\<rparr>)) \<and>
    req_host r = stored_host (header_find q ''Host'') \<and> ri_method r = rq_method_string q \<and>
    ri_userAgent r = case_option [] id (header_find q ''User-Agent'') \<and>
    ri_referer r = case_option [] id (header_find q ''Referer'')"
proof -
  let ?p = "target_path (rq_target q)"
  let ?b = "put_part id_path ?p new_url"
  let ?u = "with_query L (target_query (rq_target q)) (newUrlImpl\<lparr>base := ?b\<rparr>)"
  have ub: "base ?u = ?b" by (simp add: with_query_base)
  have i: "url_inv ?b" by (simp add: put_part_inv url_simps)
  have na: "\<not> has_authority ?b"
    by (intro put_path_authority) (simp_all add: url_simps, simp add: new_url_def has_authority_def
        parts_length_def no_parts_def)
  have parts: "part ?b 5 = ?p" "part ?b 3 = []"
    using new_url_inv by (simp_all add: ub.get_put part_new_url)
  obtain r where r: "parsed L q = Inr r"
    and ru: "ri_url r = with_host (header_find q ''Host'') ?u" and rm: "ri_method r = rq_method_string q"
    and rh: "ri_userAgent r = case_option [] id (header_find q ''User-Agent'')"
      "ri_referer r = case_option [] id (header_find q ''Referer'')"
    using assms(2,3) accepted_path_split [OF assms(1,2)] fresh_request_parts [OF assms(2)]
    by (simp add: parsed_def parseRequest_eq cong: option.case_cong)
  have "req_path r = ?p"
    using with_host_parts [of ?u 5 "header_find q ''Host''"] i na parts ub
    by (simp add: req_path_def encoded_path_def ru)
  moreover have "req_host r = stored_host (header_find q ''Host'')"
    using with_host_parts [of ?u 3 "header_find q ''Host''"] i na parts ub
    by (auto simp: req_host_def encoded_host_def ru stored_host_def)
  ultimately show ?thesis using r ru rm rh by blast
qed

text \<open>
  C17. What a handler finds in an acceptable request with a valid path: the path is the
  target up to its first question mark, the encoded query what follows it, a parameter
  the first value of its key in the query, the method the received one, the user agent
  and the referer those of the User-Agent and the Referer header, and the host the Host
  header, percent-encoded unless it is an IP address.
\<close>

theorem parsed_request:
  assumes "accepted q" "newRequestImpl L = Inr r0" "splits_at (CHR ''&'') (split_amp L)"
    and "match_path_absolute (target_path (rq_target q)) = Inr ()"
  shows "\<exists>r. parsed L q = Inr r \<and>
    req_path r = target_path (rq_target q) \<and>
    req_getEncodedQuery r = case_option [] id (target_query (rq_target q)) \<and>
    (\<forall>key. req_getQuery key r = (case target_query (rq_target q) of
       None \<Rightarrow> None
     | Some s \<Rightarrow> map_of (query_pairs (split_on (CHR ''&'') s)) key)) \<and>
    req_method r = rq_method_string q \<and>
    ri_userAgent r = case_option [] id (header_find q ''User-Agent'') \<and>
    ri_referer r = case_option [] id (header_find q ''Referer'') \<and>
    req_host r = stored_host (header_find q ''Host'')"
proof -
  have sp: "split_amp L = split_on (CHR ''&'')" by (rule splits_at_unique [OF assms(3)])
  obtain r where r: "parsed L q = Inr r" "req_path r = target_path (rq_target q)"
      "ri_url r = with_host (header_find q ''Host'')
        (with_query L (target_query (rq_target q)) (newUrlImpl\<lparr>base := put_part id_path (target_path (rq_target q)) new_url\<rparr>))"
      "req_host r = stored_host (header_find q ''Host'')" "ri_method r = rq_method_string q"
      "ri_userAgent r = case_option [] id (header_find q ''User-Agent'')"
      "ri_referer r = case_option [] id (header_find q ''Referer'')"
    using parsed_request_parts [OF assms(1,2,4)] by blast
  have "req_getEncodedQuery r = case_option [] id (target_query (rq_target q))"
    by (simp add: req_getEncodedQuery_def url_getEncodedQuery_def query_getEncodedQuery_def r(3)
        with_host_query with_query_def url_setEncodedQuery_eq newUrlImpl_def newQueryImpl_def split: option.splits)
  moreover have "req_getQuery key r = (case target_query (rq_target q) of
       None \<Rightarrow> None | Some s \<Rightarrow> map_of (query_pairs (split_on (CHR ''&'') s)) key)" for key
    by (simp add: req_getQuery_def url_getQuery_def query_getQuery_def r(3) with_host_query with_query_def
        url_setEncodedQuery_eq newUrlImpl_def newQueryImpl_def sp sm.find_insert_all smap_simps split: option.splits)
  ultimately show ?thesis using r by (simp add: req_method_def)
qed

definition browser_request :: http_request where
  "browser_request = example_request\<lparr>rq_header := (\<lambda>k.
     if k = ''Host'' then Some ''localhost:3000'' else if k = ''User-Agent'' then Some ''curl/7''
     else if k = ''Referer'' then Some ''/index'' else None)\<rparr>"

theorem parsed_request_witness:
  "\<exists>r. parsed example_lib browser_request = Inr r \<and> req_path r = ''/hi'' \<and>
     req_getQuery ''n'' r = Some ''1'' \<and> req_host r = ''localhost%3A3000'' \<and>
     ri_userAgent r = ''curl/7'' \<and> ri_referer r = ''/index''"
proof -
  note r = example_fresh_request
  have a: "accepted browser_request"
    using example_accepted by (simp add: accepted_def accepted_method_def browser_request_def)
  have s: "splits_at (CHR ''&'') (split_amp example_lib)"
    by (simp add: example_lib_def split_on_splits)
  have "match_path_absolute (target_path (rq_target example_request)) = Inr ()" by code_simp
  then have m: "match_path_absolute (target_path (rq_target browser_request)) = Inr ()"
    by (simp add: browser_request_def)
  have "target_path (rq_target browser_request) = ''/hi''" "target_query (rq_target browser_request) = Some ''n=1''"
    "header_find browser_request ''Host'' = Some ''localhost:3000''"
    "header_find browser_request ''User-Agent'' = Some ''curl/7''"
    "header_find browser_request ''Referer'' = Some ''/index''"
    by (simp_all add: browser_request_def example_request_def target_path_def target_query_def header_find_received)
  moreover have "map_of (query_pairs (split_on (CHR ''&'') ''n=1'')) ''n'' = Some ''1''"
    "stored_host (Some ''localhost:3000'') = ''localhost%3A3000''" by code_simp+
  ultimately show ?thesis
    using parsed_request [OF a r s m] by auto
qed

lemma response_status:
  assumes "answered L (slots_at R p) q r = Inr (x, s)"
  shows "if slots_at R p = None then x = snd (notFound L q fresh_response (req_path r)) else rs_result x = Some 200"
  using assms by (auto simp: answered_def Let_def bind_res_Inr_iff fill_response_def)

lemma no_slots:
  "slots_at R p = None \<longleftrightarrow>
     (\<forall>k. k = p \<or> k = ''*'' \<longrightarrow> smap_find (routeGetMap R) k = None \<and> smap_find (routeAllMap R) k = None)"
  by (auto simp: slots_at_def selected_def find_signal_def)

text \<open>
  C18. A connection that waits for a request and gets an acceptable one with a valid path
  answers it with 404 exactly when neither its path nor the wild card has a signal in the
  table of its method or in the table of all methods; the body then names the path.  Any
  other response it begins to write has the status 200.
\<close>

theorem not_found_exactly:
  assumes "cn_phase C = Reading" "accepted q" "newRequestImpl L = Inr r0"
    and "match_path_absolute (target_path (rq_target q)) = Inr ()"
  shows "let C' = conn_step L C (ReadRequest q); R = w_router (cn_world C); p = target_path (rq_target q) in
    ((\<exists>x. cn_phase C' = Writing x \<and> rs_result x = Some 404) \<longleftrightarrow>
      (\<forall>k. k = p \<or> k = ''*'' \<longrightarrow> smap_find (routeGetMap R) k = None \<and> smap_find (routeAllMap R) k = None)) \<and>
    (\<forall>x. cn_phase C' = Writing x \<longrightarrow>
      process_request L q (cn_world C) = Inr (x, cn_world C') \<and>
      (rs_result x = Some 200 \<or> rs_result x = Some 404 \<and>
        rs_body x = ''The resource '' @ [CHR 0x27] @ p @ [CHR 0x27] @ '' was not found.''))"
proof -
  let ?R = "w_router (cn_world C)" and ?p = "target_path (rq_target q)"
  obtain r where r: "parsed L q = Inr r" "req_path r = ?p"
    using parsed_request_parts [OF assms(2-4)] by blast
  have st: "conn_step L C (ReadRequest q) =
      (case process_request L q (cn_world C) of
         Inl e \<Rightarrow> C\<lparr>cn_phase := Crashed e\<rparr>
       | Inr (res, W) \<Rightarrow> C\<lparr>cn_phase := Writing res, cn_world := W\<rparr>)"
    using assms(1,2) by (simp add: conn_step_def on_read_def accepted_def)
  show ?thesis
  proof (cases "answered L (slots_at ?R ?p) q r")
    case (Inl e)
    then have "slots_at ?R ?p \<noteq> None" by (auto simp: answered_def Let_def split: option.splits)
    with Inl r st show ?thesis
      using no_slots [of ?R ?p] by (auto simp: process_request_eq Let_def)
  next
    case (Inr a)
    obtain x s where a: "a = (x, s)" by (cases a)
    have "process_request L q (cn_world C) = Inr (x, \<lparr>w_router = dispatched (w_next (cn_world C)) ?p ?R,
        w_store = (w_store (cn_world C))(w_next (cn_world C) := s), w_next = Suc (w_next (cn_world C))\<rparr>)"
      using Inr r a by (simp add: process_request_eq)
    then show ?thesis
      using response_status [OF Inr [unfolded a]] r(2) st no_slots [of ?R ?p]
      by (auto simp: Let_def notFound_def fill_response_def split: if_splits)
  qed
qed

theorem not_found_exactly_witness:
  "\<exists>x. cn_phase (conn_step example_lib
       ((newConnection (example_world\<lparr>w_router := newRouteImpl\<rparr>))\<lparr>cn_phase := Reading\<rparr>)
       (ReadRequest example_request)) = Writing x \<and> rs_result x = Some 404"
proof -
  have m: "match_path_absolute (target_path (rq_target example_request)) = Inr ()" by code_simp
  show ?thesis
    using not_found_exactly [OF _ example_accepted example_fresh_request m,
        of "(newConnection (example_world\<lparr>w_router := newRouteImpl\<rparr>))\<lparr>cn_phase := Reading\<rparr>"]
    by (simp add: Let_def newConnection_def newRouteImpl_def smap_simps)
qed

end
