(* ===== verification/Json.thy ===== *)
theory Json
  imports Decimal
begin

text \<open>
  JSON documents as the program reads them, and class \<open>JsonImpl\<close> of
  \<open>src/core/json.cpp\<close>.  A document is the tree the JSON library holds: an
  object is its member list in order, duplicates included.  A failed
  \<open>RAPIDJSON_ASSERT\<close> is \<open>JsonAssert\<close>; dereferencing the end iterator of an
  empty object is \<open>BadAddress\<close>.
\<close>

section \<open>Documents\<close>

datatype json =
    JNull
  | JBool bool
  | JInt int
  | JDouble
  | JString string
  | JArray "json list"
  | JObject "(string \<times> json) list"

definition is_object :: "json \<Rightarrow> bool" where
  "is_object v = (case v of JObject _ \<Rightarrow> True | _ \<Rightarrow> False)"

text \<open>\<open>HasMember\<close> and \<open>operator[]\<close> assert that the value is an object.\<close>

definition has_member :: "json \<Rightarrow> string \<Rightarrow> bool res" where
  "has_member v key =
     (case v of JObject ms \<Rightarrow> Inr (map_of ms key \<noteq> None) | _ \<Rightarrow> Inl JsonAssert)"

definition member :: "json \<Rightarrow> string \<Rightarrow> json res" where
  "member v key =
     (case v of
        JObject ms \<Rightarrow> (case map_of ms key of Some w \<Rightarrow> Inr w | None \<Rightarrow> Inl JsonAssert)
      | _ \<Rightarrow> Inl JsonAssert)"

text \<open>A \<open>const char *\<close> that becomes a \<open>std::string\<close> ends at the first zero byte.\<close>

definition c_str :: "string \<Rightarrow> string" where
  "c_str s = takeWhile (\<lambda>c. c \<noteq> CHR 0x00) s"

definition as_string :: "json \<Rightarrow> string option" where
  "as_string v = (case v of JString s \<Rightarrow> Some (c_str s) | _ \<Rightarrow> None)"

definition as_int :: "json \<Rightarrow> int option" where
  "as_int v = (case v of JInt i \<Rightarrow> if int_ok i then Some i else None | _ \<Rightarrow> None)"

definition as_bool :: "json \<Rightarrow> bool option" where
  "as_bool v = (case v of JBool b \<Rightarrow> Some b | _ \<Rightarrow> None)"

text \<open>\<open>val.HasMember(key) && val[key].IsT()\<close> followed by \<open>val[key].GetT()\<close>.\<close>

definition typed_member :: "(json \<Rightarrow> 'a option) \<Rightarrow> json \<Rightarrow> string \<Rightarrow> 'a option res" where
  "typed_member get v key =
     bind_res (has_member v key) (\<lambda>h.
       if h then bind_res (member v key) (\<lambda>w. Inr (get w)) else Inr None)"

definition getMemberString :: "json \<Rightarrow> string \<Rightarrow> string option res" where
  "getMemberString v key = typed_member as_string v key"

definition getMemberInt :: "json \<Rightarrow> string \<Rightarrow> int option res" where
  "getMemberInt v key = typed_member as_int v key"

section \<open>Printing\<close>

definition kTypeName :: "json \<Rightarrow> string" where
  "kTypeName v =
     (case v of JNull \<Rightarrow> ''Null'' | JBool b \<Rightarrow> if b then ''True'' else ''False''
      | JObject _ \<Rightarrow> ''Object'' | JArray _ \<Rightarrow> ''Array'' | JString _ \<Rightarrow> ''String''
      | JInt _ \<Rightarrow> ''Number'' | JDouble \<Rightarrow> ''Number'')"

definition member_line :: "string \<Rightarrow> json \<Rightarrow> string" where
  "member_line name v = ''Type of member '' @ c_str name @ '' is '' @ kTypeName v"

text \<open>
  The printed lines.  Of an object that is an element of an array only the first
  member is printed; the depth the code passes along is never read.
\<close>

fun printJSON_value :: "json \<Rightarrow> string list res"
  and printJSON_elements :: "json list \<Rightarrow> string list res"
  and printJSON_iterator :: "string \<times> json \<Rightarrow> string list res"
  and printJSON_members :: "(string \<times> json) list \<Rightarrow> string list res" where
  "printJSON_value (JArray xs) = printJSON_elements xs"
| "printJSON_value _ = Inr []"
| "printJSON_elements [] = Inr []"
| "printJSON_elements (JObject [] # xs) = Inl BadAddress"
| "printJSON_elements (JObject (m # ms) # xs) =
     bind_res (printJSON_iterator m) (\<lambda>ls. bind_res (printJSON_elements xs) (\<lambda>ls'. Inr (ls @ ls')))"
| "printJSON_elements (JArray ys # xs) =
     bind_res (printJSON_elements ys) (\<lambda>ls. bind_res (printJSON_elements xs) (\<lambda>ls'. Inr (ls @ ls')))"
| "printJSON_elements (_ # xs) = printJSON_elements xs"
| "printJSON_iterator (name, v) =
     bind_res
       (case v of JObject ms \<Rightarrow> printJSON_members ms | JArray xs \<Rightarrow> printJSON_elements xs | _ \<Rightarrow> Inr [])
       (\<lambda>ls. Inr (member_line name v # ls))"
| "printJSON_members [] = Inr []"
| "printJSON_members (m # ms) =
     bind_res (printJSON_iterator m) (\<lambda>ls. bind_res (printJSON_members ms) (\<lambda>ls'. Inr (ls @ ls')))"

text \<open>
  \<open>readFile\<close> reads the bytes, given by the file system \<open>fs\<close>, and returns the
  empty document it has just made.
\<close>

definition json_readFile :: "(string \<Rightarrow> string option) \<Rightarrow> string \<Rightarrow> json option" where
  "json_readFile fs path = (let ret = (case fs path of Some bytes \<Rightarrow> bytes | None \<Rightarrow> []) in Some JNull)"

section \<open>Reading members\<close>

lemma has_member_object: "has_member (JObject ms) key = Inr (map_of ms key \<noteq> None)"
  by (simp add: has_member_def)

text \<open>On an object the guarded read never asserts; elsewhere it always does.\<close>

lemma typed_member_object:
  "typed_member get (JObject ms) key = Inr (Option.bind (map_of ms key) get)"
  by (cases "map_of ms key") (simp_all add: typed_member_def has_member_def member_def)

lemma typed_member_assert: "\<not> is_object v \<Longrightarrow> typed_member get v key = Inl JsonAssert"
  by (cases v) (simp_all add: typed_member_def has_member_def is_object_def)

lemma is_object_cases: "is_object v \<longleftrightarrow> (\<exists>ms. v = JObject ms)"
  by (cases v) (simp_all add: is_object_def)

lemma as_int_ok: "as_int v = Some i \<Longrightarrow> int_ok i"
  by (cases v) (auto simp: as_int_def split: if_splits)

lemma getMemberInt_int_ok: "getMemberInt v key = Inr (Some i) \<Longrightarrow> int_ok i"
  by (auto simp: getMemberInt_def typed_member_def bind_res_Inr_iff as_int_ok split: if_splits)

section \<open>When printing is safe\<close>

text \<open>No object without members is an element of an array on the printed part.\<close>

fun safe_elements :: "json list \<Rightarrow> bool"
  and safe_member :: "string \<times> json \<Rightarrow> bool"
  and safe_members :: "(string \<times> json) list \<Rightarrow> bool" where
  "safe_elements [] = True"
| "safe_elements (JObject [] # xs) = False"
| "safe_elements (JObject (m # ms) # xs) = (safe_member m \<and> safe_elements xs)"
| "safe_elements (JArray ys # xs) = (safe_elements ys \<and> safe_elements xs)"
| "safe_elements (_ # xs) = safe_elements xs"
| "safe_member (name, v) =
     (case v of JObject ms \<Rightarrow> safe_members ms | JArray xs \<Rightarrow> safe_elements xs | _ \<Rightarrow> True)"
| "safe_members [] = True"
| "safe_members (m # ms) = (safe_member m \<and> safe_members ms)"

lemma print_total:
  "(safe_elements xs \<longrightarrow> (\<exists>ls. printJSON_elements xs = Inr ls)) \<and>
   (\<not> safe_elements xs \<longrightarrow> printJSON_elements xs = Inl BadAddress)"
  "(safe_member m \<longrightarrow> (\<exists>ls. printJSON_iterator m = Inr ls)) \<and>
   (\<not> safe_member m \<longrightarrow> printJSON_iterator m = Inl BadAddress)"
  "(safe_members ms \<longrightarrow> (\<exists>ls. printJSON_members ms = Inr ls)) \<and>
   (\<not> safe_members ms \<longrightarrow> printJSON_members ms = Inl BadAddress)"
  by (induction xs and m and ms rule: safe_elements_safe_member_safe_members.induct)
     (auto split: json.splits)

definition safe_value :: "json \<Rightarrow> bool" where
  "safe_value v = (case v of JArray xs \<Rightarrow> safe_elements xs | _ \<Rightarrow> True)"

section \<open>Properties\<close>

text \<open>
  C38. \<open>printJSON_value\<close> reads outside an array exactly when the printed part of the
  document holds an object without members as an element of an array; otherwise it
  prints and returns.
\<close>

theorem printJSON_value_safe:
  "case printJSON_value v of Inl e \<Rightarrow> e = BadAddress \<and> \<not> safe_value v | Inr ls \<Rightarrow> safe_value v"
proof (cases v)
  case (JArray xs)
  with print_total(1) [of xs] show ?thesis
    by (cases "safe_elements xs") (auto simp: safe_value_def)
qed (simp_all add: safe_value_def)

end
