(* ===== verification/Server.thy ===== *)
theory Server
  imports Connection Json
begin

text \<open>
  Classes \<open>ServerState\<close>, \<open>ServerImpl\<close> and \<open>Listener\<close> of \<open>src/core/ServerState.hpp\<close>,
  \<open>Server.cpp\<close> and \<open>ServerListener.cpp\<close>.  The conversion of an address text, the
  number of hardware threads and the TLS context are arguments.
\<close>

section \<open>State\<close>

text \<open>
  The integers have no initialiser in the code: what a new state holds in them
  is an argument.
\<close>

record 'a server_state =
  ss_port :: nat
  ss_threadsNum :: int
  ss_portInt :: int
  ss_address :: 'a
  ss_docRootStr :: string
  ss_addressStr :: string

definition newServerState :: "nat \<Rightarrow> int \<Rightarrow> int \<Rightarrow> 'a \<Rightarrow> 'a server_state" where
  "newServerState p t pi a = \<lparr>ss_port = p, ss_threadsNum = t, ss_portInt = pi, ss_address = a,
     ss_docRootStr = [], ss_addressStr = []\<rparr>"

record 'a server_impl =
  sv_settings :: "json option"
  sv_state :: "'a server_state"
  sv_router :: router
  sv_ioHint :: "int option"
  sv_listening :: "('a \<times> nat) option"
  sv_threads :: nat

definition newServerImpl :: "'a server_state \<Rightarrow> 'a server_impl" where
  "newServerImpl s = \<lparr>sv_settings = None, sv_state = s, sv_router = newRouteImpl,
     sv_ioHint = None, sv_listening = None, sv_threads = 0\<rparr>"

definition server_setSettingsDoc :: "json option \<Rightarrow> 'a server_impl \<Rightarrow> rc \<times> 'a server_impl" where
  "server_setSettingsDoc d S = (0, S\<lparr>sv_settings := d\<rparr>)"

section \<open>Settings\<close>

definition extractSettings ::
  "(string \<Rightarrow> 'a res) \<Rightarrow> json option \<Rightarrow> 'a server_state \<Rightarrow> (rc \<times> 'a server_state) res" where
  "extractSettings make_address settingsDoc s =
     (case settingsDoc of
        None \<Rightarrow> Inl NullDereference
      | Some doc \<Rightarrow>
          if \<not> is_object doc then Inr (-1, s)
          else bind_res (has_member doc ''server'') (\<lambda>h.
            if \<not> h then Inr (-1, s)
            else bind_res (member doc ''server'') (\<lambda>v.
              if \<not> is_object v then Inr (-1, s)
              else
                bind_res (getMemberString v ''address'') (\<lambda>addressStrOpt.
                let s1 = (case addressStrOpt of None \<Rightarrow> s | Some x \<Rightarrow> s\<lparr>ss_addressStr := x\<rparr>) in
                bind_res (getMemberString v ''docRoot'') (\<lambda>docRootStrOpt.
                let s2 = (case docRootStrOpt of None \<Rightarrow> s1 | Some x \<Rightarrow> s1\<lparr>ss_docRootStr := x\<rparr>) in
                bind_res (getMemberInt v ''port'') (\<lambda>portIntOpt.
                let s3 = (case portIntOpt of None \<Rightarrow> s2 | Some x \<Rightarrow> s2\<lparr>ss_portInt := x\<rparr>) in
                bind_res (getMemberInt v ''threadNum'') (\<lambda>threadsNumOpt.
                let s4 = (case threadsNumOpt of None \<Rightarrow> s3 | Some x \<Rightarrow> s3\<lparr>ss_threadsNum := x\<rparr>) in
                bind_res (make_address (ss_addressStr s4)) (\<lambda>a.
                  Inr (0, s4\<lparr>ss_address := a, ss_port := ushort (ss_portInt s4),
                    ss_threadsNum := max 1 (ss_threadsNum s4)\<rparr>)))))))))"

definition server_run ::
  "(string \<Rightarrow> 'a res) \<Rightarrow> nat \<Rightarrow> 'a server_impl \<Rightarrow> (rc \<times> 'a server_impl) res" where
  "server_run make_address hardwareThreadsNum S =
     bind_res (extractSettings make_address (sv_settings S) (sv_state S)) (\<lambda>(_, s).
       let s1 = s\<lparr>ss_threadsNum := int32 (int hardwareThreadsNum)\<rparr> in
       Inr (0, S\<lparr>sv_state := s1, sv_ioHint := Some (ss_threadsNum s1),
         sv_listening := Some (ss_address s1, ss_port s1),
         sv_threads := sv_threads S + nat (ss_threadsNum s1)\<rparr>))"

section \<open>Certificates\<close>

datatype ssl_call =
    SetPasswordCallback string
  | SetOptions
  | UseCertificateChain string
  | UsePrivateKey string
  | UseTmpDh string

fun ssl_calls :: "(ssl_call \<Rightarrow> exn option) \<Rightarrow> ssl_call list \<Rightarrow> ssl_call list res" where
  "ssl_calls ctx [] = Inr []"
| "ssl_calls ctx (c # cs) =
     (case ctx c of Some e \<Rightarrow> Inl e | None \<Rightarrow> bind_res (ssl_calls ctx cs) (\<lambda>done. Inr (c # done)))"

text \<open>The three texts are what the certificate's getters return; \<open>None\<close> is a null pointer.\<close>

definition useCertificate ::
  "(ssl_call \<Rightarrow> exn option) \<Rightarrow> string option \<Rightarrow> string option \<Rightarrow> string option \<Rightarrow>
   (rc \<times> ssl_call list) res" where
  "useCertificate ctx certStr privateKeyStr dhStr =
     (case certStr of
        None \<Rightarrow> Inr (-1, [])
      | Some cert \<Rightarrow>
          (case privateKeyStr of
             None \<Rightarrow> Inr (-1, [])
           | Some key \<Rightarrow>
               (case dhStr of
                  None \<Rightarrow> Inr (-1, [])
                | Some dh \<Rightarrow>
                    bind_res (ssl_calls ctx [SetPasswordCallback ''test'', SetOptions,
                      UseCertificateChain cert, UsePrivateKey key, UseTmpDh dh]) (\<lambda>cs. Inr (0, cs)))))"

section \<open>Routes\<close>

datatype route_variant = RInt int | RDouble | RString string | RFun "handler option"

record route_options =
  ro_function :: "handler option option"
  ro_method :: string
  ro_path :: string
  ro_priority :: int

definition route_defaults :: route_options where
  "route_defaults = \<lparr>ro_function = None, ro_method = ''GET'', ro_path = ''*'', ro_priority = 10\<rparr>"

definition route_option :: "string \<Rightarrow> route_variant \<Rightarrow> route_options \<Rightarrow> route_options" where
  "route_option k v ro =
     (case v of
        RInt i \<Rightarrow> if k = ''priority'' then ro\<lparr>ro_priority := i\<rparr> else ro
      | RDouble \<Rightarrow> ro
      | RString s \<Rightarrow>
          if k = ''method'' then ro\<lparr>ro_method := s\<rparr>
          else if k = ''path'' then ro\<lparr>ro_path := s\<rparr> else ro
      | RFun f \<Rightarrow> ro\<lparr>ro_function := Some f\<rparr>)"

fun route_options_of :: "route_variant smap \<Rightarrow> route_options \<Rightarrow> route_options" where
  "route_options_of [] ro = ro"
| "route_options_of ((k, v) # m) ro = route_options_of m (route_option k v ro)"

definition server_route ::
  "connector \<Rightarrow> route_variant smap \<Rightarrow> 'a server_impl \<Rightarrow> (rc \<times> 'a server_impl) res" where
  "server_route cn m S =
     (let ro = route_options_of m route_defaults;
          add = (\<lambda>f. case ro_function ro of
                   None \<Rightarrow> Inl NullDereference
                 | Some h \<Rightarrow> Inr (0, S\<lparr>sv_router := snd (f cn (ro_path ro) (ro_priority ro) h (sv_router S))\<rparr>))
      in if ro_method ro = ''GET'' then add getAdd
         else if ro_method ro = ''POST'' then add postAdd
         else if ro_method ro = ''*'' then add allAdd
         else Inr (0, S))"

section \<open>The listener\<close>

text \<open>
  The four operations that set the acceptor up, in their order, then the endless
  accept loop; an event is the success of the operation the listener is at.
\<close>

datatype listener_phase = Opening | AllowingReuse | Binding | StartingListen | Accepting | ListenerReturned rc

record listener =
  ln_phase :: listener_phase
  ln_connectionList :: "connection list"
  ln_spawned :: nat

definition newListener :: listener where
  "newListener = \<lparr>ln_phase = Opening, ln_connectionList = [], ln_spawned = 0\<rparr>"

definition listener_step :: "world \<Rightarrow> listener \<Rightarrow> bool \<Rightarrow> listener" where
  "listener_step W l ok =
     (case ln_phase l of
        Opening \<Rightarrow> l\<lparr>ln_phase := (if ok then AllowingReuse else ListenerReturned (-1))\<rparr>
      | AllowingReuse \<Rightarrow> l\<lparr>ln_phase := (if ok then Binding else ListenerReturned (-1))\<rparr>
      | Binding \<Rightarrow> l\<lparr>ln_phase := (if ok then StartingListen else ListenerReturned (-1))\<rparr>
      | StartingListen \<Rightarrow> l\<lparr>ln_phase := (if ok then Accepting else ListenerReturned (-1))\<rparr>
      | Accepting \<Rightarrow>
          if ok then l\<lparr>ln_connectionList := ln_connectionList l @ [newConnection W],
                       ln_spawned := Suc (ln_spawned l)\<rparr>
          else l
      | ListenerReturned rc \<Rightarrow> l)"

definition listener_run :: "world \<Rightarrow> listener \<Rightarrow> bool list \<Rightarrow> listener" where
  "listener_run W l evs = foldl (listener_step W) l evs"

section \<open>What the settings give\<close>

lemma extractSettings_invalid:
  "\<not> is_object doc \<Longrightarrow> extractSettings mk (Some doc) s = Inr (-1, s)"
  "map_of ms ''server'' = None \<Longrightarrow> extractSettings mk (Some (JObject ms)) s = Inr (-1, s)"
  "map_of ms ''server'' = Some v \<Longrightarrow> \<not> is_object v \<Longrightarrow>
     extractSettings mk (Some (JObject ms)) s = Inr (-1, s)"
  by (simp_all add: extractSettings_def has_member_def member_def is_object_def)

text \<open>The settings after reading the members of the server object.\<close>

definition configured :: "(string \<times> json) list \<Rightarrow> 'a server_state \<Rightarrow> 'a server_state" where
  "configured ms s =
     s\<lparr>ss_addressStr := case_option (ss_addressStr s) id (Option.bind (map_of ms ''address'') as_string),
       ss_docRootStr := case_option (ss_docRootStr s) id (Option.bind (map_of ms ''docRoot'') as_string),
       ss_portInt := case_option (ss_portInt s) id (Option.bind (map_of ms ''port'') as_int),
       ss_threadsNum := case_option (ss_threadsNum s) id (Option.bind (map_of ms ''threadNum'') as_int)\<rparr>"

lemma extractSettings_object:
  assumes "map_of doc ''server'' = Some (JObject ms)"
  shows "extractSettings mk (Some (JObject doc)) s =
    bind_res (mk (ss_addressStr (configured ms s))) (\<lambda>a.
      Inr (0, (configured ms s)\<lparr>ss_address := a, ss_port := ushort (ss_portInt (configured ms s)),
        ss_threadsNum := max 1 (ss_threadsNum (configured ms s))\<rparr>))"
  using assms
  by (cases "Option.bind (map_of ms ''address'') as_string";
      cases "Option.bind (map_of ms ''docRoot'') as_string";
      cases "Option.bind (map_of ms ''port'') as_int";
      cases "Option.bind (map_of ms ''threadNum'') as_int")
     (simp_all add: extractSettings_def is_object_def has_member_def member_def getMemberString_def
       getMemberInt_def typed_member_object configured_def Let_def cong: option.case_cong)

lemma ushort_mod: "ushort i = nat (i mod 65536)"
  by (simp add: ushort_def uint_word_of_int_eq take_bit_eq_mod flip: nat_uint_eq)

lemma ushort_id: "0 \<le> i \<Longrightarrow> i < 65536 \<Longrightarrow> ushort i = nat i"
  by (simp add: ushort_mod)

section \<open>The accept loop\<close>

lemma listener_run_Nil [simp]: "listener_run W l [] = l"
  by (simp add: listener_run_def)

lemma listener_run_Cons [simp]: "listener_run W l (e # es) = listener_run W (listener_step W l e) es"
  by (simp add: listener_run_def)

lemma listener_returned: "ln_phase l = ListenerReturned rc \<Longrightarrow> listener_run W l evs = l"
  by (induction evs) (simp_all add: listener_step_def)

lemma listener_accepting:
  "ln_phase l = Accepting \<Longrightarrow> listener_run W l evs =
     l\<lparr>ln_connectionList := ln_connectionList l @ replicate (length (filter id evs)) (newConnection W),
       ln_spawned := ln_spawned l + length (filter id evs)\<rparr>"
proof (induction evs arbitrary: l)
  case Nil
  then show ?case by simp
next
  case (Cons e evs)
  then show ?case by (simp add: listener_step_def)
qed

lemma first_four_cases:
  obtains "xs = []" | a where "xs = [a]" | a b where "xs = [a, b]" | a b c where "xs = [a, b, c]"
    | a b c d rest where "xs = a # b # c # d # rest"
proof (cases xs)
  case Nil
  then show ?thesis by (rule that(1))
next
  case (Cons a ys)
  note xs = this
  show ?thesis
  proof (cases ys)
    case Nil
    with xs show ?thesis by (intro that(2)) simp
  next
    case (Cons b zs)
    note ys = this
    show ?thesis
    proof (cases zs)
      case Nil
      with xs ys show ?thesis by (intro that(3)) simp
    next
      case (Cons c ws)
      note zs = this
      show ?thesis
      proof (cases ws)
        case Nil
        with xs ys zs show ?thesis by (intro that(4)) simp
      next
        case (Cons d rest)
        with xs ys zs show ?thesis by (intro that(5)) simp
      qed
    qed
  qed
qed

section \<open>What the routes do\<close>

lemma slots_at_postAdd: "slots_at (snd (postAdd cn p pr h R)) q = slots_at R q"
  by (simp add: postAdd_def route_add_def slots_at_def)

lemma selected_single:
  "selected q [(p, g)] [] = (if p = q \<or> p = star then Some g else None)"
  "selected q [] [(p, g)] = (if p = q \<or> p = star then Some g else None)" if "star = ''*''"
  by (simp_all add: selected_def find_signal_def smap_find_def that [symmetric])

lemma route_add_Nil:
  "route_add cn p pr h [] = (0, [(p, new_signal\<lparr>sg_slots := cn pr h []\<rparr>)])"
  by (simp add: route_add_def smap_find_def connect_slot_def new_signal_def)

lemma slots_at_fresh:
  "slots_at (snd (getAdd cn p pr h newRouteImpl)) q = (if p = q \<or> p = ''*'' then Some (cn pr h []) else None)"
  "slots_at (snd (allAdd cn p pr h newRouteImpl)) q = (if p = q \<or> p = ''*'' then Some (cn pr h []) else None)"
  by (simp_all add: slots_at_def getAdd_def allAdd_def newRouteImpl_def selected_single route_add_Nil)

lemma int32_id: "int_ok i \<Longrightarrow> int32 i = i"
  by (simp add: int32_def int_ok_def sint_sbintrunc' signed_take_bit_int_eq_self)

lemma connect_first: "connects_at_back cn \<Longrightarrow> cn p h [] = [(p, h)]"
  using connect_all_sort_key [of cn "[(p, h)]"] by (simp add: connect_all_def)

section \<open>What one handler answers\<close>

lemma response_of_returned:
  assumes "slots_at R (req_path r) = Some [(pr, Some f)]" "parsed L q = Inr r"
    and "f r (newResponseImpl\<lparr>rp_beast := Some fresh_response\<rparr>) = Inr (body, [])"
  shows "response_for L R q = Inr (fill_response L 200 q body fresh_response)"
  using assms parsed_beast [OF assms(2)]
  by (simp add: response_for_def answered_def call_slot_def Let_def newResponseImpl_def)

lemma response_of_ended:
  assumes "slots_at R (req_path r) = Some [(pr, Some f)]" "parsed L q = Inr r"
    and "f r (newResponseImpl\<lparr>rp_beast := Some fresh_response\<rparr>) = Inr (v, [OpEnd body])"
  shows "response_for L R q = Inr (fill_response L 200 q body fresh_response)"
  using assms parsed_beast [OF assms(2)]
  by (simp add: response_for_def answered_def call_slot_def Let_def newResponseImpl_def apply_op_def res_end_def)

lemma response_of_nobody:
  assumes "slots_at R (req_path r) = None" "parsed L q = Inr r"
  shows "response_for L R q = Inr (snd (notFound L q fresh_response (req_path r)))"
  using assms by (simp add: response_for_def answered_def Let_def)

text \<open>The table of a site whose GET routes have different paths.\<close>

definition get_routes :: "(string \<times> handler) list \<Rightarrow> (string \<times> int \<times> handler option) list" where
  "get_routes rs = map (\<lambda>(p, h). (p, 10, Some h)) rs"

lemma filter_get_routes:
  "distinct (map fst rs) \<Longrightarrow> map snd (filter (\<lambda>r. fst r = p) (get_routes rs)) =
     (case map_of rs p of None \<Rightarrow> [] | Some h \<Rightarrow> [(10, Some h)])"
proof (induction rs)
  case (Cons a rs)
  have "map_of rs p = None" if "fst a = p" using Cons.prems that by (simp add: map_of_eq_None_iff)
  with Cons show ?case by (cases a) (auto simp: get_routes_def)
qed (simp add: get_routes_def)

lemma slots_at_get_routes:
  assumes "connects_at_back cn" "distinct (map fst rs)"
  shows "slots_at (register_all cn (get_routes rs) newRouteImpl) p =
    map_option (\<lambda>h. [(10, Some h)])
      (case map_of rs p of Some h \<Rightarrow> Some h | None \<Rightarrow> map_of rs ''*'')"
proof -
  let ?R = "register_all cn (get_routes rs) newRouteImpl"
  have m: "map_option sg_slots (smap_find (routeGetMap ?R) k) = map_option (\<lambda>h. [(10, Some h)]) (map_of rs k)" for k
    using register_all_slots [OF assms(1), of "get_routes rs" k] filter_get_routes [OF assms(2), of k]
    by (auto simp: Let_def split: option.splits)
  have "routeAllMap (register_all cn xs R) = routeAllMap R" for xs R
    by (induction xs arbitrary: R) (auto simp: register_all_def getAdd_def split: prod.splits)
  then have a: "routeAllMap ?R = []" by (simp add: newRouteImpl_def)
  have n: "smap_find (routeGetMap ?R) k = None \<longleftrightarrow> map_of rs k = None" for k
    using m [of k] by (metis option.map_disc_iff)
  show ?thesis
    using m [of p] m [of "''*''"] n [of p] n [of "''*''"]
    by (auto simp: slots_at_def selected_def find_signal_def a smap_simps split: option.splits)
qed

section \<open>Properties\<close>

text \<open>
  C31. \<open>ServerImpl::extractSettings\<close> returns -1 and changes nothing unless the settings
  are an object with an object \<open>server\<close>.  Of that object it takes the members with the
  right type; the address text must convert, the port is taken modulo 65536 and the
  number of threads is at least one.
\<close>

theorem extractSettings_outcome:
  "extractSettings make_address d s =
    (case d of
       None \<Rightarrow> Inl NullDereference
     | Some doc \<Rightarrow>
         (case (case doc of JObject ds \<Rightarrow> map_of ds ''server'' | _ \<Rightarrow> None) of
            Some (JObject ms) \<Rightarrow>
              bind_res (make_address (ss_addressStr (configured ms s))) (\<lambda>a.
                Inr (0, (configured ms s)\<lparr>ss_address := a,
                  ss_port := nat (ss_portInt (configured ms s) mod 65536),
                  ss_threadsNum := max 1 (ss_threadsNum (configured ms s))\<rparr>))
          | _ \<Rightarrow> Inr (-1, s)))"
proof (cases d)
  case None
  then show ?thesis by (simp add: extractSettings_def)
next
  case (Some doc)
  show ?thesis
  proof (cases "\<exists>ds ms. doc = JObject ds \<and> map_of ds ''server'' = Some (JObject ms)")
    case True
    with Some show ?thesis by (auto simp: extractSettings_object ushort_mod)
  next
    case False
    have "extractSettings make_address (Some doc) s = Inr (-1, s)"
    proof (cases "is_object doc")
      case True
      then obtain ds where ds: "doc = JObject ds" by (auto simp: is_object_cases)
      with False have "map_of ds ''server'' = Some v \<Longrightarrow> \<not> is_object v" for v
        by (auto simp: is_object_cases)
      with ds show ?thesis
        by (cases "map_of ds ''server''") (simp_all add: extractSettings_invalid)
    qed (simp add: extractSettings_invalid)
    with False Some show ?thesis
      by (auto split: json.splits option.splits)
  qed
qed

text \<open>
  \<open>ServerImpl::run\<close> starts as many threads as the hardware reports, none when it
  reports none, whatever number of threads the settings ask for, and listens on the
  configured address and port.
\<close>

theorem run_threads_and_endpoint:
  assumes "sv_settings S = Some (JObject ds)" "map_of ds ''server'' = Some (JObject ms)"
    and "make_address (ss_addressStr (configured ms (sv_state S))) = Inr a" "hardware < 2 ^ 31"
  shows "\<exists>S'. server_run make_address hardware S = Inr (0, S') \<and>
    sv_threads S' = sv_threads S + hardware \<and> sv_ioHint S' = Some (int hardware) \<and>
    sv_listening S' = Some (a, nat (ss_portInt (configured ms (sv_state S)) mod 65536))"
proof -
  have "int32 (int hardware) = int hardware" using assms(4) by (intro int32_id) (simp add: int_ok_def)
  with assms(1-3) show ?thesis
    by (simp add: server_run_def extractSettings_object Let_def ushort_mod)
qed

theorem run_threads_and_endpoint_witness:
  "\<exists>S'. server_run (\<lambda>s. Inr s) 0
      ((newServerImpl (newServerState 0 0 0 ''any''))\<lparr>sv_settings := Some (JObject [(''server'', JObject
        [(''address'', JString ''::1''), (''port'', JInt 65537), (''threadNum'', JInt 8)])])\<rparr>) = Inr (0, S') \<and>
    sv_threads S' = 0 \<and> sv_listening S' = Some (''::1'', 1)"
proof -
  let ?ms = "[(''address'', JString ''::1''), (''port'', JInt 65537), (''threadNum'', JInt 8)]"
  let ?S = "(newServerImpl (newServerState 0 0 0 ''any''))\<lparr>sv_settings := Some (JObject [(''server'', JObject ?ms)])\<rparr>"
  have s: "sv_settings ?S = Some (JObject [(''server'', JObject ?ms)])"
      "map_of [(''server'', JObject ?ms)] ''server'' = Some (JObject ?ms)" by simp_all
  have c: "ss_addressStr (configured ?ms (sv_state ?S)) = ''::1''" "ss_portInt (configured ?ms (sv_state ?S)) = 65537"
    by (simp_all add: configured_def newServerImpl_def newServerState_def as_string_def as_int_def c_str_def
        int_ok_def)
  have m: "(Inr (ss_addressStr (configured ?ms (sv_state ?S))) :: string res) = Inr ''::1''" by (simp only: c)
  have "sv_threads ?S = 0" by (simp add: newServerImpl_def)
  have h: "(0 :: nat) < 2 ^ 31" by simp
  have "\<exists>S'. server_run (\<lambda>s. Inr s) 0 ?S = Inr (0, S') \<and> sv_threads S' = sv_threads ?S + 0 \<and>
      sv_ioHint S' = Some (int 0) \<and>
      sv_listening S' = Some (''::1'', nat (ss_portInt (configured ?ms (sv_state ?S)) mod 65536))"
    by (rule run_threads_and_endpoint [where make_address = "\<lambda>s. Inr s", OF s m h])
  then obtain S' where "server_run (\<lambda>s. Inr s) 0 ?S = Inr (0, S')" "sv_threads S' = sv_threads ?S + 0"
      "sv_listening S' = Some (''::1'', nat (ss_portInt (configured ?ms (sv_state ?S)) mod 65536))"
    by (elim exE conjE) (rule that)
  then show ?thesis unfolding c(2) \<open>sv_threads ?S = 0\<close> by (intro exI [of _ S'] conjI) simp_all
qed

text \<open>
  \<open>ServerImpl::run\<close> starts listening even when the settings name no server: it
  returns 0 and uses the address and port the state happens to hold.
\<close>

theorem run_ignores_settings_error:
  assumes "extractSettings make_address (sv_settings S) (sv_state S) = Inr (-1, s)"
  shows "\<exists>S'. server_run make_address hardware S = Inr (0, S') \<and>
    sv_listening S' = Some (ss_address (sv_state S), ss_port (sv_state S))"
proof -
  have "s = sv_state S"
    using assms by (auto simp: extractSettings_def Let_def bind_res_Inr_iff split: option.splits if_splits)
  with assms show ?thesis by (simp add: server_run_def Let_def)
qed

theorem run_ignores_settings_error_witness:
  "\<exists>S'. server_run (\<lambda>s. Inr s) 4
      ((newServerImpl (newServerState 7 0 0 ''any''))\<lparr>sv_settings := Some JNull\<rparr>) = Inr (0, S') \<and>
    sv_listening S' = Some (''any'', 7)"
proof -
  let ?S = "(newServerImpl (newServerState 7 0 0 ''any''))\<lparr>sv_settings := Some JNull\<rparr>"
  have "extractSettings (\<lambda>s. Inr s) (sv_settings ?S) (sv_state ?S) = Inr (-1, sv_state ?S)"
    by (simp add: extractSettings_def is_object_def)
  from run_ignores_settings_error [OF this, of 4] show ?thesis
    by (simp add: newServerImpl_def newServerState_def)
qed

text \<open>
  A route registered for a path, or for every path, with the method GET or with
  every method, is what answers a request to that path on a new server; any other path
  is answered with 404.
\<close>

theorem single_route_answers:
  assumes "connects_at_back cn" "route_options_of m route_defaults = ro"
    and "ro_method ro = ''GET'' \<or> ro_method ro = ''*''" "ro_function ro = Some h"
    and "parsed L q = Inr r"
  shows "\<exists>S. server_route cn m (newServerImpl s) = Inr (0, S) \<and>
    response_for L (sv_router S) q = bind_res
      (answered L (if ro_path ro = req_path r \<or> ro_path ro = ''*'' then Some [(ro_priority ro, h)] else None) q r)
      (\<lambda>x. Inr (fst x))"
  using assms
  by (auto simp: server_route_def Let_def response_for_def slots_at_fresh newServerImpl_def connect_first)

theorem single_route_answers_witness:
  "\<exists>S. server_route group_insert [(''fn'', RFun (Some (\<lambda>_ _. Inr (''hello'', [])))), (''path'', RString ''/hi'')]
       (newServerImpl (newServerState 0 0 0 ())) = Inr (0, S) \<and>
     response_for example_lib (sv_router S) example_request = Inr (answer_text ''hello'')"
proof -
  let ?m = "[(''fn'', RFun (Some (\<lambda>_ _. Inr (''hello'', [])))), (''path'', RString ''/hi'')]"
  let ?ro = "route_defaults\<lparr>ro_function := Some (Some (\<lambda>_ _. Inr (''hello'', []))), ro_path := ''/hi''\<rparr>"
  obtain r where r: "parsed example_lib example_request = Inr r" "req_path r = ''/hi''"
    using example_parsed by blast
  have ro: "route_options_of ?m route_defaults = ?ro" "ro_method ?ro = ''GET'' \<or> ro_method ?ro = ''*''"
      "ro_function ?ro = Some (Some (\<lambda>_ _. Inr (''hello'', [])))"
    by (simp_all add: route_option_def route_defaults_def)
  show ?thesis
    using single_route_answers [OF group_insert_at_back ro r(1), of "newServerState 0 0 0 ()"] r(2)
      parsed_beast [OF r(1)]
    by (simp add: answered_def call_slot_def Let_def answer_text_def newResponseImpl_def)
qed

text \<open>
  Routes registered with the method POST never answer: every request gets the
  response it would get without the route.
\<close>

theorem post_route_unreachable:
  assumes "ro_method (route_options_of m route_defaults) = ''POST''" "server_route cn m S = Inr (rc, S')"
  shows "response_for L (sv_router S') q = response_for L (sv_router S) q"
  using assms
  by (auto simp: server_route_def Let_def response_for_def slots_at_postAdd split: option.splits)

theorem post_route_unreachable_witness:
  "\<exists>S'. server_route group_insert [(''fn'', RFun None), (''method'', RString ''POST'')]
       ((newServerImpl (newServerState 0 0 0 ()))\<lparr>sv_router := w_router example_world\<rparr>) = Inr (0, S') \<and>
     response_for example_lib (sv_router S') example_request = Inr (answer_text ''hello'')"
proof -
  let ?m = "[(''fn'', RFun None), (''method'', RString ''POST'')]"
  let ?S = "(newServerImpl (newServerState 0 0 0 ()))\<lparr>sv_router := w_router example_world\<rparr>"
  have p: "ro_method (route_options_of ?m route_defaults) = ''POST''"
    by (simp add: route_option_def route_defaults_def)
  obtain S' where "server_route group_insert ?m ?S = Inr (0, S')"
    by (simp add: server_route_def route_option_def route_defaults_def Let_def)
  with post_route_unreachable [OF p this, of example_lib example_request] show ?thesis
    by (simp add: example_response)
qed

text \<open>
  C32. The accept loop starts only after all four set-up operations succeeded; from then
  on it spawns one coroutine for every successful accept, keeps every connection it
  ever accepted and survives failed accepts.  A failed set-up ends it with no connection.
\<close>

theorem listener_accounting:
  "(let l = listener_run W newListener evs; accepts = filter id (drop 4 evs) in
    ln_spawned l = length (ln_connectionList l) \<and>
    (if take 4 evs = [True, True, True, True]
     then ln_phase l = Accepting \<and> ln_connectionList l = replicate (length accepts) (newConnection W)
     else ln_connectionList l = [] \<and> ln_phase l \<noteq> Accepting))"
proof (cases "take 4 evs = [True, True, True, True]")
  case True
  then obtain rest where "evs = True # True # True # True # rest"
    by (metis append_Cons append_Nil append_take_drop_id)
  then show ?thesis
    by (simp add: listener_step_def newListener_def listener_accepting Let_def)
next
  case False
  have "ln_connectionList (listener_run W newListener evs) = [] \<and> ln_phase (listener_run W newListener evs) \<noteq> Accepting \<and>
      ln_spawned (listener_run W newListener evs) = 0"
    using False
    by (cases evs rule: first_four_cases)
       (auto simp: listener_step_def newListener_def listener_returned)
  with False show ?thesis by (simp add: Let_def)
qed

end
