(* ===== verification/Serving.thy ===== *)
theory Serving
  imports Server
begin

text \<open>
  A running server: the listener of \<open>src/core/ServerListener.cpp\<close> and the coroutines of
  \<open>src/core/ServerConnection.cpp\<close> that it spawned, on one I/O context run by one thread.
  The coroutines share the route table and the objects of the requests; each runs from
  one asynchronous operation to the next before another one does.  An exception that
  leaves a coroutine leaves \<open>ServerImpl::runIoContext\<close> as well, which is the body of a
  thread, and so ends the process.  What several threads do within one dispatch is the
  subject of \<open>Threads\<close>.
\<close>

section \<open>The server as a state machine\<close>

record serving =
  sr_listener :: listener
  sr_world :: world

datatype serving_event =
    Acceptor bool
  | Peer nat io_event

abbreviation connections :: "serving \<Rightarrow> connection list" where
  "connections S \<equiv> ln_connectionList (sr_listener S)"

definition serving_start :: "world \<Rightarrow> serving" where
  "serving_start W = \<lparr>sr_listener = newListener, sr_world = W\<rparr>"

definition crashed :: "connection \<Rightarrow> bool" where
  "crashed C \<longleftrightarrow> (case cn_phase C of Crashed _ \<Rightarrow> True | _ \<Rightarrow> False)"

definition terminated :: "serving \<Rightarrow> bool" where
  "terminated S \<longleftrightarrow> list_ex crashed (connections S)"

text \<open>
  One event: the result of the operation the listener waits for, or of the operation
  the coroutine of connection \<open>i\<close> waits for.  \<open>None\<close>: the event cannot happen, because the
  process has ended or there is no such connection.
\<close>

definition serving_step :: "lib \<Rightarrow> serving \<Rightarrow> serving_event \<Rightarrow> serving option" where
  "serving_step L S ev =
     (if terminated S then None
      else
        (case ev of
           Acceptor ok \<Rightarrow> Some (S\<lparr>sr_listener := listener_step (sr_world S) (sr_listener S) ok\<rparr>)
         | Peer i io \<Rightarrow>
             if i < length (connections S) then
               let C = conn_step L ((connections S ! i)\<lparr>cn_world := sr_world S\<rparr>) io
               in Some \<lparr>sr_listener = (sr_listener S)\<lparr>ln_connectionList := (connections S)[i := C]\<rparr>,
                        sr_world = cn_world C\<rparr>
             else None))"

fun serving_run :: "lib \<Rightarrow> serving \<Rightarrow> serving_event list \<Rightarrow> serving option" where
  "serving_run L S [] = Some S"
| "serving_run L S (ev # evs) = Option.bind (serving_step L S ev) (\<lambda>S1. serving_run L S1 evs)"

text \<open>The events of one connection in a run.\<close>

fun own_events :: "nat \<Rightarrow> serving_event list \<Rightarrow> io_event list" where
  "own_events i [] = []"
| "own_events i (Acceptor ok # evs) = own_events i evs"
| "own_events i (Peer j io # evs) = (if j = i then io # own_events i evs else own_events i evs)"

section \<open>Connections that cannot be told apart\<close>

text \<open>
  Two connections are alike when they are at the same point, have written the same and
  would be answered the same; the other objects of the server do not matter.
\<close>

definition alike :: "lib \<Rightarrow> connection \<Rightarrow> connection \<Rightarrow> bool" where
  "alike L C D \<longleftrightarrow> cn_phase C = cn_phase D \<and> cn_written C = cn_written D \<and>
     response_for L (w_router (cn_world C)) = response_for L (w_router (cn_world D))"

lemma alike_refl [simp]: "alike L C C"
  by (simp add: alike_def)

lemma alike_trans [trans]: "alike L C D \<Longrightarrow> alike L D E \<Longrightarrow> alike L C E"
  by (simp add: alike_def)

lemma conn_step_routes:
  "response_for L (w_router (cn_world (conn_step L C ev))) = response_for L (w_router (cn_world C))"
  by (cases "cn_phase C"; cases ev)
     (auto simp: conn_step_def on_read_def split: sum.splits dest: cs.serve_same)

lemma alike_on_read:
  assumes "alike L C D"
  shows "alike L (on_read L q C) (on_read L q D)"
proof (cases "response_for L (w_router (cn_world C)) q")
  case (Inl e)
  with assms have "process_request L q (cn_world C) = Inl e" "process_request L q (cn_world D) = Inl e"
    by (auto simp: alike_def intro: cs.serve_error)
  with assms show ?thesis by (simp add: on_read_def alike_def)
next
  case (Inr x)
  then have "response_for L (w_router (cn_world D)) q = Inr x"
    using assms by (simp add: alike_def)
  then obtain W where W: "process_request L q (cn_world D) = Inr (x, W)"
    using cs.serve_answer by blast
  obtain V where V: "process_request L q (cn_world C) = Inr (x, V)"
    using cs.serve_answer [OF Inr] by blast
  show ?thesis
    using assms cs.serve_same [OF V] cs.serve_same [OF W]
    unfolding on_read_def V W by (simp add: alike_def)
qed

lemma alike_step:
  assumes "alike L C D"
  shows "alike L (conn_step L C ev) (conn_step L D ev)"
proof (cases "\<exists>q. cn_phase D = Reading \<and> ev = ReadRequest q")
  case True
  with assms alike_on_read [OF assms] show ?thesis
    by (auto simp: conn_step_def) (simp add: alike_def)
next
  case False
  with assms show ?thesis
    by (cases "cn_phase D"; cases ev) (simp_all add: conn_step_def alike_def)
qed

lemma alike_run: "alike L C D \<Longrightarrow> alike L (conn_run L C evs) (conn_run L D evs)"
  by (induction evs arbitrary: C D) (simp_all add: alike_step)

section \<open>The run seen from one connection\<close>

text \<open>Connection \<open>i\<close> in the world of the server, new when it is still to be accepted.\<close>

definition connection_at :: "serving \<Rightarrow> nat \<Rightarrow> connection" where
  "connection_at S i =
     (if i < length (connections S) then (connections S ! i)\<lparr>cn_world := sr_world S\<rparr>
      else newConnection (sr_world S))"

lemma listener_step_connections:
  "ln_connectionList (listener_step W l ok) =
     ln_connectionList l @ (if ln_phase l = Accepting \<and> ok then [newConnection W] else [])"
  by (simp add: listener_step_def split: listener_phase.splits)

lemma connection_at_accept:
  "connection_at (S\<lparr>sr_listener := listener_step (sr_world S) (sr_listener S) ok\<rparr>) i = connection_at S i"
  by (auto simp: connection_at_def listener_step_connections nth_append newConnection_def)

lemma alike_other_world:
  "response_for L (w_router V) = response_for L (w_router (cn_world C)) \<Longrightarrow> alike L (C\<lparr>cn_world := V\<rparr>) C"
  by (simp add: alike_def)

lemma serving_step_at:
  assumes "serving_step L S ev = Some S1"
  shows "alike L (connection_at S1 i) (conn_run L (connection_at S i) (own_events i [ev]))"
proof (cases ev)
  case (Acceptor ok)
  with assms show ?thesis
    by (auto simp: serving_step_def connection_at_accept split: if_splits)
next
  case (Peer j io)
  let ?C = "(connections S ! j)\<lparr>cn_world := sr_world S\<rparr>"
  let ?D = "conn_step L ?C io"
  from assms Peer have j: "j < length (connections S)"
    and S1: "connections S1 = (connections S)[j := ?D]" "sr_world S1 = cn_world ?D"
    by (auto simp: serving_step_def Let_def split: if_splits)
  have same: "response_for L (w_router (cn_world ?D)) = response_for L (w_router (sr_world S))"
    by (simp add: conn_step_routes)
  show ?thesis
  proof (cases "j = i")
    case True
    with j S1 Peer show ?thesis by (simp add: connection_at_def alike_def)
  next
    case False
    then have "connection_at S1 i = (connection_at S i)\<lparr>cn_world := cn_world ?D\<rparr>"
      using j S1 by (auto simp: connection_at_def newConnection_def)
    with False Peer same show ?thesis
      by (simp add: alike_other_world connection_at_def newConnection_def)
  qed
qed

lemma own_events_Cons: "own_events i (ev # evs) = own_events i [ev] @ own_events i evs"
  by (cases ev) simp_all

lemma serving_run_at:
  "serving_run L S evs = Some S' \<Longrightarrow>
     alike L (connection_at S' i) (conn_run L (connection_at S i) (own_events i evs))"
proof (induction evs arbitrary: S)
  case Nil
  then show ?case by simp
next
  case (Cons ev evs)
  then obtain S1 where S1: "serving_step L S ev = Some S1" "serving_run L S1 evs = Some S'"
    by (auto simp: bind_eq_Some_conv)
  have "alike L (connection_at S' i) (conn_run L (connection_at S1 i) (own_events i evs))"
    by (rule Cons.IH) (rule S1)
  also have "alike L \<dots> (conn_run L (conn_run L (connection_at S i) (own_events i [ev])) (own_events i evs))"
    by (rule alike_run) (rule serving_step_at [OF S1(1)])
  finally show ?case
    by (simp only: own_events_Cons [of i ev evs] conn_run_append)
qed

text \<open>A connection that was accepted in the run, whatever the other connections do.\<close>

lemma serving_run_connection:
  assumes "serving_run L (serving_start W) evs = Some S" "i < length (connections S)"
  shows "cn_phase (connections S ! i) = cn_phase (conn_run L (newConnection W) (own_events i evs))"
    and "cn_written (connections S ! i) = cn_written (conn_run L (newConnection W) (own_events i evs))"
proof -
  have "connection_at (serving_start W) i = newConnection W"
    by (simp add: connection_at_def serving_start_def newListener_def)
  with serving_run_at [OF assms(1), of i] assms(2)
  show "cn_phase (connections S ! i) = cn_phase (conn_run L (newConnection W) (own_events i evs))"
    "cn_written (connections S ! i) = cn_written (conn_run L (newConnection W) (own_events i evs))"
    by (simp_all add: alike_def connection_at_def)
qed

definition whole_session :: "http_request list \<Rightarrow> io_event list" where
  "whole_session qs = Handshaken True # concat (map request_round qs) @ [ReadEof, ShutDown True]"

lemma serving_pipeline:
  assumes "serving_run L (serving_start W) evs = Some S" "i < length (connections S)"
    and "own_events i evs = whole_session qs"
    and "\<forall>q \<in> set qs. accepted q \<and> response_for L (w_router W) q = Inr (f q)"
  shows "cn_phase (connections S ! i) = Returned 0 \<and> cn_written (connections S ! i) = map f qs"
  using serving_run_connection [OF assms(1,2)] pipeline_run [OF assms(4)] assms(3)
  by (simp add: whole_session_def Let_def del: conn_run_Cons concat.simps)

section \<open>When the process ends\<close>

lemma conn_step_crashed:
  assumes "\<not> crashed C"
  shows "crashed (conn_step L C ev) \<longleftrightarrow>
    (\<exists>q e. cn_phase C = Reading \<and> ev = ReadRequest q \<and> accepted q \<and>
      response_for L (w_router (cn_world C)) q = Inl e)"
proof (cases "\<exists>q. cn_phase C = Reading \<and> ev = ReadRequest q \<and> accepted q")
  case True
  then obtain q where q: "cn_phase C = Reading" "ev = ReadRequest q" "accepted q" by blast
  show ?thesis
  proof (cases "response_for L (w_router (cn_world C)) q")
    case (Inl e)
    with q show ?thesis
      by (simp add: conn_step_def on_read_def accepted_def cs.serve_error crashed_def)
  next
    case (Inr x)
    then obtain W where "process_request L q (cn_world C) = Inr (x, W)"
      using cs.serve_answer by blast
    with q Inr show ?thesis
      by (simp add: conn_step_def on_read_def accepted_def crashed_def)
  qed
next
  case False
  with assms show ?thesis
    by (cases "cn_phase C"; cases ev)
       (auto simp: conn_step_def on_read_def accepted_def crashed_def)
qed

lemma terminated_update:
  assumes "\<not> list_ex crashed Cs" "i < length Cs"
  shows "list_ex crashed (Cs[i := C]) \<longleftrightarrow> crashed C"
  using assms set_update_memI [OF assms(2)] set_update_subset_insert [of Cs i C]
  by (fastforce simp: list_ex_iff)

lemma listener_step_crashed:
  "list_ex crashed (ln_connectionList (listener_step W l ok)) \<longleftrightarrow> list_ex crashed (ln_connectionList l)"
  by (simp add: listener_step_connections crashed_def newConnection_def)

lemma serving_step_terminated:
  assumes "serving_step L S ev = Some S1"
  shows "terminated S1 \<longleftrightarrow>
    (\<exists>i q e. ev = Peer i (ReadRequest q) \<and> cn_phase (connections S ! i) = Reading \<and> accepted q \<and>
      response_for L (w_router (sr_world S)) q = Inl e)"
proof (cases ev)
  case (Acceptor ok)
  with assms show ?thesis
    by (auto simp: serving_step_def terminated_def listener_step_crashed split: if_splits)
next
  case (Peer i io)
  let ?C = "(connections S ! i)\<lparr>cn_world := sr_world S\<rparr>"
  from assms Peer have S: "\<not> list_ex crashed (connections S)" "i < length (connections S)"
    and S1: "connections S1 = (connections S)[i := conn_step L ?C io]"
    by (auto simp: serving_step_def terminated_def Let_def split: if_splits)
  then have "\<not> crashed ?C"
    by (auto simp: list_ex_iff crashed_def)
  from conn_step_crashed [OF this, of L io] S S1 Peer show ?thesis
    by (auto simp: terminated_def terminated_update)
qed

lemma serving_step_routes:
  "serving_step L S ev = Some S1 \<Longrightarrow>
     response_for L (w_router (sr_world S1)) = response_for L (w_router (sr_world S)) \<and>
     length (connections S) \<le> length (connections S1)"
  by (auto simp: serving_step_def Let_def conn_step_routes listener_step_connections
      split: if_splits serving_event.splits)

text \<open>A server whose requests are all answered goes on.\<close>

lemma serving_run_survives:
  assumes "\<not> terminated S"
    and "\<forall>i io. Peer i io \<in> set evs \<longrightarrow> i < length (connections S)"
    and "\<forall>i q. Peer i (ReadRequest q) \<in> set evs \<longrightarrow> accepted q \<longrightarrow>
      (\<exists>x. response_for L (w_router (sr_world S)) q = Inr x)"
  shows "\<exists>S'. serving_run L S evs = Some S' \<and> \<not> terminated S' \<and> length (connections S) \<le> length (connections S')"
  using assms
proof (induction evs arbitrary: S)
  case Nil
  then show ?case by simp
next
  case (Cons ev evs)
  have "\<exists>S1. serving_step L S ev = Some S1"
    using Cons.prems(1,2) by (cases ev) (auto simp: serving_step_def Let_def)
  then obtain S1 where S1: "serving_step L S ev = Some S1" by blast
  have "\<not> terminated S1"
    using serving_step_terminated [OF S1] Cons.prems(3) by fastforce
  moreover note r = serving_step_routes [OF S1]
  ultimately have "\<exists>S'. serving_run L S1 evs = Some S' \<and> \<not> terminated S' \<and>
      length (connections S1) \<le> length (connections S')"
    using Cons.prems(2,3) by (intro Cons.IH) (auto intro: less_le_trans)
  with S1 r show ?case by auto
qed

lemma serving_run_append:
  "serving_run L S (evs @ fvs) = Option.bind (serving_run L S evs) (\<lambda>S1. serving_run L S1 fvs)"
  by (induction evs arbitrary: S) (simp_all add: Option.bind_assoc)

lemma serving_accepts:
  "\<not> list_ex crashed (ln_connectionList l) \<Longrightarrow>
     serving_run L \<lparr>sr_listener = l, sr_world = W\<rparr> (map Acceptor oks) =
       Some \<lparr>sr_listener = listener_run W l oks, sr_world = W\<rparr>"
  by (induction oks arbitrary: l) (simp_all add: serving_step_def terminated_def listener_step_crashed)

section \<open>A run with two connections\<close>

definition accepts_two :: "serving_event list" where
  "accepts_two = map Acceptor [True, True, True, True, True, False, True]"

definition two_sessions :: "http_request \<Rightarrow> serving_event list" where
  "two_sessions q =
     [Peer 0 (Handshaken True), Peer 1 (Handshaken True), Peer 1 (ReadRequest q), Peer 0 (ReadRequest q),
      Peer 0 (Written True), Peer 1 (Written True), Peer 1 ReadEof, Peer 1 (ShutDown True),
      Peer 0 ReadEof, Peer 0 (ShutDown True)]"

lemma two_sessions_own:
  "own_events 0 (accepts_two @ two_sessions q) = whole_session [q]"
  "own_events 1 (accepts_two @ two_sessions q) = whole_session [q]"
  by (simp_all add: accepts_two_def two_sessions_def whole_session_def request_round_def)

definition two_connections :: "world \<Rightarrow> serving" where
  "two_connections W = \<lparr>sr_listener = \<lparr>ln_phase = Accepting,
     ln_connectionList = [newConnection W, newConnection W], ln_spawned = 2\<rparr>, sr_world = W\<rparr>"

lemma two_accepted: "serving_run L (serving_start W) accepts_two = Some (two_connections W)"
proof -
  have "listener_run W newListener [True, True, True, True, True, False, True] = sr_listener (two_connections W)"
    by (simp add: newListener_def listener_step_def two_connections_def)
  moreover have "\<not> list_ex crashed (ln_connectionList newListener)"
    by (simp add: newListener_def)
  note serving_accepts [OF this, of L W "[True, True, True, True, True, False, True]"]
  ultimately show ?thesis
    unfolding serving_start_def accepts_two_def by (simp add: two_connections_def)
qed

lemma two_connections_running:
  "\<not> terminated (two_connections W)" "length (connections (two_connections W)) = 2"
  "w_router (sr_world (two_connections W)) = w_router W"
  by (simp_all add: terminated_def crashed_def newConnection_def two_connections_def)

lemma two_sessions_run:
  assumes "response_for L (w_router W) q = Inr x"
  shows "\<exists>S. serving_run L (serving_start W) (accepts_two @ two_sessions q) = Some S \<and> 2 \<le> length (connections S)"
proof -
  have "\<exists>S'. serving_run L (two_connections W) (two_sessions q) = Some S' \<and> \<not> terminated S' \<and>
      length (connections (two_connections W)) \<le> length (connections S')"
    using assms
    by (intro serving_run_survives) (auto simp: two_connections_running two_sessions_def)
  then show ?thesis
    by (auto simp: serving_run_append two_accepted two_connections_running)
qed

section \<open>Properties\<close>

text \<open>
  However the listener and the coroutines of any number of connections take
  turns, a connection is at the same point and has written the same responses as if it were
  the only one: only the events of its own peer count.
\<close>

theorem connections_isolated:
  assumes "serving_run L (serving_start W) evs = Some S" "i < length (connections S)"
  shows "let C = connections S ! i; D = conn_run L (newConnection W) (own_events i evs) in
    cn_phase C = cn_phase D \<and> cn_written C = cn_written D"
  using serving_run_connection [OF assms] by (simp add: Let_def)

theorem connections_isolated_witness:
  "\<exists>S. serving_run example_lib (serving_start example_world) (accepts_two @ two_sessions example_request) = Some S \<and>
     cn_written (connections S ! 1) = [answer_text ''hello'']"
proof -
  obtain S where S: "serving_run example_lib (serving_start example_world) (accepts_two @ two_sessions example_request) = Some S"
      "2 \<le> length (connections S)"
    using two_sessions_run [OF example_response] by blast
  from S(2) have "1 < length (connections S)" by simp
  from connections_isolated [OF S(1) this] two_sessions_own(2)
  have "cn_written (connections S ! 1) =
      cn_written (conn_run example_lib (newConnection example_world) (whole_session [example_request]))"
    by (simp only: Let_def One_nat_def)
  also have "\<dots> = [answer_text ''hello'']"
    using pipeline_run [of "[example_request]" example_lib example_world "\<lambda>_. answer_text ''hello''"]
    by (simp add: example_response example_accepted Let_def whole_session_def del: conn_run_Cons concat.simps)
  finally show ?thesis using S(1) by blast
qed

text \<open>
  The process ends exactly when a coroutine that is reading gets an acceptable
  request whose parsing or whose handlers throw; then no other connection, and not the
  listener, takes another step.  Every other event leaves the server running.
\<close>

theorem server_ends_exactly:
  assumes "serving_step L S ev = Some S1"
  shows "(terminated S1 \<longleftrightarrow>
      (\<exists>i q e. ev = Peer i (ReadRequest q) \<and> cn_phase (connections S ! i) = Reading \<and> accepted q \<and>
        response_for L (w_router (sr_world S)) q = Inl e)) \<and>
    (terminated S1 \<longleftrightarrow> (\<forall>ev'. serving_step L S1 ev' = None))"
proof
  show "terminated S1 \<longleftrightarrow>
      (\<exists>i q e. ev = Peer i (ReadRequest q) \<and> cn_phase (connections S ! i) = Reading \<and> accepted q \<and>
        response_for L (w_router (sr_world S)) q = Inl e)"
    by (rule serving_step_terminated) (rule assms)
  show "terminated S1 \<longleftrightarrow> (\<forall>ev'. serving_step L S1 ev' = None)"
  proof
    assume "\<forall>ev'. serving_step L S1 ev' = None"
    then have "serving_step L S1 (Acceptor True) = None" by blast
    then show "terminated S1" by (simp add: serving_step_def split: if_splits)
  qed (simp add: serving_step_def)
qed

theorem server_ends_exactly_witness:
  "\<exists>S1 S2. serving_step example_lib (two_connections example_world) (Peer 0 (Handshaken True)) = Some S1 \<and>
     serving_step example_lib S1 (Peer 0 (ReadRequest malformed_request)) = Some S2 \<and>
     (\<forall>ev. serving_step example_lib S2 ev = None)"
proof -
  obtain S1 where S1: "serving_step example_lib (two_connections example_world) (Peer 0 (Handshaken True)) = Some S1"
    by (simp add: serving_step_def two_connections_running Let_def)
  from serving_step_terminated [OF S1] have "\<not> terminated S1" by simp
  have c: "0 < length (connections S1)" "cn_phase (connections S1 ! 0) = Reading"
    using S1 by (auto simp: serving_step_def two_connections_def terminated_def crashed_def newConnection_def
        conn_step_def Let_def)
  with \<open>\<not> terminated S1\<close>
  obtain S2 where S2: "serving_step example_lib S1 (Peer 0 (ReadRequest malformed_request)) = Some S2"
    by (simp add: serving_step_def Let_def)
  have "response_for example_lib (w_router (sr_world S1)) malformed_request = Inl InvalidPart"
    by (simp add: response_for_def malformed_parsed)
  with server_ends_exactly [OF S2] c(2) malformed_accepted S1 S2 show ?thesis by blast
qed

end
