(* ===== verification/Threads.thy ===== *)
theory Threads
  imports Serving
begin

text \<open>
  The server on several threads: between the reading of a request and the writing of its
  response a coroutine runs the statements of \<open>Connection::run\<close>, \<open>RouteImpl::doSignal\<close> and
  \<open>RouteCombiner::operator()\<close>, and the coroutines on the other threads of the pool run
  theirs in between.  The route table is shared, so is the combiner of each signal.  A
  call of a signal works on the combiner and the slots it finds when it starts.
\<close>

section \<open>The statements of one request\<close>

text \<open>
  Where a coroutine is in \<open>doSignal\<close>: before the lookup, before \<open>set_combiner\<close>, before the
  call of the signal, in the loop of the combiner, with the body, and after the return.
  In the loop it is before a slot, before the check of \<open>writableEnded\<close>, or before the body of
  the ended response is read.  The handler itself is one statement.
\<close>

datatype dispatch_phase =
    Locate
  | SetCombiner found
  | CallSignal found
  | InCall "nat option" slots string
  | CheckEnded "nat option" slots string
  | ReadBody nat
  | Fill string
  | Finish rc

text \<open>The request and the response with the number \<open>k\<close>.\<close>

definition put_objects :: "nat \<Rightarrow> request_impl \<times> response_impl \<Rightarrow> world \<Rightarrow> world" where
  "put_objects k s W = W\<lparr>w_store := (w_store W)(k := s)\<rparr>"

lemma put_objects_simps [simp]:
  "w_store (put_objects k s W) = (w_store W)(k := s)"
  "w_router (put_objects k s W) = w_router W" "w_next (put_objects k s W) = w_next W"
  "put_objects k s (put_objects k t W) = put_objects k s W"
  "put_objects k (w_store W k) W = W"
  by (simp_all add: put_objects_def)

text \<open>The objects of an accepted request, up to the call of \<open>doGetSignal\<close>.\<close>

definition begin_request :: "lib \<Rightarrow> http_request \<Rightarrow> world \<Rightarrow> (nat \<times> world) res" where
  "begin_request L reqBeast W =
     bind_res (newRequestImpl L) (\<lambda>reqImpl0.
     bind_res (parseRequest L (snd (req_setRequest (Some reqBeast) reqImpl0))) (\<lambda>(_, reqImpl).
       let i = w_next W;
           resImpl = snd (res_setResponse (Some fresh_response) newResponseImpl)
       in Inr (i, (put_objects i (reqImpl, resImpl) W)\<lparr>w_next := Suc i\<rparr>)))"

definition signal_at :: "found \<Rightarrow> router \<Rightarrow> signal option" where
  "signal_at f R =
     (case f of
        InMethod p \<Rightarrow> smap_find (routeGetMap R) p
      | InAll p \<Rightarrow> smap_find (routeAllMap R) p
      | NotFound \<Rightarrow> None)"

definition mark_signal :: "nat \<Rightarrow> found \<Rightarrow> router \<Rightarrow> router" where
  "mark_signal k f R =
     (case f of
        InMethod p \<Rightarrow> R\<lparr>routeGetMap := smap_update p (set_combiner k) (routeGetMap R)\<rparr>
      | InAll p \<Rightarrow> R\<lparr>routeAllMap := smap_update p (set_combiner k) (routeAllMap R)\<rparr>
      | NotFound \<Rightarrow> R)"

datatype tick_result =
    Goes dispatch_phase
  | Responds http_response
  | Throws exn

text \<open>One slot of the call, and the check of the combiner with the response that it holds.\<close>

definition call_tick ::
  "lib \<Rightarrow> nat \<Rightarrow> nat option \<Rightarrow> handler option \<Rightarrow> slots \<Rightarrow> world \<Rightarrow> tick_result \<times> world" where
  "call_tick L k c h rest W =
     (case call_slot L h (w_store W k) of
        Inl e \<Rightarrow> (Throws e, W)
      | Inr (v, s) \<Rightarrow> (Goes (CheckEnded c rest v), put_objects k s W))"

definition check_tick :: "nat option \<Rightarrow> slots \<Rightarrow> string \<Rightarrow> world \<Rightarrow> tick_result" where
  "check_tick c rest v W =
     (case c of
        None \<Rightarrow> Throws NullDereference
      | Some j \<Rightarrow> if res_writableEnded (snd (w_store W j)) then Goes (ReadBody j) else Goes (InCall c rest v))"

text \<open>After \<open>doGetSignal\<close>: the response of a missing route, and the response to be written.\<close>

definition finish_tick :: "lib \<Rightarrow> nat \<Rightarrow> rc \<Rightarrow> world \<Rightarrow> tick_result \<times> world" where
  "finish_tick L k rc W =
     (case res_getResponse (snd (w_store W k)) of
        None \<Rightarrow> (Throws NullDereference, W)
      | Some resBeast \<Rightarrow>
          (case req_getRequest (fst (w_store W k)) of
             None \<Rightarrow> (Throws NullDereference, W)
           | Some req1 \<Rightarrow>
               let resBeast1 = (if rc < 0
                     then snd (notFound L req1 resBeast (req_path (fst (w_store W k)))) else resBeast)
               in (Responds resBeast1, put_objects k (fst (w_store W k),
                     snd (res_parseResponse ((snd (w_store W k))\<lparr>rp_beast := Some resBeast1\<rparr>))) W)))"

definition tick :: "lib \<Rightarrow> nat \<Rightarrow> dispatch_phase \<Rightarrow> world \<Rightarrow> tick_result \<times> world" where
  "tick L k ph W =
     (case ph of
        Locate \<Rightarrow>
          (case find_signal (req_path (fst (w_store W k))) (routeGetMap (w_router W)) (routeAllMap (w_router W)) of
             NotFound \<Rightarrow> (Goes (Finish (-1)), W)
           | f \<Rightarrow> (Goes (SetCombiner f), W))
      | SetCombiner f \<Rightarrow> (Goes (CallSignal f), W\<lparr>w_router := mark_signal k f (w_router W)\<rparr>)
      | CallSignal f \<Rightarrow>
          (case signal_at f (w_router W) of
             None \<Rightarrow> (Throws NullDereference, W)
           | Some g \<Rightarrow> (Goes (InCall (sg_combiner g) (sg_slots g) []), W))
      | InCall c [] v \<Rightarrow> (Goes (Fill v), W)
      | InCall c ((p, h) # rest) v \<Rightarrow> call_tick L k c h rest W
      | CheckEnded c rest v \<Rightarrow> (check_tick c rest v W, W)
      | ReadBody j \<Rightarrow> (Goes (Fill (res_body (snd (w_store W j)))), W)
      | Fill v \<Rightarrow>
          (case answer L v k (w_store W) of
             Inl e \<Rightarrow> (Throws e, W)
           | Inr (rc, st) \<Rightarrow> (Goes (Finish rc), W\<lparr>w_store := st\<rparr>))
      | Finish rc \<Rightarrow> finish_tick L k rc W)"

section \<open>The pool\<close>

text \<open>
  The server with the requests in progress: for each connection the number of the
  objects and the statement it is at.  \<open>po_foreign\<close> is not part of the program: it collects
  the connections one of whose calls took a combiner that another request had set.
\<close>

record pool =
  po_serving :: serving
  po_tasks :: "nat \<Rightarrow> (nat \<times> dispatch_phase) option"
  po_foreign :: "nat set"

datatype pool_event =
    Outside serving_event
  | Tick nat

definition pool_start :: "world \<Rightarrow> pool" where
  "pool_start W = \<lparr>po_serving = serving_start W, po_tasks = (\<lambda>_. None), po_foreign = {}\<rparr>"

definition set_connection :: "nat \<Rightarrow> connection \<Rightarrow> serving \<Rightarrow> serving" where
  "set_connection i C S = \<lparr>sr_listener = (sr_listener S)\<lparr>ln_connectionList := (connections S)[i := C]\<rparr>,
     sr_world = cn_world C\<rparr>"

definition takes_foreign :: "nat \<Rightarrow> dispatch_phase \<Rightarrow> dispatch_phase \<Rightarrow> bool" where
  "takes_foreign k ph ph' \<longleftrightarrow> (case (ph, ph') of (CallSignal _, InCall c _ _) \<Rightarrow> c \<noteq> Some k | _ \<Rightarrow> False)"

text \<open>An accepted request starts a dispatch; every other result is handled at once.\<close>

definition accepted_read :: "connection \<Rightarrow> io_event \<Rightarrow> http_request option" where
  "accepted_read C io =
     (case io of
        ReadRequest q \<Rightarrow> if cn_phase C = Reading \<and> accepted q then Some q else None
      | _ \<Rightarrow> None)"

definition pool_outside :: "lib \<Rightarrow> serving_event \<Rightarrow> pool \<Rightarrow> pool option" where
  "pool_outside L ev P = map_option (\<lambda>S. P\<lparr>po_serving := S\<rparr>) (serving_step L (po_serving P) ev)"

definition pool_read :: "lib \<Rightarrow> nat \<Rightarrow> http_request \<Rightarrow> pool \<Rightarrow> pool" where
  "pool_read L i q P =
     (let S = po_serving P in
      case begin_request L q (sr_world S) of
        Inl e \<Rightarrow> P\<lparr>po_serving := set_connection i
            ((connections S ! i)\<lparr>cn_world := sr_world S, cn_phase := Crashed e\<rparr>) S\<rparr>
      | Inr (k, W) \<Rightarrow> P\<lparr>po_serving := S\<lparr>sr_world := W\<rparr>, po_tasks := (po_tasks P)(i \<mapsto> (k, Locate))\<rparr>)"

definition pool_tick :: "lib \<Rightarrow> nat \<Rightarrow> nat \<Rightarrow> dispatch_phase \<Rightarrow> pool \<Rightarrow> pool" where
  "pool_tick L i k ph P =
     (let S = po_serving P in
      case tick L k ph (sr_world S) of
        (Goes ph', W) \<Rightarrow> P\<lparr>po_serving := S\<lparr>sr_world := W\<rparr>, po_tasks := (po_tasks P)(i \<mapsto> (k, ph')),
          po_foreign := (if takes_foreign k ph ph' then insert i (po_foreign P) else po_foreign P)\<rparr>
      | (Responds res, W) \<Rightarrow> P\<lparr>po_serving := set_connection i
            ((connections S ! i)\<lparr>cn_phase := Writing res, cn_world := W\<rparr>) S, po_tasks := (po_tasks P)(i := None)\<rparr>
      | (Throws e, W) \<Rightarrow> P\<lparr>po_serving := set_connection i
            ((connections S ! i)\<lparr>cn_world := W, cn_phase := Crashed e\<rparr>) S, po_tasks := (po_tasks P)(i := None)\<rparr>)"

definition pool_step :: "lib \<Rightarrow> pool \<Rightarrow> pool_event \<Rightarrow> pool option" where
  "pool_step L P ev =
     (if terminated (po_serving P) then None
      else
        (case ev of
           Outside (Acceptor ok) \<Rightarrow> pool_outside L (Acceptor ok) P
         | Outside (Peer i io) \<Rightarrow>
             (case po_tasks P i of
                Some _ \<Rightarrow> None
              | None \<Rightarrow>
                  if i < length (connections (po_serving P)) then
                    (case accepted_read (connections (po_serving P) ! i) io of
                       None \<Rightarrow> pool_outside L (Peer i io) P
                     | Some q \<Rightarrow> Some (pool_read L i q P))
                  else None)
         | Tick i \<Rightarrow> map_option (\<lambda>(k, ph). pool_tick L i k ph P) (po_tasks P i)))"

fun pool_run :: "lib \<Rightarrow> pool \<Rightarrow> pool_event list \<Rightarrow> pool option" where
  "pool_run L P [] = Some P"
| "pool_run L P (ev # evs) = Option.bind (pool_step L P ev) (\<lambda>P1. pool_run L P1 evs)"

fun outside_events :: "pool_event list \<Rightarrow> serving_event list" where
  "outside_events [] = []"
| "outside_events (Outside ev # evs) = ev # outside_events evs"
| "outside_events (Tick i # evs) = outside_events evs"

section \<open>Statements run to the end\<close>

text \<open>A dispatch that is not interrupted; none of its calls takes the combiner of another request.\<close>

inductive reaches :: "lib \<Rightarrow> nat \<Rightarrow> dispatch_phase \<Rightarrow> world \<Rightarrow> dispatch_phase \<Rightarrow> world \<Rightarrow> bool" for L k where
  reaches_refl: "reaches L k ph W ph W"
| reaches_step: "tick L k ph W = (Goes ph1, W1) \<Longrightarrow> \<not> takes_foreign k ph ph1 \<Longrightarrow>
    reaches L k ph1 W1 ph2 W2 \<Longrightarrow> reaches L k ph W ph2 W2"

lemma reaches_trans: "reaches L k ph W ph1 W1 \<Longrightarrow> reaches L k ph1 W1 ph2 W2 \<Longrightarrow> reaches L k ph W ph2 W2"
  by (induction rule: reaches.induct) (auto intro: reaches_step)

lemma begin_request_eq:
  "begin_request L q W = bind_res (parsed L q) (\<lambda>r. Inr (w_next W,
     (put_objects (w_next W) (r, newResponseImpl\<lparr>rp_beast := Some fresh_response\<rparr>) W)\<lparr>w_next := Suc (w_next W)\<rparr>))"
  by (cases "newRequestImpl L")
     (auto simp: begin_request_def parsed_def req_setRequest_def res_setResponse_def Let_def bind_res_assoc
       split: prod.splits intro!: arg_cong2 [of _ _ _ _ bind_res])

lemma signal_at_mark_slots:
  "map_option sg_slots (signal_at f (mark_signal k g R)) = map_option sg_slots (signal_at f R)"
  by (auto simp: signal_at_def mark_signal_def smap_find_set_combiner split: found.splits)

lemma signal_at_mark_own:
  "signal_at f (mark_signal k f R) = map_option (set_combiner k) (signal_at f R)"
  by (auto simp: signal_at_def mark_signal_def smap_simps split: found.splits)

lemma selected_signal_at: "selected p (routeGetMap R) (routeAllMap R) =
    signal_at (find_signal p (routeGetMap R) (routeAllMap R)) R"
  by (auto simp: selected_def signal_at_def split: found.splits)

lemma mark_signal_dispatched:
  "mark_signal k (find_signal p (routeGetMap R) (routeAllMap R)) R = dispatched k p R"
  by (cases "find_signal p (routeGetMap R) (routeAllMap R)")
     (simp_all add: mark_signal_def dispatched_def marked_def)

text \<open>The loop of the combiner over the remaining slots, with the own combiner.\<close>

lemma reaches_check:
  assumes "call_slot L h (w_store W k) = Inr (w, s)"
  shows "reaches L k (InCall (Some k) ((p, h) # sl) v) W (CheckEnded (Some k) sl w) (put_objects k s W)"
  using assms
  by (intro reaches_step [OF _ _ reaches_refl]) (simp_all add: tick_def call_tick_def takes_foreign_def)

lemma reaches_slot:
  assumes "call_slot L h (w_store W k) = Inr (w, s)" "\<not> rp_writableEnded (snd s)"
  shows "reaches L k (InCall (Some k) ((p, h) # sl) v) W (InCall (Some k) sl w) (put_objects k s W)"
proof -
  have "tick L k (CheckEnded (Some k) sl w) (put_objects k s W) = (Goes (InCall (Some k) sl w), put_objects k s W)"
    using assms(2) by (simp add: tick_def check_tick_def res_writableEnded_def)
  then have "reaches L k (CheckEnded (Some k) sl w) (put_objects k s W) (InCall (Some k) sl w) (put_objects k s W)"
    by (rule reaches_step [OF _ _ reaches_refl]) (simp add: takes_foreign_def)
  with reaches_check [OF assms(1)] show ?thesis by (rule reaches_trans)
qed

lemma reaches_ended:
  assumes "call_slot L h (w_store W k) = Inr (w, s)" "rp_writableEnded (snd s)"
  shows "reaches L k (InCall (Some k) ((p, h) # sl) v) W (Fill (rp_body (snd s))) (put_objects k s W)"
proof -
  let ?V = "put_objects k s W"
  have "tick L k (CheckEnded (Some k) sl w) ?V = (Goes (ReadBody k), ?V)"
    "tick L k (ReadBody k) ?V = (Goes (Fill (rp_body (snd s))), ?V)"
    using assms(2) by (simp_all add: tick_def check_tick_def res_writableEnded_def res_body_def)
  then have "reaches L k (CheckEnded (Some k) sl w) ?V (Fill (rp_body (snd s))) ?V"
    by (intro reaches_step [OF _ _ reaches_step [OF _ _ reaches_refl]]) (assumption | simp add: takes_foreign_def)+
  with reaches_check [OF assms(1)] show ?thesis by (rule reaches_trans)
qed

lemma reaches_calls:
  "run_handlers L sl v (w_store W k) = Inr (b, s) \<Longrightarrow>
     reaches L k (InCall (Some k) sl v) W (Fill b) (put_objects k s W)"
proof (induction sl arbitrary: v W)
  case Nil
  then have b: "b = v" and eq: "put_objects k s W = W" by auto
  show ?case
    unfolding eq b
    by (rule reaches_step [OF _ _ reaches_refl]) (simp_all add: tick_def takes_foreign_def)
next
  case (Cons a sl)
  obtain p h where a: "a = (p, h)" by (cases a)
  with Cons.prems obtain w s1 where w: "call_slot L h (w_store W k) = Inr (w, s1)"
    and rest: "(if rp_writableEnded (snd s1) then Inr (rp_body (snd s1), s1) else run_handlers L sl w s1) = Inr (b, s)"
    by (auto simp: bind_res_Inr_iff)
  show ?case
  proof (cases "rp_writableEnded (snd s1)")
    case True
    with rest reaches_ended [OF w True] a show ?thesis by auto
  next
    case False
    with rest have "run_handlers L sl w (w_store (put_objects k s1 W) k) = Inr (b, s)" by simp
    from reaches_trans [OF reaches_slot [OF w False] Cons.IH [OF this]] a show ?thesis by simp
  qed
qed

lemma reaches_throw:
  "run_handlers L sl v (w_store W k) = Inl e \<Longrightarrow>
     \<exists>sl' v' W' W''. reaches L k (InCall (Some k) sl v) W (InCall (Some k) sl' v') W' \<and>
       tick L k (InCall (Some k) sl' v') W' = (Throws e, W'')"
proof (induction sl arbitrary: v W)
  case Nil
  then show ?case by simp
next
  case (Cons a sl)
  obtain p h where a: "a = (p, h)" by (cases a)
  show ?case
  proof (cases "call_slot L h (w_store W k)")
    case (Inl e')
    with Cons.prems a have "tick L k (InCall (Some k) (a # sl) v) W = (Throws e, W)"
      by (simp add: tick_def call_tick_def)
    then show ?thesis using reaches_refl by blast
  next
    case (Inr x)
    obtain w s1 where x: "x = (w, s1)" by (cases x)
    with Cons.prems a Inr have n: "\<not> rp_writableEnded (snd s1)" "run_handlers L sl w s1 = Inl e"
      by (auto split: if_splits)
    from n(2) Cons.IH [of w "put_objects k s1 W"] obtain sl' v' W' W'' where
      run: "reaches L k (InCall (Some k) sl w) (put_objects k s1 W) (InCall (Some k) sl' v') W'"
      "tick L k (InCall (Some k) sl' v') W' = (Throws e, W'')"
      by auto
    from reaches_trans [OF reaches_slot [OF Inr [unfolded x] n(1)] run(1)] run(2) a show ?thesis by blast
  qed
qed

text \<open>The whole dispatch of a request that starts with the objects \<open>s\<close>.\<close>

lemma reaches_call:
  assumes "find_signal (req_path (fst (w_store W k))) (routeGetMap (w_router W)) (routeAllMap (w_router W)) = f"
    and "signal_at f (w_router W) = Some g"
  shows "reaches L k Locate W (InCall (Some k) (sg_slots g) []) (W\<lparr>w_router := mark_signal k f (w_router W)\<rparr>)"
proof -
  have "f \<noteq> NotFound" using assms(2) by (auto simp: signal_at_def)
  then have "tick L k Locate W = (Goes (SetCombiner f), W)"
    using assms(1) by (cases f) (simp_all add: tick_def)
  moreover have "tick L k (SetCombiner f) W = (Goes (CallSignal f), W\<lparr>w_router := mark_signal k f (w_router W)\<rparr>)"
    by (simp add: tick_def)
  moreover have "tick L k (CallSignal f) (W\<lparr>w_router := mark_signal k f (w_router W)\<rparr>) =
      (Goes (InCall (Some k) (sg_slots g) []), W\<lparr>w_router := mark_signal k f (w_router W)\<rparr>)"
    using assms(2) by (simp add: tick_def signal_at_mark_own set_combiner_def)
  ultimately show ?thesis
    by (intro reaches_step [OF _ _ reaches_step [OF _ _ reaches_step [OF _ _ reaches_refl]]])
       (assumption | simp add: takes_foreign_def)+
qed

lemma find_signal_none:
  "signal_at (find_signal p m a) R = None \<Longrightarrow> m = routeGetMap R \<Longrightarrow> a = routeAllMap R \<Longrightarrow> find_signal p m a = NotFound"
  by (cases "find_signal p m a") (auto simp: signal_at_def dest: find_signal_selected)

lemma finish_filled:
  assumes "rp_beast (snd s) = Some x" "ri_beast (fst s) \<noteq> None" "w_store W k = s"
  shows "tick L k (Finish 0) W = (Responds x, W)"
proof -
  have "(fst s, (snd s)\<lparr>rp_beast := Some x\<rparr>) = s" using assms(1) by (cases s) simp
  then show ?thesis
    using assms by (auto simp: tick_def finish_tick_def res_getResponse_def req_getRequest_def
        res_parseResponse_def Let_def)
qed

lemma reaches_answer:
  assumes "run_handlers L sl [] s0 = Inr (b, s)" "w_store W k = s0" "ri_beast (fst s0) \<noteq> None"
    and "rp_beast (snd s0) = Some fresh_response" "x = fill_response L 200 (the (ri_beast (fst s))) b fresh_response"
  shows "reaches L k (InCall (Some k) sl []) W (Finish 0) (put_objects k (fst s, (snd s)\<lparr>rp_beast := Some x\<rparr>) W)"
    and "tick L k (Finish 0) (put_objects k (fst s, (snd s)\<lparr>rp_beast := Some x\<rparr>) W) =
      (Responds x, put_objects k (fst s, (snd s)\<lparr>rp_beast := Some x\<rparr>) W)"
proof -
  have s: "ri_beast (fst s) \<noteq> None" "rp_beast (snd s) = Some fresh_response"
    using run_handlers_beast [OF assms(1)] assms(3,4) by auto
  then obtain q where q: "ri_beast (fst s) = Some q" by blast
  let ?s1 = "(fst s, (snd s)\<lparr>rp_beast := Some x\<rparr>)"
  have "answer L b k (w_store (put_objects k s W)) = Inr (0, (w_store (put_objects k s W))(k := ?s1))"
    using s q assms(5) by (simp add: answer_def req_getRequest_def res_getResponse_def)
  moreover have "(put_objects k s W)\<lparr>w_store := (w_store (put_objects k s W))(k := ?s1)\<rparr> = put_objects k ?s1 W"
    by (simp add: put_objects_def)
  ultimately have "tick L k (Fill b) (put_objects k s W) = (Goes (Finish 0), put_objects k ?s1 W)"
    by (simp add: tick_def del: put_objects_simps)
  then have "reaches L k (Fill b) (put_objects k s W) (Finish 0) (put_objects k ?s1 W)"
    by (rule reaches_step [OF _ _ reaches_refl]) (simp add: takes_foreign_def)
  moreover have "reaches L k (InCall (Some k) sl []) W (Fill b) (put_objects k s W)"
    using assms(1,2) by (intro reaches_calls) simp
  ultimately show "reaches L k (InCall (Some k) sl []) W (Finish 0) (put_objects k ?s1 W)"
    by (rule reaches_trans [rotated])
  show "tick L k (Finish 0) (put_objects k ?s1 W) = (Responds x, put_objects k ?s1 W)"
    using s(1) by (intro finish_filled [where s = ?s1]) simp_all
qed

lemma dispatch_reaches:
  assumes "w_store W k = (r, newResponseImpl\<lparr>rp_beast := Some fresh_response\<rparr>)" "ri_beast r = Some q"
    and R: "w_router W = R"
  shows "case answered L (slots_at R (req_path r)) q r of
      Inr (x, s) \<Rightarrow> \<exists>ph W1 W2. reaches L k Locate W ph W1 \<and> tick L k ph W1 = (Responds x, W2) \<and>
        W2 = put_objects k s (W\<lparr>w_router := dispatched k (req_path r) R\<rparr>)
    | Inl e \<Rightarrow> \<exists>ph W1 W2. reaches L k Locate W ph W1 \<and> tick L k ph W1 = (Throws e, W2)"
proof -
  let ?R = R and ?s0 = "(r, newResponseImpl\<lparr>rp_beast := Some fresh_response\<rparr>)"
  let ?f = "find_signal (req_path r) (routeGetMap ?R) (routeAllMap ?R)"
  have sl: "slots_at ?R (req_path r) = map_option sg_slots (signal_at ?f ?R)"
    by (simp add: slots_at_def selected_signal_at)
  show ?thesis
  proof (cases "signal_at ?f ?R")
    case None
    then have f: "?f = NotFound" by (rule find_signal_none) simp_all
    let ?x = "snd (notFound L q fresh_response (req_path r))"
    let ?s1 = "(r, newResponseImpl\<lparr>rp_beast := Some ?x\<rparr>)"
    have "tick L k Locate W = (Goes (Finish (-1)), W)" using f assms(1) R by (simp add: tick_def)
    then have "reaches L k Locate W (Finish (-1)) W"
      by (rule reaches_step [OF _ _ reaches_refl]) (simp add: takes_foreign_def)
    moreover have "tick L k (Finish (-1)) W = (Responds ?x, put_objects k ?s1 W)"
      using assms by (simp add: tick_def finish_tick_def res_getResponse_def req_getRequest_def
          res_parseResponse_def Let_def)
    moreover have "W\<lparr>w_router := dispatched k (req_path r) ?R\<rparr> = W"
      using f R by (cases W) (simp add: dispatched_def marked_def)
    moreover have "answered L (slots_at ?R (req_path r)) q r = Inr (?x, ?s1)"
      using sl None by (simp add: answered_def Let_def)
    ultimately show ?thesis by auto
  next
    case (Some g)
    let ?W1 = "W\<lparr>w_router := dispatched k (req_path r) ?R\<rparr>"
    have call: "reaches L k Locate W (InCall (Some k) (sg_slots g) []) ?W1"
      using reaches_call [OF refl, of W k g L] Some assms(1) R by (simp add: mark_signal_dispatched)
    show ?thesis
    proof (cases "run_handlers L (sg_slots g) [] ?s0")
      case (Inl e)
      then have "run_handlers L (sg_slots g) [] (w_store ?W1 k) = Inl e" using assms(1) by simp
      from reaches_throw [OF this] obtain sl' v' W' W'' where
        "reaches L k (InCall (Some k) (sg_slots g) []) ?W1 (InCall (Some k) sl' v') W'"
        "tick L k (InCall (Some k) sl' v') W' = (Throws e, W'')"
        by blast
      then have "\<exists>ph W1 W2. reaches L k Locate W ph W1 \<and> tick L k ph W1 = (Throws e, W2)"
        using reaches_trans [OF call] by blast
      moreover have "answered L (slots_at ?R (req_path r)) q r = Inl e"
        using Inl sl Some by (simp add: answered_def Let_def)
      ultimately show ?thesis by simp
    next
      case (Inr y)
      then obtain b s where y: "run_handlers L (sg_slots g) [] ?s0 = Inr (b, s)" by (cases y) simp
      let ?x = "fill_response L 200 (the (ri_beast (fst s))) b fresh_response"
      note ans = reaches_answer [OF y, of ?W1 k ?x]
      have "answered L (slots_at ?R (req_path r)) q r = Inr (?x, fst s, (snd s)\<lparr>rp_beast := Some ?x\<rparr>)"
        using sl Some y by (simp add: answered_def Let_def)
      moreover have "\<exists>ph W1 W2. reaches L k Locate W ph W1 \<and> tick L k ph W1 = (Responds ?x, W2) \<and>
          W2 = put_objects k (fst s, (snd s)\<lparr>rp_beast := Some ?x\<rparr>) ?W1"
        using ans assms reaches_trans [OF call] by (intro exI conjI) (assumption | simp)+
      ultimately show ?thesis by simp
    qed
  qed
qed

section \<open>A request served at once is a schedule of the pool\<close>

definition pool_of :: "serving \<Rightarrow> world \<Rightarrow> (nat \<times> dispatch_phase) option \<Rightarrow> nat \<Rightarrow> pool" where
  "pool_of S W task i = \<lparr>po_serving = S\<lparr>sr_world := W\<rparr>, po_tasks = (\<lambda>_. None)(i := task), po_foreign = {}\<rparr>"

definition idle_pool :: "serving \<Rightarrow> pool" where
  "idle_pool S = \<lparr>po_serving = S, po_tasks = (\<lambda>_. None), po_foreign = {}\<rparr>"

lemma pool_start_idle: "pool_start W = idle_pool (serving_start W)"
  by (simp add: pool_start_def idle_pool_def)

lemma terminated_world [simp]: "terminated (S\<lparr>sr_world := W\<rparr>) = terminated S"
  by (simp add: terminated_def)

lemma pool_run_append:
  "pool_run L P (evs @ fvs) = Option.bind (pool_run L P evs) (\<lambda>P1. pool_run L P1 fvs)"
  by (induction evs arbitrary: P) (simp_all add: Option.bind_assoc)

lemma pool_tick_goes:
  "tick L k ph W = (Goes ph1, W1) \<Longrightarrow> \<not> takes_foreign k ph ph1 \<Longrightarrow> \<not> terminated S \<Longrightarrow>
     pool_step L (pool_of S W (Some (k, ph)) i) (Tick i) = Some (pool_of S W1 (Some (k, ph1)) i)"
  by (simp add: pool_step_def pool_of_def pool_tick_def)

lemma pool_reaches:
  "reaches L k ph W ph' W' \<Longrightarrow> \<not> terminated S \<Longrightarrow>
     \<exists>n. pool_run L (pool_of S W (Some (k, ph)) i) (replicate n (Tick i)) = Some (pool_of S W' (Some (k, ph')) i)"
proof (induction rule: reaches.induct)
  case (reaches_refl ph W)
  show ?case by (rule exI [of _ 0]) simp
next
  case (reaches_step ph W ph1 W1 ph2 W2)
  then obtain n where "pool_run L (pool_of S W1 (Some (k, ph1)) i) (replicate n (Tick i)) =
      Some (pool_of S W2 (Some (k, ph2)) i)"
    by blast
  with reaches_step.hyps(1,2) reaches_step.prems show ?case
    by (intro exI [of _ "Suc n"]) (simp add: pool_tick_goes)
qed

lemma pool_tick_responds:
  "tick L k ph W = (Responds x, W1) \<Longrightarrow> \<not> terminated S \<Longrightarrow>
     pool_step L (pool_of S W (Some (k, ph)) i) (Tick i) =
       Some (idle_pool (set_connection i ((connections S ! i)\<lparr>cn_phase := Writing x, cn_world := W1\<rparr>) S))"
  by (simp add: pool_step_def pool_of_def pool_tick_def idle_pool_def set_connection_def)

lemma pool_tick_throws:
  "tick L k ph W = (Throws e, W1) \<Longrightarrow> \<not> terminated S \<Longrightarrow>
     pool_step L (pool_of S W (Some (k, ph)) i) (Tick i) =
       Some (idle_pool (set_connection i ((connections S ! i)\<lparr>cn_world := W1, cn_phase := Crashed e\<rparr>) S))"
  by (simp add: pool_step_def pool_of_def pool_tick_def idle_pool_def set_connection_def)

lemma pool_request:
  assumes "\<not> terminated S" "begin_request L q (sr_world S) = Inr (k, W)"
  shows "pool_read L i q (idle_pool S) = pool_of S W (Some (k, Locate)) i"
  using assms by (simp add: pool_read_def idle_pool_def pool_of_def)

text \<open>What the outside sees of a server.\<close>

definition same_view :: "serving \<Rightarrow> serving \<Rightarrow> bool" where
  "same_view S S' \<longleftrightarrow> map cn_phase (connections S') = map cn_phase (connections S) \<and>
     map cn_written (connections S') = map cn_written (connections S)"

lemma same_view_refl [simp]: "same_view S S"
  by (simp add: same_view_def)

lemma serving_step_read:
  assumes "serving_step L S (Peer i io) = Some S1" "accepted_read (connections S ! i) io = Some q"
  shows "i < length (connections S) \<and> \<not> terminated S \<and> S1 = (case process_request L q (sr_world S) of
      Inl e \<Rightarrow> set_connection i ((connections S ! i)\<lparr>cn_world := sr_world S, cn_phase := Crashed e\<rparr>) S
    | Inr (x, W) \<Rightarrow> set_connection i ((connections S ! i)\<lparr>cn_phase := Writing x, cn_world := W\<rparr>) S)"
  using assms
  by (auto simp: serving_step_def accepted_read_def Let_def set_connection_def conn_step_def on_read_def accepted_def
      split: io_event.splits if_splits sum.splits)

lemma crash_view:
  assumes "i < length (connections S)"
  shows "same_view (set_connection i ((connections S ! i)\<lparr>cn_world := V, cn_phase := Crashed e\<rparr>) S)
      (set_connection i ((connections S ! i)\<lparr>cn_world := W, cn_phase := Crashed e\<rparr>) S)"
    and "terminated (set_connection i ((connections S ! i)\<lparr>cn_world := W, cn_phase := Crashed e\<rparr>) S)"
proof -
  let ?C = "(connections S ! i)\<lparr>cn_world := W, cn_phase := Crashed e\<rparr>"
  have "?C \<in> set ((connections S)[i := ?C])" using assms by (rule set_update_memI)
  moreover have "crashed ?C" by (simp add: crashed_def)
  ultimately show "terminated (set_connection i ?C S)"
    unfolding terminated_def list_ex_iff set_connection_def by auto
qed (simp add: same_view_def set_connection_def map_update)

text \<open>An accepted request whose parsing succeeds, run without interruption.\<close>

lemma request_schedule:
  assumes "\<not> terminated S" "i < length (connections S)" "parsed L q = Inr r"
    and "S1 = (case process_request L q (sr_world S) of
      Inl e \<Rightarrow> set_connection i ((connections S ! i)\<lparr>cn_world := sr_world S, cn_phase := Crashed e\<rparr>) S
    | Inr (x, W) \<Rightarrow> set_connection i ((connections S ! i)\<lparr>cn_phase := Writing x, cn_world := W\<rparr>) S)"
  shows "\<exists>n S2. pool_run L (pool_read L i q (idle_pool S)) (replicate n (Tick i)) = Some (idle_pool S2) \<and>
    same_view S1 S2 \<and> terminated S2 = terminated S1 \<and> (\<not> terminated S1 \<longrightarrow> S2 = S1)"
proof -
  let ?W = "sr_world S" and ?k = "w_next (sr_world S)"
  let ?W1 = "(put_objects ?k (r, newResponseImpl\<lparr>rp_beast := Some fresh_response\<rparr>) ?W)\<lparr>w_next := Suc ?k\<rparr>"
  have start: "pool_read L i q (idle_pool S) = pool_of S ?W1 (Some (?k, Locate)) i"
    using assms(1,3) by (intro pool_request) (simp_all add: begin_request_eq)
  have run: "\<exists>n. pool_run L (pool_read L i q (idle_pool S)) (replicate n (Tick i)) = Some Q"
    if "reaches L ?k Locate ?W1 ph W2" "pool_step L (pool_of S W2 (Some (?k, ph)) i) (Tick i) = Some Q" for ph W2 Q
  proof -
    from pool_reaches [OF that(1) assms(1)] obtain n where
      "pool_run L (pool_of S ?W1 (Some (?k, Locate)) i) (replicate n (Tick i)) = Some (pool_of S W2 (Some (?k, ph)) i)"
      by blast
    with that(2) start
    have "pool_run L (pool_read L i q (idle_pool S)) (replicate (n + 1) (Tick i)) = Some Q"
      unfolding replicate_add by (simp add: pool_run_append)
    then show ?thesis by blast
  qed
  note d = dispatch_reaches [of ?W1 ?k r q "w_router ?W" L]
  show ?thesis
  proof (cases "answered L (slots_at (w_router ?W) (req_path r)) q r")
    case (Inl e)
    with d parsed_beast [OF assms(3)]
    obtain ph V V' where V: "reaches L ?k Locate ?W1 ph V" "tick L ?k ph V = (Throws e, V')" by auto
    have "S1 = set_connection i ((connections S ! i)\<lparr>cn_world := ?W, cn_phase := Crashed e\<rparr>) S"
      using assms(3,4) Inl by (simp add: process_request_eq)
    with run [OF V(1) pool_tick_throws [OF V(2) assms(1)]] crash_view [OF assms(2)] show ?thesis by blast
  next
    case (Inr y)
    obtain x s where y: "y = (x, s)" by (cases y)
    with d Inr parsed_beast [OF assms(3)]
    obtain ph V V' where V: "reaches L ?k Locate ?W1 ph V" "tick L ?k ph V = (Responds x, V')"
      and V': "V' = put_objects ?k s (?W1\<lparr>w_router := dispatched ?k (req_path r) (w_router ?W)\<rparr>)"
      by auto
    have "V' = \<lparr>w_router = dispatched ?k (req_path r) (w_router ?W), w_store = (w_store ?W)(?k := s), w_next = Suc ?k\<rparr>"
      using V' by (simp add: put_objects_def)
    with assms(3,4) Inr y have
      "S1 = set_connection i ((connections S ! i)\<lparr>cn_phase := Writing x, cn_world := V'\<rparr>) S"
      by (simp add: process_request_eq)
    with run [OF V(1) pool_tick_responds [OF V(2) assms(1)]] obtain n where
      "pool_run L (pool_read L i q (idle_pool S)) (replicate n (Tick i)) = Some (idle_pool S1)"
      by blast
    then show ?thesis by (intro exI [of _ n] exI [of _ S1]) simp
  qed
qed

lemma serving_step_schedule:
  assumes "serving_step L S ev = Some S1"
  shows "\<exists>n i S2. pool_run L (idle_pool S) (Outside ev # replicate n (Tick i)) = Some (idle_pool S2) \<and>
    same_view S1 S2 \<and> terminated S2 = terminated S1 \<and> (\<not> terminated S1 \<longrightarrow> S2 = S1)"
proof (cases "\<exists>i io q. ev = Peer i io \<and> accepted_read (connections S ! i) io = Some q")
  case False
  have "pool_step L (idle_pool S) (Outside ev) = Some (idle_pool S1)"
  proof (cases ev)
    case (Peer i io)
    with assms False have "i < length (connections S)" "\<not> terminated S" "accepted_read (connections S ! i) io = None"
      by (auto simp: serving_step_def Let_def split: if_splits)
    with assms Peer show ?thesis
      by (simp add: pool_step_def pool_outside_def idle_pool_def)
  next
    case (Acceptor ok)
    with assms show ?thesis
      by (auto simp: pool_step_def pool_outside_def idle_pool_def serving_step_def split: if_splits)
  qed
  then show ?thesis
    by (intro exI [of _ 0] exI [of _ undefined] exI [of _ S1]) simp
next
  case True
  then obtain i io q where ev: "ev = Peer i io" "accepted_read (connections S ! i) io = Some q" by blast
  note S1 = serving_step_read [OF assms [unfolded ev(1)] ev(2)]
  have read: "pool_step L (idle_pool S) (Outside ev) = Some (pool_read L i q (idle_pool S))"
    using S1 ev by (simp add: pool_step_def idle_pool_def)
  show ?thesis
  proof (cases "parsed L q")
    case (Inl e)
    then have "pool_read L i q (idle_pool S) = idle_pool S1"
      using S1 by (simp add: pool_read_def begin_request_eq process_request_eq idle_pool_def)
    with read show ?thesis by (intro exI [of _ 0] exI [of _ i] exI [of _ S1]) simp
  next
    case (Inr r)
    with request_schedule [of S i L q r S1] S1 read show ?thesis by auto
  qed
qed

lemma serving_run_schedule:
  "serving_run L S evs = Some S1 \<Longrightarrow>
     \<exists>pevs S2. pool_run L (idle_pool S) pevs = Some (idle_pool S2) \<and> outside_events pevs = evs \<and> same_view S1 S2 \<and>
       (\<not> terminated S1 \<longrightarrow> S2 = S1)"
proof (induction evs arbitrary: S)
  case Nil
  then show ?case by (intro exI [of _ "[]"] exI [of _ S]) simp
next
  case (Cons ev evs)
  then obtain S' where S': "serving_step L S ev = Some S'" "serving_run L S' evs = Some S1"
    by (auto simp: bind_eq_Some_conv)
  from serving_step_schedule [OF S'(1)] obtain n i S2 where
    step: "pool_run L (idle_pool S) (Outside ev # replicate n (Tick i)) = Some (idle_pool S2)" "same_view S' S2"
      "terminated S2 = terminated S'" "\<not> terminated S' \<longrightarrow> S2 = S'"
    by blast
  have o: "outside_events (replicate n (Tick i)) = []" for n i
    by (induction n) simp_all
  have oa: "outside_events (xs @ ys) = outside_events xs @ outside_events ys" for xs ys
    by (induction xs rule: outside_events.induct) simp_all
  show ?case
  proof (cases "terminated S'")
    case True
    with S'(2) have "evs = []" "S1 = S'" by (cases evs; simp add: serving_step_def)+
    with True step o show ?thesis
      by (intro exI [of _ "Outside ev # replicate n (Tick i)"] exI [of _ S2]) simp
  next
    case False
    from Cons.IH [OF S'(2)] obtain pevs S3 where
      p: "pool_run L (idle_pool S') pevs = Some (idle_pool S3)" "outside_events pevs = evs" "same_view S1 S3"
        "\<not> terminated S1 \<longrightarrow> S3 = S1"
      by blast
    let ?evs = "(Outside ev # replicate n (Tick i)) @ pevs"
    have "pool_run L (idle_pool S) ?evs = Some (idle_pool S3)"
      unfolding pool_run_append using step(1,4) p(1) False by simp
    moreover have "outside_events ?evs = ev # evs" using o oa p(2) by simp
    ultimately show ?thesis using p(3,4) by blast
  qed
qed

end
