(* ===== verification/Isolation.thy ===== *)
theory Isolation
  imports Threads
begin

text \<open>
  What the threads of \<open>Threads\<close> can do to each other's responses: a connection whose
  calls took the combiner of their own request, or any connection of a server whose handlers
  never end a response, writes what it would write alone, and all responses are complete
  in any case.  Invariants of the pool, and a simulation between one of its connections and
  a connection alone.
\<close>

section \<open>What other threads leave alone\<close>

definition same_routes :: "router \<Rightarrow> router \<Rightarrow> bool" where
  "same_routes R R' \<longleftrightarrow> (\<forall>f. map_option sg_slots (signal_at f R') = map_option sg_slots (signal_at f R))"

lemma same_routes_refl [simp]: "same_routes R R"
  by (simp add: same_routes_def)

lemma same_routes_mark: "same_routes R (mark_signal k f R') \<longleftrightarrow> same_routes R R'"
  by (simp add: same_routes_def signal_at_mark_slots)

lemma same_routes_none: "same_routes R R' \<Longrightarrow> signal_at f R' = None \<longleftrightarrow> signal_at f R = None"
  unfolding same_routes_def by (metis map_option_is_None)

lemma same_routes_find:
  assumes "same_routes R R'"
  shows "find_signal p (routeGetMap R') (routeAllMap R') = find_signal p (routeGetMap R) (routeAllMap R)"
proof -
  have "smap_find (routeGetMap R') k = None \<longleftrightarrow> smap_find (routeGetMap R) k = None"
    "smap_find (routeAllMap R') k = None \<longleftrightarrow> smap_find (routeAllMap R) k = None" for k
    using same_routes_none [OF assms, of "InMethod k"] same_routes_none [OF assms, of "InAll k"]
    by (simp_all add: signal_at_def)
  then show ?thesis by (simp add: find_signal_def)
qed

lemma same_routes_slots_at: "same_routes R R' \<Longrightarrow> slots_at R' p = slots_at R p"
  by (simp add: slots_at_def selected_signal_at same_routes_find) (simp add: same_routes_def)

lemma same_routes_response: "same_routes R R' \<Longrightarrow> response_for L R' = response_for L R"
  by (simp add: response_for_def same_routes_slots_at fun_eq_iff)

text \<open>A statement changes the objects of its own request and combiners only.\<close>

lemma answer_frame: "answer L b k st = Inr (rc, st') \<Longrightarrow> n \<noteq> k \<Longrightarrow> st' n = st n"
  by (auto simp: answer_def split: option.splits)

lemma tick_frame:
  assumes "tick L k ph W = (res, W')"
  shows "n \<noteq> k \<Longrightarrow> w_store W' n = w_store W n" "w_next W' = w_next W"
    "same_routes R (w_router W') \<longleftrightarrow> same_routes R (w_router W)"
proof -
  have call: "(n \<noteq> k \<longrightarrow> w_store V n = w_store W n) \<and> w_next V = w_next W \<and> w_router V = w_router W"
    if "call_tick L k c h rest W = (res, V)" for c h rest V
    using that by (auto simp: call_tick_def split: sum.splits)
  have fin: "(n \<noteq> k \<longrightarrow> w_store V n = w_store W n) \<and> w_next V = w_next W \<and> w_router V = w_router W"
    if "finish_tick L k rc W = (res, V)" for rc V
    using that by (auto simp: finish_tick_def Let_def split: option.splits)
  show "n \<noteq> k \<Longrightarrow> w_store W' n = w_store W n" "w_next W' = w_next W"
    "same_routes R (w_router W') \<longleftrightarrow> same_routes R (w_router W)"
    using assms call fin
    by (cases ph; fastforce simp: tick_def same_routes_mark answer_frame
        split: found.splits option.splits list.splits sum.splits prod.splits)+
qed

section \<open>Handlers that never end the response\<close>

definition quiet_slots :: "slots \<Rightarrow> bool" where
  "quiet_slots sl \<longleftrightarrow> (\<forall>p f. (p, Some f) \<in> set sl \<longrightarrow>
     (\<forall>r s v opers b. f r s = Inr (v, opers) \<longrightarrow> OpEnd b \<notin> set opers))"

definition none_ended :: "world \<Rightarrow> bool" where
  "none_ended W \<longleftrightarrow> (\<forall>n. \<not> rp_writableEnded (snd (w_store W n)))"

definition quiet_world :: "world \<Rightarrow> bool" where
  "quiet_world W \<longleftrightarrow> (\<forall>f g. signal_at f (w_router W) = Some g \<longrightarrow> quiet_slots (sg_slots g)) \<and> none_ended W"

lemma quiet_slots_Cons: "quiet_slots ((p, h) # sl) \<longleftrightarrow> quiet_slots [(p, h)] \<and> quiet_slots sl"
  by (auto simp: quiet_slots_def)

lemma apply_op_quiet:
  "apply_op L oper s = Inr s' \<Longrightarrow> (\<forall>b. oper \<noteq> OpEnd b) \<Longrightarrow> rp_writableEnded (snd s') = rp_writableEnded (snd s)"
  by (cases oper) (auto simp: apply_op_def res_setCookie_def res_nothing_def bind_res_Inr_iff)

lemma apply_ops_quiet:
  "apply_ops L opers s = Inr s' \<Longrightarrow> (\<forall>b. OpEnd b \<notin> set opers) \<Longrightarrow>
     rp_writableEnded (snd s') = rp_writableEnded (snd s)"
proof (induction opers arbitrary: s)
  case (Cons oper opers)
  then obtain s1 where "apply_op L oper s = Inr s1" "apply_ops L opers s1 = Inr s'"
    by (auto simp: bind_res_Inr_iff)
  with Cons apply_op_quiet [of L oper s s1] show ?case by auto
qed simp

lemma call_slot_quiet:
  assumes "quiet_slots [(p, h)]" "call_slot L h s = Inr (v, s')"
  shows "rp_writableEnded (snd s') = rp_writableEnded (snd s)"
proof -
  obtain f opers where f: "h = Some f" "f (fst s) (snd s) = Inr (v, opers)" and s': "apply_ops L opers s = Inr s'"
    using assms(2) by (cases h) (auto simp: call_slot_def bind_res_Inr_iff)
  with assms(1) have "\<forall>b. OpEnd b \<notin> set opers" by (auto simp: quiet_slots_def)
  with s' show ?thesis by (rule apply_ops_quiet)
qed

section \<open>How far a request is\<close>

text \<open>
  \<open>progress L R q r ph s\<close>: at the statement \<open>ph\<close> the objects \<open>s\<close> are what an
  undisturbed dispatch of the request \<open>q\<close>, parsed to \<open>r\<close>, would have made of them.
\<close>

definition progress ::
  "lib \<Rightarrow> router \<Rightarrow> http_request \<Rightarrow> request_impl \<Rightarrow> dispatch_phase \<Rightarrow> request_impl \<times> response_impl \<Rightarrow> bool" where
  "progress L R q r ph s =
     (let s0 = (r, newResponseImpl\<lparr>rp_beast := Some fresh_response\<rparr>);
          sl = slots_at R (req_path r);
          f0 = find_signal (req_path r) (routeGetMap R) (routeAllMap R)
      in case ph of
           Locate \<Rightarrow> s = s0
         | SetCombiner f \<Rightarrow> s = s0 \<and> f = f0 \<and> f \<noteq> NotFound
         | CallSignal f \<Rightarrow> s = s0 \<and> f = f0 \<and> f \<noteq> NotFound
         | InCall c rest v \<Rightarrow> \<exists>hs. sl = Some hs \<and> run_handlers L hs [] s0 = run_handlers L rest v s \<and>
             ri_beast (fst s) \<noteq> None \<and> rp_beast (snd s) = Some fresh_response
         | CheckEnded c rest v \<Rightarrow> \<exists>hs. sl = Some hs \<and> run_handlers L hs [] s0 =
               (if rp_writableEnded (snd s) then Inr (rp_body (snd s), s) else run_handlers L rest v s) \<and>
             ri_beast (fst s) \<noteq> None \<and> rp_beast (snd s) = Some fresh_response
         | ReadBody j \<Rightarrow> \<exists>hs. sl = Some hs \<and> run_handlers L hs [] s0 = Inr (rp_body (snd s), s)
         | Fill v \<Rightarrow> \<exists>hs. sl = Some hs \<and> run_handlers L hs [] s0 = Inr (v, s)
         | Finish rc \<Rightarrow> (rc < 0 \<and> sl = None \<and> s = s0) \<or>
             (rc = 0 \<and> (\<exists>x. answered L sl q r = Inr (x, s) \<and> rp_beast (snd s) = Some x \<and> ri_beast (fst s) \<noteq> None)))"

text \<open>A call is undisturbed when its combiner is the own one, or no response is ever ended.\<close>

definition undisturbed :: "nat \<Rightarrow> dispatch_phase \<Rightarrow> world \<Rightarrow> bool" where
  "undisturbed k ph W \<longleftrightarrow>
     (case ph of
        InCall c rest v \<Rightarrow> c = Some k \<or> c \<noteq> None \<and> quiet_slots rest \<and> none_ended W
      | CheckEnded c rest v \<Rightarrow> c = Some k \<or> c \<noteq> None \<and> quiet_slots rest \<and> none_ended W
      | ReadBody j \<Rightarrow> j = k
      | _ \<Rightarrow> True)"

lemma answered_Some:
  "sl = Some hs \<Longrightarrow> run_handlers L hs [] (r, newResponseImpl\<lparr>rp_beast := Some fresh_response\<rparr>) = Inr (b, s) \<Longrightarrow>
     answered L sl q r = (let x = fill_response L 200 (the (ri_beast (fst s))) b fresh_response in
       Inr (x, fst s, (snd s)\<lparr>rp_beast := Some x\<rparr>))"
  "sl = Some hs \<Longrightarrow> run_handlers L hs [] (r, newResponseImpl\<lparr>rp_beast := Some fresh_response\<rparr>) = Inl e \<Longrightarrow>
     answered L sl q r = Inl e"
  by (simp_all add: answered_def Let_def)

lemma fill_progress:
  assumes "progress L R q r (Fill b) (w_store W k)" "ri_beast r = Some q"
  shows "\<exists>s. tick L k (Fill b) W = (Goes (Finish 0), put_objects k s W) \<and> progress L R q r (Finish 0) s"
proof -
  let ?s0 = "(r, newResponseImpl\<lparr>rp_beast := Some fresh_response\<rparr>)" and ?now = "w_store W k"
  obtain hs where hs: "slots_at R (req_path r) = Some hs" "run_handlers L hs [] ?s0 = Inr (b, ?now)"
    using assms(1) by (auto simp: progress_def Let_def)
  have beast: "ri_beast (fst ?now) \<noteq> None" "rp_beast (snd ?now) = Some fresh_response"
    using run_handlers_beast [of L hs "[]" ?s0 b ?now] hs(2) assms(2) by auto
  let ?x = "fill_response L 200 (the (ri_beast (fst ?now))) b fresh_response"
  let ?s1 = "(fst ?now, (snd ?now)\<lparr>rp_beast := Some ?x\<rparr>)"
  have "answer L b k (w_store W) = Inr (0, (w_store W)(k := ?s1))"
    using beast by (auto simp: answer_def req_getRequest_def res_getResponse_def)
  then have "tick L k (Fill b) W = (Goes (Finish 0), put_objects k ?s1 W)"
    by (simp add: tick_def put_objects_def)
  moreover have "progress L R q r (Finish 0) ?s1"
    using answered_Some(1) [OF hs, of q] beast by (simp add: progress_def Let_def)
  ultimately show ?thesis by blast
qed

lemma locate_progress:
  assumes "tick L k Locate W = (res, W')" "progress L R q r Locate (w_store W k)" "same_routes R (w_router W)"
  shows "\<exists>ph. res = Goes ph \<and> progress L R q r ph (w_store W' k)"
proof -
  let ?f = "find_signal (req_path r) (routeGetMap R) (routeAllMap R)"
  have s: "w_store W k = (r, newResponseImpl\<lparr>rp_beast := Some fresh_response\<rparr>)"
    using assms(2) by (simp add: progress_def Let_def)
  show ?thesis
  proof (cases "?f = NotFound")
    case True
    then have "slots_at R (req_path r) = None" by (simp add: slots_at_def selected_def)
    with True s assms(1) same_routes_find [OF assms(3)] show ?thesis
      by (auto simp: tick_def progress_def Let_def)
  next
    case False
    then have "res = Goes (SetCombiner ?f) \<and> W' = W"
      using s assms(1) same_routes_find [OF assms(3)]
      by (cases ?f) (auto simp: tick_def)
    with False s show ?thesis by (simp add: progress_def Let_def)
  qed
qed

lemma call_signal_progress:
  assumes "tick L k (CallSignal f) W = (res, W')" "progress L R q r (CallSignal f) (w_store W k)"
    and "same_routes R (w_router W)" "ri_beast r = Some q" "signal_at f (w_router W) = Some g"
  shows "res = Goes (InCall (sg_combiner g) (sg_slots g) [])"
    and "progress L R q r (InCall (sg_combiner g) (sg_slots g) []) (w_store W' k)"
proof -
  have "map_option sg_slots (signal_at f R) = map_option sg_slots (signal_at f (w_router W))"
    using assms(3) by (simp add: same_routes_def)
  then have "slots_at R (req_path r) = Some (sg_slots g)"
    using assms(2,5) by (simp add: progress_def Let_def slots_at_def selected_signal_at)
  moreover show "res = Goes (InCall (sg_combiner g) (sg_slots g) [])"
    using assms(1,5) by (auto simp: tick_def)
  moreover have "W' = W" using assms(1,5) by (auto simp: tick_def)
  ultimately show "progress L R q r (InCall (sg_combiner g) (sg_slots g) []) (w_store W' k)"
    using assms(2,4) by (simp add: progress_def Let_def)
qed

text \<open>The outcome of a statement, compared with an undisturbed dispatch.\<close>

definition on_course ::
  "lib \<Rightarrow> router \<Rightarrow> http_request \<Rightarrow> request_impl \<Rightarrow> tick_result \<Rightarrow> request_impl \<times> response_impl \<Rightarrow> bool" where
  "on_course L R q r res s =
     (case res of
        Goes ph \<Rightarrow> progress L R q r ph s
      | Responds x \<Rightarrow> \<exists>s. answered L (slots_at R (req_path r)) q r = Inr (x, s)
      | Throws e \<Rightarrow> answered L (slots_at R (req_path r)) q r = Inl e)"

lemma in_call_progress:
  assumes "tick L k (InCall c rest v) W = (res, W')" "progress L R q r (InCall c rest v) (w_store W k)"
  shows "on_course L R q r res (w_store W' k)"
proof (cases rest)
  case Nil
  with assms(1) have "res = Goes (Fill v)" "W' = W" by (auto simp: tick_def)
  with Nil assms(2) show ?thesis by (auto simp: progress_def Let_def on_course_def)
next
  case (Cons a rest')
  obtain p h where a: "a = (p, h)" by (cases a)
  have call: "call_tick L k c h rest' W = (res, W')"
    using assms(1) Cons a by (simp add: tick_def)
  obtain hs where hs: "slots_at R (req_path r) = Some hs"
      "run_handlers L hs [] (r, newResponseImpl\<lparr>rp_beast := Some fresh_response\<rparr>) =
        run_handlers L ((p, h) # rest') v (w_store W k)"
      "ri_beast (fst (w_store W k)) \<noteq> None" "rp_beast (snd (w_store W k)) = Some fresh_response"
    using assms(2) Cons a by (auto simp: progress_def Let_def)
  show ?thesis
  proof (cases "call_slot L h (w_store W k)")
    case (Inl e)
    with call hs answered_Some(2) [OF hs(1), of L r e q] show ?thesis
      by (auto simp: call_tick_def on_course_def)
  next
    case (Inr y)
    with call hs show ?thesis
      by (cases y) (auto simp: call_tick_def progress_def Let_def on_course_def dest: call_slot_beast)
  qed
qed

lemma check_progress:
  assumes "tick L k (CheckEnded c rest v) W = (res, W')" "progress L R q r (CheckEnded c rest v) (w_store W k)"
    and "undisturbed k (CheckEnded c rest v) W"
  shows "on_course L R q r res (w_store W' k)"
proof -
  obtain j where j: "c = Some j" and own: "j = k \<or> none_ended W"
    using assms(3) by (auto simp: undisturbed_def)
  have W: "W' = W" "res = check_tick c rest v W" using assms(1) by (auto simp: tick_def)
  show ?thesis
  proof (cases "rp_writableEnded (snd (w_store W j))")
    case True
    with own have "j = k" by (auto simp: none_ended_def)
    with True W j assms(2) show ?thesis
      by (auto simp: check_tick_def res_writableEnded_def on_course_def progress_def Let_def)
  next
    case False
    with own have "\<not> rp_writableEnded (snd (w_store W k))" by (auto simp: none_ended_def)
    with False W j assms(2) show ?thesis
      by (auto simp: check_tick_def res_writableEnded_def on_course_def progress_def Let_def)
  qed
qed

lemma body_progress:
  assumes "tick L k (ReadBody j) W = (res, W')" "progress L R q r (ReadBody j) (w_store W k)" "j = k"
  shows "on_course L R q r res (w_store W' k)"
  using assms by (auto simp: tick_def on_course_def progress_def res_body_def Let_def)

lemma finish_progress:
  assumes "tick L k (Finish rc) W = (res, W')" "progress L R q r (Finish rc) (w_store W k)" "ri_beast r = Some q"
  shows "\<exists>x s. res = Responds x \<and> answered L (slots_at R (req_path r)) q r = Inr (x, s)"
proof -
  from assms(2) consider
      "rc < 0" "slots_at R (req_path r) = None" "w_store W k = (r, newResponseImpl\<lparr>rp_beast := Some fresh_response\<rparr>)"
    | x where "rc = 0" "answered L (slots_at R (req_path r)) q r = Inr (x, w_store W k)"
        "rp_beast (snd (w_store W k)) = Some x" "ri_beast (fst (w_store W k)) \<noteq> None"
    by (auto simp: progress_def Let_def)
  then show ?thesis
  proof cases
    case 1
    with assms(1,3) show ?thesis
      by (auto simp: tick_def finish_tick_def Let_def res_getResponse_def req_getRequest_def answered_def)
  next
    case 2
    with finish_filled [OF 2(3,4) refl, of L] assms(1) show ?thesis by auto
  qed
qed

lemma tick_progress:
  assumes "tick L k ph W = (res, W')" "progress L R q r ph (w_store W k)" "undisturbed k ph W"
    and "same_routes R (w_router W)" "ri_beast r = Some q" "\<And>f. ph = CallSignal f \<Longrightarrow> signal_at f (w_router W) \<noteq> None"
  shows "on_course L R q r res (w_store W' k)"
proof (cases ph)
  case Locate
  with assms locate_progress show ?thesis by (fastforce simp: on_course_def)
next
  case (SetCombiner f)
  then have "res = Goes (CallSignal f)" "W' = W\<lparr>w_router := mark_signal k f (w_router W)\<rparr>"
    using assms(1) by (simp_all add: tick_def)
  with SetCombiner assms(2) show ?thesis by (auto simp: progress_def on_course_def Let_def)
next
  case (CallSignal f)
  with assms(6) obtain g where "signal_at f (w_router W) = Some g" by blast
  with call_signal_progress [OF assms(1,2) [unfolded CallSignal] assms(4,5) this] show ?thesis
    by (simp add: on_course_def)
next
  case (InCall c rest v)
  with in_call_progress assms(1,2) show ?thesis by blast
next
  case (CheckEnded c rest v)
  with check_progress assms(1-3) show ?thesis by blast
next
  case (ReadBody j)
  with body_progress assms(1-3) show ?thesis by (simp add: undisturbed_def)
next
  case (Fill b)
  with assms(1,2,5) fill_progress [of L R q r b W k] show ?thesis by (auto simp: on_course_def)
next
  case (Finish rc)
  with finish_progress assms(1,2,5) show ?thesis by (fastforce simp: on_course_def)
qed

section \<open>What every schedule keeps\<close>

definition phase_wf :: "router \<Rightarrow> nat set \<Rightarrow> bool \<Rightarrow> nat \<Rightarrow> nat \<Rightarrow> dispatch_phase \<Rightarrow> bool" where
  "phase_wf R F quiet i k ph =
     (case ph of
        SetCombiner f \<Rightarrow> signal_at f R \<noteq> None
      | CallSignal f \<Rightarrow> (\<exists>g. signal_at f R = Some g \<and> sg_combiner g \<noteq> None)
      | InCall c rest v \<Rightarrow> c \<noteq> None \<and> (i \<notin> F \<longrightarrow> c = Some k) \<and> (quiet \<longrightarrow> quiet_slots rest)
      | CheckEnded c rest v \<Rightarrow> c \<noteq> None \<and> (i \<notin> F \<longrightarrow> c = Some k) \<and> (quiet \<longrightarrow> quiet_slots rest)
      | ReadBody j \<Rightarrow> \<not> quiet \<and> (i \<notin> F \<longrightarrow> j = k)
      | _ \<Rightarrow> True)"

definition quiet_routes :: "router \<Rightarrow> bool" where
  "quiet_routes R \<longleftrightarrow> (\<forall>f g. signal_at f R = Some g \<longrightarrow> quiet_slots (sg_slots g))"

lemma quiet_routes_same: "same_routes R R' \<Longrightarrow> quiet_routes R' = quiet_routes R"
proof -
  assume same: "same_routes R R'"
  have "(\<forall>g. signal_at f R' = Some g \<longrightarrow> quiet_slots (sg_slots g)) \<longleftrightarrow>
      (\<forall>g. signal_at f R = Some g \<longrightarrow> quiet_slots (sg_slots g))" for f
    using same [unfolded same_routes_def, rule_format, of f]
    by (cases "signal_at f R'"; cases "signal_at f R") auto
  then show ?thesis by (auto simp: quiet_routes_def)
qed

lemma tick_signals:
  assumes "tick L k ph W = (res, W')" "signal_at f (w_router W) = Some g"
  shows "\<exists>g'. signal_at f (w_router W') = Some g' \<and> (sg_combiner g \<noteq> None \<longrightarrow> sg_combiner g' \<noteq> None)"
proof -
  have call: "w_router V = w_router W" if "call_tick L k c h rest W = (res, V)" for c h rest V
    using that by (auto simp: call_tick_def split: sum.splits)
  have fin: "w_router V = w_router W" if "finish_tick L k rc W = (res, V)" for rc V
    using that by (auto simp: finish_tick_def Let_def split: option.splits)
  have mark: "\<exists>g'. signal_at f (mark_signal k h (w_router W)) = Some g' \<and> (sg_combiner g \<noteq> None \<longrightarrow> sg_combiner g' \<noteq> None)" for h
    using assms(2) by (cases h; cases f) (auto simp: signal_at_def mark_signal_def smap_simps set_combiner_def)
  show ?thesis
  proof (cases "\<exists>h. ph = SetCombiner h")
    case True
    with assms(1) mark show ?thesis by (auto simp: tick_def)
  next
    case False
    with assms(1) have "w_router W' = w_router W"
      by (cases ph) (auto simp: tick_def call fin split: found.splits option.splits list.splits sum.splits prod.splits)
    with assms(2) show ?thesis by simp
  qed
qed

lemma phase_wf_mono:
  assumes "tick L k' ph' W = (res, W')" "phase_wf (w_router W) F quiet i k ph" "F \<subseteq> G"
  shows "phase_wf (w_router W') G quiet i k ph"
  using assms(2,3) tick_signals [OF assms(1)]
  by (cases ph) (fastforce simp: phase_wf_def)+

lemma tick_phase_wf:
  assumes "tick L k ph W = (Goes ph', W')" "phase_wf (w_router W) F quiet i k ph" "quiet \<longrightarrow> quiet_routes (w_router W) \<and> none_ended W"
  shows "phase_wf (w_router W') (if takes_foreign k ph ph' then insert i F else F) quiet i k ph'"
proof (cases ph)
  case Locate
  with assms show ?thesis
    by (auto simp: tick_def phase_wf_def signal_at_def dest: find_signal_selected split: found.splits)
next
  case (SetCombiner f)
  with assms show ?thesis
    by (auto simp: tick_def phase_wf_def signal_at_mark_own set_combiner_def)
next
  case (CallSignal f)
  with assms show ?thesis
    by (auto simp: tick_def phase_wf_def takes_foreign_def quiet_routes_def split: option.splits)
next
  case (InCall c rest v)
  with assms show ?thesis
    by (cases rest) (auto simp: tick_def phase_wf_def takes_foreign_def call_tick_def quiet_slots_def
        split: prod.splits sum.splits)
next
  case (CheckEnded c rest v)
  with assms show ?thesis
    by (auto simp: tick_def phase_wf_def takes_foreign_def check_tick_def none_ended_def res_writableEnded_def
        split: option.splits if_splits)
next
  case (ReadBody j)
  with assms show ?thesis by (auto simp: tick_def phase_wf_def)
next
  case (Fill v)
  with assms show ?thesis by (auto simp: tick_def phase_wf_def split: sum.splits)
next
  case (Finish rc)
  with assms(1) show ?thesis
    by (auto simp: tick_def finish_tick_def Let_def split: option.splits)
qed

lemma call_tick_store:
  "call_tick L k c h rest W = (res, W') \<Longrightarrow>
     W' = W \<or> (\<exists>v s. call_slot L h (w_store W k) = Inr (v, s) \<and> W' = put_objects k s W)"
  by (auto simp: call_tick_def split: sum.splits)

lemma tick_none_ended:
  assumes "tick L k ph W = (res, W')" "phase_wf (w_router W) F True i k ph" "none_ended W"
  shows "none_ended W'"
proof -
  have "rp_writableEnded (snd (w_store W' k)) = rp_writableEnded (snd (w_store W k))"
  proof (cases ph)
    case (InCall c rest v)
    show ?thesis
    proof (cases rest)
      case (Cons a rest')
      obtain p h where a: "a = (p, h)" by (cases a)
      with InCall Cons assms(2) have q: "quiet_slots [(p, h)]"
        by (simp add: phase_wf_def quiet_slots_Cons [of p h rest'])
      show ?thesis
        using call_tick_store [of L k c h rest' W res W'] assms(1) InCall Cons a call_slot_quiet [OF q]
        by (fastforce simp: tick_def)
    qed (use InCall assms(1) in \<open>auto simp: tick_def\<close>)
  qed (use assms(1) in \<open>auto simp: tick_def finish_tick_def answer_def Let_def res_parseResponse_def
      split: found.splits option.splits sum.splits\<close>)
  with assms(3) tick_frame(1) [OF assms(1)] show ?thesis
    unfolding none_ended_def by metis
qed

text \<open>Requests in progress have objects of their own.\<close>

definition tasks_apart :: "(nat \<Rightarrow> (nat \<times> dispatch_phase) option) \<Rightarrow> bool" where
  "tasks_apart T \<longleftrightarrow> (\<forall>i j k ph ph'. T i = Some (k, ph) \<longrightarrow> T j = Some (k, ph') \<longrightarrow> i = j)"

lemma tasks_apart_next: "tasks_apart T \<Longrightarrow> T i = Some (k, ph) \<Longrightarrow> tasks_apart (T(i \<mapsto> (k, ph')))"
  unfolding tasks_apart_def by (auto split: if_splits)

lemma tasks_apart_done: "tasks_apart T \<Longrightarrow> tasks_apart (T(i := None))"
  by (auto simp: tasks_apart_def)

lemma tasks_apart_new:
  "tasks_apart T \<Longrightarrow> (\<And>j k' ph'. T j = Some (k', ph') \<Longrightarrow> k' < k) \<Longrightarrow> tasks_apart (T(i \<mapsto> (k, ph)))"
  unfolding tasks_apart_def by (auto split: if_splits) (metis nat_neq_iff)+

definition pool_wf :: "world \<Rightarrow> pool \<Rightarrow> bool" where
  "pool_wf W0 P \<longleftrightarrow>
     same_routes (w_router W0) (w_router (sr_world (po_serving P))) \<and>
     (quiet_world W0 \<longrightarrow> none_ended (sr_world (po_serving P))) \<and>
     tasks_apart (po_tasks P) \<and>
     (\<forall>i k ph. po_tasks P i = Some (k, ph) \<longrightarrow>
        i < length (connections (po_serving P)) \<and> k < w_next (sr_world (po_serving P)) \<and>
        phase_wf (w_router (sr_world (po_serving P))) (po_foreign P) (quiet_world W0) i k ph)"

lemma pool_start_wf: "pool_wf W (pool_start W)"
  by (simp add: pool_wf_def pool_start_def serving_start_def quiet_world_def tasks_apart_def)

lemma set_connection_simps [simp]:
  "connections (set_connection i C S) = (connections S)[i := C]"
  "sr_world (set_connection i C S) = cn_world C"
  by (simp_all add: set_connection_def)

lemma conn_step_world:
  "accepted_read C io = None \<Longrightarrow> cn_world (conn_step L C io) = cn_world C"
  by (cases "cn_phase C"; cases io)
     (auto simp: accepted_read_def conn_step_def on_read_def accepted_def split: if_splits)

lemma outside_world:
  assumes "serving_step L S ev = Some S1"
    and "\<And>i io. ev = Peer i io \<Longrightarrow> accepted_read (connections S ! i) io = None"
  shows "sr_world S1 = sr_world S"
proof (cases ev)
  case (Peer i io)
  with assms have "accepted_read ((connections S ! i)\<lparr>cn_world := sr_world S\<rparr>) io = None"
    by (simp add: accepted_read_def cong: io_event.case_cong)
  from conn_step_world [OF this, of L] assms(1) Peer show ?thesis
    by (auto simp: serving_step_def Let_def split: if_splits)
qed (use assms(1) in \<open>auto simp: serving_step_def split: if_splits\<close>)

text \<open>The three kinds of steps.\<close>

lemma pool_step_cases:
  assumes "pool_step L P ev = Some P1"
  obtains (outside) oe S1 where "ev = Outside oe" "serving_step L (po_serving P) oe = Some S1"
      "P1 = P\<lparr>po_serving := S1\<rparr>" "sr_world S1 = sr_world (po_serving P)"
      "length (connections (po_serving P)) \<le> length (connections S1)"
      "\<And>i io. oe = Peer i io \<Longrightarrow> po_tasks P i = None"
      "\<And>i io. oe = Peer i io \<Longrightarrow> accepted_read (connections (po_serving P) ! i) io = None"
  | (read) i q where "ev = Outside (Peer i (ReadRequest q))" "cn_phase (connections (po_serving P) ! i) = Reading"
      "accepted q" "i < length (connections (po_serving P))" "po_tasks P i = None" "P1 = pool_read L i q P"
  | (tick) i k ph where "ev = Tick i" "po_tasks P i = Some (k, ph)" "P1 = pool_tick L i k ph P"
proof (cases ev)
  case (Tick i)
  with assms tick show ?thesis by (auto simp: pool_step_def split: if_splits)
next
  case (Outside oe)
  show ?thesis
  proof (cases "\<exists>i io q. oe = Peer i io \<and> accepted_read (connections (po_serving P) ! i) io = Some q")
    case True
    then obtain i io q where oe: "oe = Peer i io" "accepted_read (connections (po_serving P) ! i) io = Some q"
      by blast
    then have "io = ReadRequest q" "cn_phase (connections (po_serving P) ! i) = Reading" "accepted q"
      by (auto simp: accepted_read_def split: io_event.splits if_splits)
    moreover from this Outside oe assms have "po_tasks P i = None" "i < length (connections (po_serving P))"
      "P1 = pool_read L i q P"
      by (cases "po_tasks P i"; simp add: pool_step_def split: if_splits)+
    ultimately show ?thesis using read Outside oe(1) by blast
  next
    case False
    with Outside assms obtain S1 where S1: "serving_step L (po_serving P) oe = Some S1" "P1 = P\<lparr>po_serving := S1\<rparr>"
        "\<And>i io. oe = Peer i io \<Longrightarrow> po_tasks P i = None"
      by (cases oe) (auto simp: pool_step_def pool_outside_def split: if_splits option.splits)
    moreover have a: "accepted_read (connections (po_serving P) ! i) io = None" if "oe = Peer i io" for i io
      using False that by auto
    moreover have "sr_world S1 = sr_world (po_serving P)"
      by (rule outside_world [OF S1(1) a])
    ultimately show ?thesis
      using outside Outside serving_step_routes [OF S1(1)] by blast
  qed
qed

lemma pool_read_wf:
  assumes "pool_wf W0 P" "i < length (connections (po_serving P))" "po_tasks P i = None"
  shows "pool_wf W0 (pool_read L i q P)"
proof (cases "parsed L q")
  case (Inl e)
  with assms show ?thesis
    by (simp add: pool_read_def begin_request_eq pool_wf_def Let_def)
next
  case (Inr r)
  let ?W = "sr_world (po_serving P)"
  have "quiet_world W0 \<longrightarrow> none_ended ((put_objects (w_next ?W) (r, newResponseImpl\<lparr>rp_beast := Some fresh_response\<rparr>) ?W)
      \<lparr>w_next := Suc (w_next ?W)\<rparr>)"
    using assms(1) by (auto simp: pool_wf_def none_ended_def newResponseImpl_def)
  moreover have "k < w_next ?W" if "po_tasks P j = Some (k, ph)" for j k ph
    using assms(1) that by (auto simp: pool_wf_def)
  moreover from this assms(1) have "tasks_apart ((po_tasks P)(i \<mapsto> (w_next ?W, Locate)))"
    by (intro tasks_apart_new) (auto simp: pool_wf_def)
  ultimately show ?thesis
    using assms Inr
    by (auto simp: pool_read_def begin_request_eq pool_wf_def Let_def phase_wf_def less_Suc_eq)
qed

lemma pool_tick_wf:
  assumes "pool_wf W0 P" "po_tasks P i = Some (k, ph)"
  shows "pool_wf W0 (pool_tick L i k ph P)"
proof -
  let ?W = "sr_world (po_serving P)" and ?Q = "quiet_world W0"
  obtain res W' where t: "tick L k ph ?W = (res, W')" by (cases "tick L k ph ?W")
  have wf: "same_routes (w_router W0) (w_router ?W)" "?Q \<longrightarrow> none_ended ?W"
    "phase_wf (w_router ?W) (po_foreign P) ?Q i k ph"
    using assms by (simp_all add: pool_wf_def)
  have routes: "same_routes (w_router W0) (w_router W')" using wf(1) tick_frame(3) [OF t] by simp
  have ended: "?Q \<longrightarrow> none_ended W'" using tick_none_ended [OF t] wf(2,3) by auto
  have quiet: "?Q \<longrightarrow> quiet_routes (w_router ?W) \<and> none_ended ?W"
    using quiet_routes_same [OF wf(1)] wf(2) by (simp add: quiet_world_def quiet_routes_def)
  let ?F = "\<lambda>ph'. if takes_foreign k ph ph' then insert i (po_foreign P) else po_foreign P"
  have other: "phase_wf (w_router W') G ?Q j k' ph'" if "po_tasks P j = Some (k', ph')" "po_foreign P \<subseteq> G" for j k' ph' G
    using assms(1) that by (intro phase_wf_mono [OF t]) (auto simp: pool_wf_def)
  show ?thesis
  proof (cases res)
    case (Goes ph')
    from tick_phase_wf [OF t [unfolded Goes] wf(3) quiet]
    have "phase_wf (w_router W') (?F ph') ?Q i k ph'" .
    moreover have "po_foreign P \<subseteq> ?F ph'" by auto
    moreover have "tasks_apart ((po_tasks P)(i \<mapsto> (k, ph')))"
      using assms by (intro tasks_apart_next) (auto simp: pool_wf_def)
    ultimately show ?thesis
      using assms routes ended other Goes t tick_frame(2) [OF t]
      by (auto simp: pool_tick_def pool_wf_def Let_def)
  qed (use assms routes ended other t tick_frame(2) [OF t] in \<open>auto simp: pool_tick_def pool_wf_def Let_def tasks_apart_done\<close>)
qed

lemma pool_step_wf: "pool_step L P ev = Some P1 \<Longrightarrow> pool_wf W0 P \<Longrightarrow> pool_wf W0 P1"
proof (erule pool_step_cases)
  fix oe S1
  assume "P1 = P\<lparr>po_serving := S1\<rparr>" "sr_world S1 = sr_world (po_serving P)"
    "length (connections (po_serving P)) \<le> length (connections S1)" "pool_wf W0 P"
  then show "pool_wf W0 P1" by (fastforce simp: pool_wf_def)
qed (simp_all add: pool_read_wf pool_tick_wf)

lemma pool_run_wf: "pool_run L P evs = Some P1 \<Longrightarrow> pool_wf W0 P \<Longrightarrow> pool_wf W0 P1"
  by (induction evs arbitrary: P) (auto simp: bind_eq_Some_conv dest: pool_step_wf)

section \<open>A connection of the pool and a connection alone\<close>

text \<open>
  Connection \<open>i\<close> of the pool is where the connection \<open>D\<close> is, or on the way there: it
  dispatches the request that \<open>D\<close> has just answered.
\<close>

definition synced :: "lib \<Rightarrow> world \<Rightarrow> pool \<Rightarrow> nat \<Rightarrow> connection \<Rightarrow> bool" where
  "synced L W0 P i D \<longleftrightarrow>
     (case po_tasks P i of
        None \<Rightarrow> alike L (connection_at (po_serving P) i) D
      | Some (k, ph) \<Rightarrow> \<exists>q r D0. D = conn_step L D0 (ReadRequest q) \<and> accepted q \<and> cn_phase D0 = Reading \<and>
          alike L (connection_at (po_serving P) i) D0 \<and> parsed L q = Inr r \<and>
          progress L (w_router W0) q r ph (w_store (sr_world (po_serving P)) k))"

lemma connection_at_world: "cn_world (connection_at S i) = sr_world S"
  by (simp add: connection_at_def newConnection_def)

lemma alike_router:
  "same_routes R (w_router (sr_world S)) \<Longrightarrow> alike L (connection_at S i) D \<Longrightarrow>
     response_for L (w_router (cn_world D)) = response_for L R"
  by (simp add: alike_def connection_at_world same_routes_response)

lemma read_answered:
  assumes "cn_phase D = Reading" "accepted q" "response_for L (w_router (cn_world D)) q = Inr x"
  shows "cn_phase (conn_step L D (ReadRequest q)) = Writing x \<and>
    cn_written (conn_step L D (ReadRequest q)) = cn_written D"
proof -
  obtain W where "process_request L q (cn_world D) = Inr (x, W)" using cs.serve_answer [OF assms(3)] by blast
  with assms show ?thesis by (simp add: conn_step_def on_read_def accepted_def)
qed

lemma read_crashed:
  assumes "cn_phase D = Reading" "accepted q" "response_for L (w_router (cn_world D)) q = Inl e"
  shows "cn_phase (conn_step L D (ReadRequest q)) = Crashed e \<and>
    cn_written (conn_step L D (ReadRequest q)) = cn_written D"
  using assms cs.serve_error [OF assms(3)] by (simp add: conn_step_def on_read_def accepted_def)

text \<open>Another connection changed the world.\<close>

lemma connection_at_other:
  assumes "connections S1 ! i = connections S ! i" "length (connections S1) = length (connections S)"
    and "same_routes R (w_router (sr_world S))" "same_routes R (w_router (sr_world S1))"
  shows "alike L (connection_at S1 i) (connection_at S i)"
proof -
  have "connection_at S1 i = (connection_at S i)\<lparr>cn_world := sr_world S1\<rparr>"
    using assms(1,2) by (simp add: connection_at_def newConnection_def)
  then show ?thesis
    using assms(3,4) by (simp add: alike_def connection_at_world same_routes_response)
qed

lemma synced_other:
  assumes "synced L W0 P i D" "po_tasks P1 i = po_tasks P i"
    and "alike L (connection_at (po_serving P1) i) (connection_at (po_serving P) i)"
    and "\<And>k ph. po_tasks P i = Some (k, ph) \<Longrightarrow>
      w_store (sr_world (po_serving P1)) k = w_store (sr_world (po_serving P)) k"
  shows "synced L W0 P1 i D"
proof (cases "po_tasks P i")
  case None
  with assms(1-3) show ?thesis by (auto simp: synced_def intro: alike_trans)
next
  case (Some t)
  obtain k ph where t: "t = (k, ph)" by (cases t)
  from assms(1) Some t obtain q r D0 where D0: "D = conn_step L D0 (ReadRequest q)" "accepted q"
      "cn_phase D0 = Reading" "alike L (connection_at (po_serving P) i) D0" "parsed L q = Inr r"
      "progress L (w_router W0) q r ph (w_store (sr_world (po_serving P)) k)"
    by (auto simp: synced_def)
  have "alike L (connection_at (po_serving P1) i) D0" using assms(3) D0(4) by (rule alike_trans)
  with D0 Some t assms(2) assms(4) [of k ph] show ?thesis by (fastforce simp: synced_def)
qed

lemma synced_outside:
  assumes "serving_step L (po_serving P) oe = Some S1" "sr_world S1 = sr_world (po_serving P)"
    and "\<And>j io. oe = Peer j io \<Longrightarrow> po_tasks P j = None" "synced L W0 P i D"
  shows "synced L W0 (P\<lparr>po_serving := S1\<rparr>) i (conn_run L D (own_events i [oe]))"
proof (cases "po_tasks P i")
  case None
  with assms(4) have "alike L (connection_at (po_serving P) i) D" by (simp add: synced_def)
  from alike_trans [OF serving_step_at [OF assms(1)] alike_run [OF this]] None show ?thesis
    by (simp add: synced_def)
next
  case (Some t)
  with assms(3) have "own_events i [oe] = []" by (cases oe) auto
  moreover from this serving_step_at [OF assms(1), of i]
  have "alike L (connection_at S1 i) (connection_at (po_serving P) i)" by simp
  ultimately show ?thesis
    using synced_other [OF assms(4), of "P\<lparr>po_serving := S1\<rparr>"] assms(2) by simp
qed

lemma synced_read_own:
  assumes "pool_wf W0 P" "i < length (connections (po_serving P))" "po_tasks P i = None" "synced L W0 P i D"
    and "cn_phase (connections (po_serving P) ! i) = Reading" "accepted q"
  shows "synced L W0 (pool_read L i q P) i (conn_step L D (ReadRequest q))"
proof -
  let ?S = "po_serving P"
  have D: "alike L (connection_at ?S i) D" using assms(3,4) by (simp add: synced_def)
  then have reading: "cn_phase D = Reading" using assms(2,5) by (simp add: alike_def connection_at_def)
  have routes: "same_routes (w_router W0) (w_router (sr_world ?S))" using assms(1) by (simp add: pool_wf_def)
  show ?thesis
  proof (cases "parsed L q")
    case (Inl e)
    then have "response_for L (w_router (cn_world D)) q = Inl e" by (simp add: response_for_def)
    from read_crashed [OF reading assms(6) this] Inl assms(2,3) D show ?thesis
      by (simp add: synced_def pool_read_def begin_request_eq Let_def alike_def connection_at_def conn_step_routes)
  next
    case (Inr r)
    have "alike L (connection_at (po_serving (pool_read L i q P)) i) (connection_at ?S i)"
      using Inr routes
      by (intro connection_at_other [where R = "w_router W0"])
         (simp_all add: pool_read_def begin_request_eq Let_def)
    with D have "alike L (connection_at (po_serving (pool_read L i q P)) i) D" by (rule alike_trans [rotated])
    with reading assms(6) Inr show ?thesis
      by (auto simp: synced_def pool_read_def begin_request_eq Let_def progress_def intro!: exI [of _ q] exI [of _ D])
  qed
qed

lemma synced_read_other:
  assumes "pool_wf W0 P" "synced L W0 P i D" "j \<noteq> i"
  shows "synced L W0 (pool_read L j q P) i D"
proof (rule synced_other [OF assms(2)])
  let ?S = "po_serving P"
  have routes: "same_routes (w_router W0) (w_router (sr_world ?S))" using assms(1) by (simp add: pool_wf_def)
  show "alike L (connection_at (po_serving (pool_read L j q P)) i) (connection_at ?S i)"
    using assms(3) routes
    by (intro connection_at_other [where R = "w_router W0"])
       (cases "parsed L q"; simp add: pool_read_def begin_request_eq Let_def)+
  show "po_tasks (pool_read L j q P) i = po_tasks P i"
    using assms(3) by (cases "parsed L q") (simp_all add: pool_read_def begin_request_eq Let_def)
  fix k ph
  assume "po_tasks P i = Some (k, ph)"
  with assms(1) have "k < w_next (sr_world ?S)" by (auto simp: pool_wf_def)
  then show "w_store (sr_world (po_serving (pool_read L j q P))) k = w_store (sr_world ?S) k"
    by (cases "parsed L q") (simp_all add: pool_read_def begin_request_eq Let_def)
qed

lemma synced_tick_other:
  assumes "pool_wf W0 P" "synced L W0 P i D" "j \<noteq> i" "po_tasks P j = Some (k, ph)"
  shows "synced L W0 (pool_tick L j k ph P) i D"
proof (rule synced_other [OF assms(2)])
  let ?S = "po_serving P"
  obtain res W' where t: "tick L k ph (sr_world ?S) = (res, W')" by (cases "tick L k ph (sr_world ?S)")
  have routes: "same_routes (w_router W0) (w_router (sr_world ?S))" "same_routes (w_router W0) (w_router W')"
    using assms(1) tick_frame(3) [OF t] by (simp_all add: pool_wf_def)
  show "alike L (connection_at (po_serving (pool_tick L j k ph P)) i) (connection_at ?S i)"
    using assms(3) routes t
    by (intro connection_at_other [where R = "w_router W0"]) (cases res; simp add: pool_tick_def Let_def)+
  show "po_tasks (pool_tick L j k ph P) i = po_tasks P i"
    using assms(3) t by (cases res) (simp_all add: pool_tick_def Let_def)
  fix k' ph'
  assume "po_tasks P i = Some (k', ph')"
  with assms(1,3,4) have "k' \<noteq> k" unfolding pool_wf_def tasks_apart_def by metis
  with tick_frame(1) [OF t, of k'] t
  show "w_store (sr_world (po_serving (pool_tick L j k ph P))) k' = w_store (sr_world ?S) k'"
    by (cases res) (simp_all add: pool_tick_def Let_def)
qed

lemma pool_wf_task:
  assumes "pool_wf W0 P" "po_tasks P i = Some (k, ph)"
  shows "i < length (connections (po_serving P))" "k < w_next (sr_world (po_serving P))"
    "phase_wf (w_router (sr_world (po_serving P))) (po_foreign P) (quiet_world W0) i k ph"
  using assms by (simp_all add: pool_wf_def)

lemma undisturbed_phase:
  assumes "pool_wf W0 P" "po_tasks P i = Some (k, ph)" "i \<notin> po_foreign P \<or> quiet_world W0"
  shows "undisturbed k ph (sr_world (po_serving P))"
proof -
  have "quiet_world W0 \<longrightarrow> none_ended (sr_world (po_serving P))"
    using assms(1) by (simp add: pool_wf_def)
  with pool_wf_task(3) [OF assms(1,2)] assms(3) show ?thesis by (cases ph) (auto simp: phase_wf_def undisturbed_def)
qed

lemma synced_tick_own:
  assumes "pool_wf W0 P" "synced L W0 P i D" "po_tasks P i = Some (k, ph)" "i \<notin> po_foreign P \<or> quiet_world W0"
  shows "synced L W0 (pool_tick L i k ph P) i D"
proof -
  let ?S = "po_serving P" and ?R = "w_router W0"
  obtain res W' where t: "tick L k ph (sr_world ?S) = (res, W')" by (cases "tick L k ph (sr_world ?S)")
  from assms(2,3) obtain q r D0 where D0: "D = conn_step L D0 (ReadRequest q)" "accepted q"
      "cn_phase D0 = Reading" "alike L (connection_at ?S i) D0" "parsed L q = Inr r"
      "progress L ?R q r ph (w_store (sr_world ?S) k)"
    by (auto simp: synced_def)
  have wf: "same_routes ?R (w_router (sr_world ?S))" "i < length (connections ?S)"
    "\<And>f. ph = CallSignal f \<Longrightarrow> signal_at f (w_router (sr_world ?S)) \<noteq> None"
    using assms(1) pool_wf_task [OF assms(1,3)] by (auto simp: pool_wf_def [of W0 P] phase_wf_def)
  have course: "on_course L ?R q r res (w_store W' k)"
    by (rule tick_progress [OF t D0(6) undisturbed_phase [OF assms(1,3,4)] wf(1) parsed_beast [OF D0(5)] wf(3)])
  have routes: "same_routes ?R (w_router W')" using wf(1) tick_frame(3) [OF t] by simp
  have resp: "response_for L (w_router (cn_world D0)) q =
      bind_res (answered L (slots_at ?R (req_path r)) q r) (\<lambda>x. Inr (fst x))"
    using alike_router [OF wf(1) D0(4)] D0(5) by (simp add: response_for_def)
  have world: "response_for L (w_router (cn_world D)) = response_for L (w_router W')"
    using alike_router [OF wf(1) D0(4)] same_routes_response [OF routes] by (simp add: D0(1) conn_step_routes)
  show ?thesis
  proof (cases res)
    case (Goes ph')
    have "alike L (connection_at (?S\<lparr>sr_world := W'\<rparr>) i) D0"
      using alike_trans [OF connection_at_other [OF _ _ wf(1)] D0(4), of "?S\<lparr>sr_world := W'\<rparr>"] routes by simp
    with D0(1-3,5) course Goes t show ?thesis
      by (auto simp: synced_def pool_tick_def Let_def on_course_def intro!: exI [of _ q] exI [of _ D0])
  next
    case (Responds x)
    with course resp have "response_for L (w_router (cn_world D0)) q = Inr x" by (auto simp: on_course_def)
    from read_answered [OF D0(3,2) this] D0(1,4) Responds t wf(2) world show ?thesis
      by (simp add: synced_def pool_tick_def Let_def alike_def connection_at_def)
  next
    case (Throws e)
    with course resp have "response_for L (w_router (cn_world D0)) q = Inl e" by (auto simp: on_course_def)
    from read_crashed [OF D0(3,2) this] D0(1,4) Throws t wf(2) world show ?thesis
      by (simp add: synced_def pool_tick_def Let_def alike_def connection_at_def)
  qed
qed

lemma synced_step:
  assumes "pool_step L P ev = Some P1" "pool_wf W0 P" "synced L W0 P i D" "i \<notin> po_foreign P \<or> quiet_world W0"
  shows "synced L W0 P1 i (conn_run L D (own_events i (outside_events [ev])))"
  using assms(1)
proof (cases rule: pool_step_cases)
  case (outside oe S1)
  with synced_outside [OF outside(2,4,6) assms(3)] show ?thesis by simp
next
  case (read j q)
  show ?thesis
  proof (cases "j = i")
    case True
    with read synced_read_own [OF assms(2) _ _ assms(3)] show ?thesis by simp
  next
    case False
    with read synced_read_other [OF assms(2,3) False] show ?thesis by simp
  qed
next
  case (tick j k ph)
  with synced_tick_own [OF assms(2,3) _ assms(4)] synced_tick_other [OF assms(2,3)] show ?thesis
    by (cases "j = i") simp_all
qed

lemma foreign_grows: "pool_step L P ev = Some P1 \<Longrightarrow> po_foreign P \<subseteq> po_foreign P1"
  by (erule pool_step_cases)
     (auto simp: pool_read_def pool_tick_def Let_def split: sum.splits tick_result.splits prod.splits)

lemma pool_run_synced:
  "pool_run L P evs = Some P1 \<Longrightarrow> pool_wf W0 P \<Longrightarrow> synced L W0 P i D \<Longrightarrow> i \<notin> po_foreign P1 \<or> quiet_world W0 \<Longrightarrow>
     synced L W0 P1 i (conn_run L D (own_events i (outside_events evs)))"
proof (induction evs arbitrary: P D)
  case Nil
  then show ?case by simp
next
  case (Cons ev evs)
  then obtain P' where P': "pool_step L P ev = Some P'" "pool_run L P' evs = Some P1"
    by (auto simp: bind_eq_Some_conv)
  have grows: "pool_run L Q fvs = Some P1 \<Longrightarrow> po_foreign Q \<subseteq> po_foreign P1" for Q fvs
    by (induction fvs arbitrary: Q) (auto simp: bind_eq_Some_conv dest: foreign_grows)
  have "i \<notin> po_foreign P \<or> quiet_world W0"
    using Cons.prems(4) foreign_grows [OF P'(1)] grows [OF P'(2)] by blast
  from Cons.IH [OF P'(2) pool_step_wf [OF P'(1) Cons.prems(2)] synced_step [OF P'(1) Cons.prems(2,3) this] Cons.prems(4)]
  have "synced L W0 P1 i (conn_run L D (own_events i (outside_events [ev]) @ own_events i (outside_events evs)))"
    by (simp add: conn_run_append)
  moreover have "own_events i (outside_events (ev # evs)) =
      own_events i (outside_events [ev]) @ own_events i (outside_events evs)"
    by (cases ev) (simp_all add: own_events_Cons [of i _ "outside_events evs"])
  ultimately show ?case by simp
qed

lemma pool_start_synced: "synced L W (pool_start W) i (newConnection W)"
  by (simp add: synced_def pool_start_def connection_at_def serving_start_def newListener_def)

text \<open>Between two requests the connection is where it would be alone.\<close>

lemma pool_run_connection:
  assumes "pool_run L (pool_start W) evs = Some P" "i < length (connections (po_serving P))" "po_tasks P i = None"
    and "i \<notin> po_foreign P \<or> quiet_world W"
  shows "let C = connections (po_serving P) ! i; D = conn_run L (newConnection W) (own_events i (outside_events evs)) in
    cn_phase C = cn_phase D \<and> cn_written C = cn_written D"
  using pool_run_synced [OF assms(1) pool_start_wf pool_start_synced assms(4)] assms(2,3)
  by (simp add: synced_def alike_def connection_at_def Let_def)

section \<open>Responses are complete under every schedule\<close>

definition objects_ok :: "dispatch_phase \<Rightarrow> request_impl \<times> response_impl \<Rightarrow> bool" where
  "objects_ok ph s \<longleftrightarrow> ri_beast (fst s) \<noteq> None \<and>
     (case ph of
        Finish rc \<Rightarrow> if rc < 0 then rp_beast (snd s) = Some fresh_response
          else \<exists>x. rp_beast (snd s) = Some x \<and> complete_response x
      | _ \<Rightarrow> rp_beast (snd s) = Some fresh_response)"

definition writes_complete :: "connection \<Rightarrow> bool" where
  "writes_complete C \<longleftrightarrow> (\<forall>r \<in> set (cn_written C). complete_response r) \<and>
     (\<forall>r. cn_phase C = Writing r \<longrightarrow> complete_response r)"

lemma answer_complete:
  assumes "answer L v k st = Inr (rc, st')" "ri_beast (fst (st k)) \<noteq> None" "rp_beast (snd (st k)) = Some fresh_response"
  shows "objects_ok (Finish rc) (st' k)"
  using assms by (auto simp: answer_def objects_ok_def req_getRequest_def res_getResponse_def complete_fill split: option.splits)

lemma call_tick_objects:
  assumes "call_tick L k c h rest W = (res, W')" "objects_ok (InCall c' rest' v') (w_store W k)"
  shows "(\<forall>x. res \<noteq> Responds x) \<and> (\<forall>ph. res = Goes ph \<longrightarrow> objects_ok ph (w_store W' k))"
proof -
  have "objects_ok (InCall c' rest' v') (w_store W' k)"
    using call_tick_store [OF assms(1)] assms(2) by (auto simp: objects_ok_def dest: call_slot_beast)
  moreover have "\<forall>ph. res = Goes ph \<longrightarrow> (\<exists>w. ph = CheckEnded c rest w)" "\<forall>x. res \<noteq> Responds x"
    using assms(1) by (auto simp: call_tick_def split: sum.splits)
  ultimately show ?thesis by (auto simp: objects_ok_def)
qed

lemma tick_objects:
  assumes "tick L k ph W = (res, W')" "objects_ok ph (w_store W k)"
  shows "case res of
      Goes ph' \<Rightarrow> objects_ok ph' (w_store W' k)
    | Responds x \<Rightarrow> complete_response x
    | Throws e \<Rightarrow> True"
proof (cases ph)
  case (InCall c rest v)
  show ?thesis
  proof (cases rest)
    case Nil
    with InCall assms show ?thesis by (auto simp: tick_def objects_ok_def)
  next
    case (Cons a rest')
    with InCall assms call_tick_objects [of L k c "snd a" rest' W res W' c rest v] show ?thesis
      by (cases a) (auto simp: tick_def split: tick_result.splits)
  qed
next
  case (CheckEnded c rest v)
  with assms show ?thesis by (auto simp: tick_def check_tick_def objects_ok_def split: option.splits)
next
  case (Fill v)
  with assms answer_complete [of L v k "w_store W"] show ?thesis
    by (auto simp: tick_def objects_ok_def split: sum.splits)
next
  case (Finish rc)
  with assms show ?thesis
    by (auto simp: tick_def finish_tick_def Let_def objects_ok_def req_getRequest_def res_getResponse_def
        notFound_def complete_fill split: if_splits)
qed (use assms in \<open>auto simp: tick_def objects_ok_def split: found.splits option.splits\<close>)

definition pool_complete :: "pool \<Rightarrow> bool" where
  "pool_complete P \<longleftrightarrow> list_all writes_complete (connections (po_serving P)) \<and>
     (\<forall>i k ph. po_tasks P i = Some (k, ph) \<longrightarrow> objects_ok ph (w_store (sr_world (po_serving P)) k))"

lemma list_all_update: "list_all p xs \<Longrightarrow> p x \<Longrightarrow> list_all p (xs[i := x])"
  by (auto simp: list_all_iff dest: set_update_subset_insert [THEN subsetD])

lemma outside_complete:
  assumes "serving_step L S ev = Some S1" "list_all writes_complete (connections S)"
    and "\<And>i io. ev = Peer i io \<Longrightarrow> accepted_read (connections S ! i) io = None"
  shows "list_all writes_complete (connections S1)"
proof (cases ev)
  case (Acceptor ok)
  with assms(1,2) show ?thesis
    by (auto simp: serving_step_def listener_step_connections writes_complete_def newConnection_def split: if_splits)
next
  case (Peer i io)
  let ?C = "(connections S ! i)\<lparr>cn_world := sr_world S\<rparr>"
  from assms(1) Peer have i: "i < length (connections S)" "connections S1 = (connections S)[i := conn_step L ?C io]"
    by (auto simp: serving_step_def Let_def split: if_splits)
  then have "writes_complete ?C" using assms(2) by (simp add: list_all_length writes_complete_def)
  moreover have "accepted_read ?C io = None"
    using assms(3) Peer by (simp add: accepted_read_def cong: io_event.case_cong)
  ultimately have "writes_complete (conn_step L ?C io)"
    by (cases "cn_phase ?C"; cases io)
       (auto simp: writes_complete_def conn_step_def accepted_read_def on_read_def accepted_def split: if_splits)
  with i assms(2) show ?thesis by (simp add: list_all_update)
qed

lemma pool_step_complete:
  assumes "pool_step L P ev = Some P1" "pool_complete P" "pool_wf W0 P"
  shows "pool_complete P1"
  using assms(1)
proof (cases rule: pool_step_cases)
  case (outside oe S1)
  have "list_all writes_complete (connections S1)"
    using assms(2) by (intro outside_complete [OF outside(2) _ outside(7)]) (simp_all add: pool_complete_def)
  with outside(3,4) assms(2) show ?thesis
    by (simp add: pool_complete_def)
next
  case (read i q)
  have c: "writes_complete (connections (po_serving P) ! i)"
    using assms(2) read(4) by (simp add: pool_complete_def list_all_length)
  have n: "k < w_next (sr_world (po_serving P))" if "po_tasks P j = Some (k, ph)" for j k ph
    using pool_wf_task(2) [OF assms(3) that] .
  show ?thesis
  proof (cases "parsed L q")
    case (Inl e)
    with read(6) c assms(2) show ?thesis
      by (auto simp: pool_complete_def pool_read_def begin_request_eq Let_def list_all_update writes_complete_def)
  next
    case (Inr r)
    with read(6) assms(2) n parsed_beast [OF Inr] show ?thesis
      by (auto simp: pool_complete_def pool_read_def begin_request_eq Let_def objects_ok_def)
  qed
next
  case (tick i k ph)
  let ?W = "sr_world (po_serving P)"
  obtain res W' where t: "tick L k ph ?W = (res, W')" by (cases "tick L k ph ?W")
  have c: "writes_complete (connections (po_serving P) ! i)"
    using assms(2) pool_wf_task(1) [OF assms(3) tick(2)] by (simp add: pool_complete_def list_all_length)
  have own: "objects_ok ph (w_store ?W k)" using assms(2) tick(2) by (simp add: pool_complete_def)
  have other: "objects_ok ph' (w_store W' k')" if "po_tasks P j = Some (k', ph')" "j \<noteq> i" for j k' ph'
  proof -
    have "k' \<noteq> k" using assms(3) that tick(2) unfolding pool_wf_def tasks_apart_def by metis
    with tick_frame(1) [OF t, of k'] that assms(2) show ?thesis by (simp add: pool_complete_def)
  qed
  from tick_objects [OF t own] c assms(2) tick(3) t show ?thesis
    by (cases res)
       (auto simp: pool_complete_def pool_tick_def Let_def other list_all_update writes_complete_def)
qed

lemma pool_run_complete:
  "pool_run L P evs = Some P1 \<Longrightarrow> pool_complete P \<Longrightarrow> pool_wf W0 P \<Longrightarrow> pool_complete P1"
  by (induction evs arbitrary: P) (auto simp: bind_eq_Some_conv dest: pool_step_complete pool_step_wf)

lemma pool_start_complete: "pool_complete (pool_start W)"
  by (simp add: pool_complete_def pool_start_def serving_start_def newListener_def)

section \<open>Whole sessions\<close>

lemma pool_step_task:
  assumes "pool_step L P ev = Some P1" "po_tasks P1 i \<noteq> None"
  shows "(own_events i (outside_events [ev]) = [] \<and> po_tasks P i \<noteq> None) \<or>
    (\<exists>q. own_events i (outside_events [ev]) = [ReadRequest q])"
  using assms(1)
proof (cases rule: pool_step_cases)
  case (outside oe S1)
  with assms(2) show ?thesis by (cases oe) (auto simp: own_events_Cons [of i])
next
  case (read j q)
  with assms(2) show ?thesis
    by (auto simp: pool_read_def Let_def split: sum.splits if_splits)
next
  case (tick j k ph)
  with assms(2) show ?thesis
    by (auto simp: pool_tick_def Let_def split: tick_result.splits prod.splits if_splits)
qed

text \<open>A request is in progress only if the last event of its peer was a request.\<close>

lemma pool_run_task:
  "pool_run L P evs = Some P1 \<Longrightarrow> po_tasks P1 i \<noteq> None \<Longrightarrow>
     (own_events i (outside_events evs) = [] \<and> po_tasks P i \<noteq> None) \<or>
     (\<exists>es q. own_events i (outside_events evs) = es @ [ReadRequest q])"
proof (induction evs arbitrary: P)
  case Nil
  then show ?case by simp
next
  case (Cons ev evs)
  then obtain P' where P': "pool_step L P ev = Some P'" "pool_run L P' evs = Some P1"
    by (auto simp: bind_eq_Some_conv)
  have own: "own_events i (outside_events (ev # evs)) =
      own_events i (outside_events [ev]) @ own_events i (outside_events evs)"
    by (cases ev) (simp_all add: own_events_Cons [of i _ "outside_events evs"])
  from Cons.IH [OF P'(2) Cons.prems(2)] show ?case
  proof
    assume tail: "own_events i (outside_events evs) = [] \<and> po_tasks P' i \<noteq> None"
    with pool_step_task [OF P'(1), of i] own show ?thesis by auto
  next
    assume "\<exists>es q. own_events i (outside_events evs) = es @ [ReadRequest q]"
    with own show ?thesis by (metis append_assoc)
  qed
qed

lemma pool_pipeline:
  assumes "pool_run L (pool_start W) evs = Some P" "i < length (connections (po_serving P))"
    and "own_events i (outside_events evs) = whole_session qs" "i \<notin> po_foreign P \<or> quiet_world W"
    and "\<forall>q \<in> set qs. accepted q \<and> response_for L (w_router W) q = Inr (f q)"
  shows "cn_phase (connections (po_serving P) ! i) = Returned 0 \<and> cn_written (connections (po_serving P) ! i) = map f qs"
proof -
  have "\<nexists>es q. whole_session qs = es @ [ReadRequest q]" "whole_session qs \<noteq> []"
    by (simp_all add: whole_session_def)
  with pool_run_task [OF assms(1), of i] assms(3) have "po_tasks P i = None" by metis
  from pool_run_connection [OF assms(1,2) this assms(4)] pipeline_run [OF assms(5)] assms(3)
  show ?thesis by (simp add: whole_session_def Let_def del: conn_run_Cons concat.simps)
qed

lemma quiet_world_by_slots:
  assumes "routeAllMap (w_router W) = []" "none_ended W"
    and "\<And>p sl. slots_at (w_router W) p = Some sl \<Longrightarrow> quiet_slots sl"
  shows "quiet_world W"
proof -
  have "quiet_slots (sg_slots g)" if g: "signal_at f (w_router W) = Some g" for f g
  proof -
    obtain k where k: "smap_find (routeGetMap (w_router W)) k = Some g"
      using g assms(1) by (auto simp: signal_at_def smap_find_def split: found.splits)
    then have "slots_at (w_router W) k = Some (sg_slots g)"
      by (simp add: slots_at_def selected_def find_signal_def)
    then show ?thesis by (rule assms(3))
  qed
  with assms(2) show ?thesis by (simp add: quiet_world_def)
qed

lemma two_sessions_scheduled:
  assumes "response_for L (w_router W) q = Inr x"
  shows "\<exists>evs P. pool_run L (pool_start W) evs = Some P \<and> outside_events evs = accepts_two @ two_sessions q \<and>
    po_foreign P = {} \<and> 2 \<le> length (connections (po_serving P))"
proof -
  obtain S where S: "serving_run L (serving_start W) (accepts_two @ two_sessions q) = Some S" "2 \<le> length (connections S)"
    using two_sessions_run [OF assms] by blast
  from serving_run_schedule [OF S(1)] obtain evs S2 where
    P: "pool_run L (idle_pool (serving_start W)) evs = Some (idle_pool S2)" "outside_events evs = accepts_two @ two_sessions q"
      "same_view S S2"
    by blast
  from P(3) have "length (connections S2) = length (connections S)"
    unfolding same_view_def using map_eq_imp_length_eq by blast
  with P S(2) show ?thesis
    by (intro exI [of _ evs] exI [of _ "idle_pool S2"]) (simp add: pool_start_idle idle_pool_def)
qed

end
