(* ===== verification/Schedules.thy ===== *)
theory Schedules
  imports Isolation
begin

text \<open>
  Schedules of two connections on one route, and what holds of every schedule: a route
  whose handler ends the response with the path that was asked for, a schedule in which
  both connections get their own path, and one in which the first connection gets the
  path of the second; then the properties of the server on several threads.
\<close>

section \<open>Two connections, one request each\<close>

definition two_reads :: "http_request \<Rightarrow> http_request \<Rightarrow> pool_event list" where
  "two_reads p q = map Outside (accepts_two @ [Peer 0 (Handshaken True), Peer 1 (Handshaken True),
     Peer 0 (ReadRequest p), Peer 1 (ReadRequest q)])"

definition two_writes :: "pool_event list" where
  "two_writes = [Outside (Peer 0 (Written True)), Outside (Peer 1 (Written True))]"

definition two_rounds :: "http_request \<Rightarrow> http_request \<Rightarrow> nat list \<Rightarrow> pool_event list" where
  "two_rounds p q ts = two_reads p q @ map Tick ts @ two_writes"

lemma two_rounds_own:
  "own_events 0 (outside_events (two_rounds p q ts)) = [Handshaken True, ReadRequest p, Written True]"
  "own_events 1 (outside_events (two_rounds p q ts)) = [Handshaken True, ReadRequest q, Written True]"
proof -
  have "outside_events (map Tick ts @ evs) = outside_events evs" for evs
    by (induction ts) simp_all
  then show "own_events 0 (outside_events (two_rounds p q ts)) = [Handshaken True, ReadRequest p, Written True]"
    "own_events 1 (outside_events (two_rounds p q ts)) = [Handshaken True, ReadRequest q, Written True]"
    by (simp_all add: two_rounds_def two_reads_def two_writes_def accepts_two_def)
qed


lemma pool_accepts: "pool_run L (pool_start W) (map Outside accepts_two) = Some (idle_pool (two_connections W))"
  by (simp add: accepts_two_def pool_start_def serving_start_def pool_step_def terminated_def newListener_def
     pool_outside_def serving_step_def listener_step_def two_connections_def idle_pool_def crashed_def newConnection_def)


definition both_reading :: "world \<Rightarrow> request_impl \<Rightarrow> request_impl \<Rightarrow> pool" where
  "both_reading W r s =
     (let k = w_next W; C = (newConnection W)\<lparr>cn_phase := Reading\<rparr>;
          obj = (\<lambda>r. (r, newResponseImpl\<lparr>rp_beast := Some fresh_response\<rparr>))
      in \<lparr>po_serving = \<lparr>sr_listener = \<lparr>ln_phase = Accepting, ln_connectionList = [C, C], ln_spawned = 2\<rparr>,
           sr_world = W\<lparr>w_store := (w_store W)(k := obj r, Suc k := obj s), w_next := k + 2\<rparr>\<rparr>,
         po_tasks = [0 \<mapsto> (k, Locate), 1 \<mapsto> (Suc k, Locate)], po_foreign = {}\<rparr>)"

lemma pool_reads:
  assumes "accepted p" "accepted q" "parsed L p = Inr r" "parsed L q = Inr s"
  shows "pool_run L (pool_start W) (two_reads p q) = Some (both_reading W r s)"
  using assms
  unfolding two_reads_def map_append pool_run_append pool_accepts
  by (simp add: idle_pool_def two_connections_def pool_step_def terminated_def pool_outside_def serving_step_def
      crashed_def newConnection_def conn_step_def Let_def accepted_read_def pool_read_def begin_request_eq
      put_objects_def both_reading_def)


text \<open>A handler that returns one text and ends the response with another one.\<close>

definition ending_route :: "router \<Rightarrow> found \<Rightarrow> (request_impl \<Rightarrow> string) \<Rightarrow> (request_impl \<Rightarrow> string) \<Rightarrow> bool" where
  "ending_route R f v b \<longleftrightarrow> (\<exists>g pr h. signal_at f R = Some g \<and> sg_slots g = [(pr, Some h)] \<and>
     (\<forall>r s. h r s = Inr (v r, [OpEnd (b r)])))"

definition world_at :: "router \<Rightarrow> store \<Rightarrow> nat \<Rightarrow> world" where
  "world_at R st n = \<lparr>w_router = R, w_store = st, w_next = n\<rparr>"

definition ended :: "string \<Rightarrow> response_impl" where
  "ended t = newResponseImpl\<lparr>rp_beast := Some fresh_response, rp_body := t, rp_writableEnded := True\<rparr>"

lemma ended_simps [simp]: "rp_writableEnded (ended t)" "rp_body (ended t) = t"
  by (simp_all add: ended_def)

lemma ending_route_found: "ending_route R f v b \<Longrightarrow> f \<noteq> NotFound"
  by (auto simp: ending_route_def signal_at_def)

lemma newResponse_open [simp]: "\<not> rp_writableEnded newResponseImpl"
  by (simp add: newResponseImpl_def)

lemma find_signal_mark:
  "find_signal p (routeGetMap (mark_signal k f R)) (routeAllMap (mark_signal k f R)) =
     find_signal p (routeGetMap R) (routeAllMap R)"
  by (rule same_routes_find) (simp add: same_routes_mark)

lemma world_ticks:
  "st k = (r, x) \<Longrightarrow> find_signal (req_path r) (routeGetMap R) (routeAllMap R) = f \<Longrightarrow> f \<noteq> NotFound \<Longrightarrow>
     tick L k Locate (world_at R st n) = (Goes (SetCombiner f), world_at R st n)"
  "tick L k (SetCombiner f) (world_at R st n) = (Goes (CallSignal f), world_at (mark_signal k f R) st n)"
  "tick L k (CallSignal f) (world_at R st n) =
     ((case signal_at f R of None \<Rightarrow> Throws NullDereference | Some g \<Rightarrow> Goes (InCall (sg_combiner g) (sg_slots g) [])),
      world_at R st n)"
  by (auto simp: tick_def world_at_def split: found.split option.split)

lemma world_call:
  assumes "st k = (r, newResponseImpl\<lparr>rp_beast := Some fresh_response\<rparr>)" "\<And>r s. h r s = Inr (v r, [OpEnd (b r)])"
  shows "tick L k (InCall c [(pr, Some h)] w) (world_at R st n) =
    (Goes (CheckEnded c [] (v r)), world_at R (st(k := (r, ended (b r)))) n)"
  using assms
  by (simp add: tick_def world_at_def call_tick_def call_slot_def apply_op_def res_end_def Let_def
      put_objects_def ended_def)

lemma world_check:
  "tick L k (CheckEnded (Some j) rest v) (world_at R st n) =
     (Goes (if rp_writableEnded (snd (st j)) then ReadBody j else InCall (Some j) rest v), world_at R st n)"
  by (simp add: tick_def world_at_def check_tick_def res_writableEnded_def)

lemma world_body: "tick L k (ReadBody j) (world_at R st n) = (Goes (Fill (rp_body (snd (st j)))), world_at R st n)"
  by (simp add: tick_def world_at_def res_body_def)

lemma world_return: "tick L k (InCall c [] w) (world_at R st n) = (Goes (Fill w), world_at R st n)"
  by (simp add: tick_def)

definition filled :: "lib \<Rightarrow> request_impl \<Rightarrow> string \<Rightarrow> http_response" where
  "filled L r v = fill_response L 200 (the (ri_beast r)) v fresh_response"

lemma world_fill:
  assumes "st k = (r, ended t)" "ri_beast r \<noteq> None"
  shows "tick L k (Fill v) (world_at R st n) =
    (Goes (Finish 0), world_at R (st(k := (r, (ended t)\<lparr>rp_beast := Some (filled L r v)\<rparr>))) n)"
  using assms
  by (auto simp: tick_def answer_def world_at_def req_getRequest_def res_getResponse_def ended_def filled_def)

lemma world_finish:
  assumes "st k = (r, s)" "ri_beast r \<noteq> None" "rp_beast s = Some x"
  shows "tick L k (Finish 0) (world_at R st n) = (Responds x, world_at R st n)"
proof -
  have "st(k := (r, s\<lparr>rp_beast := Some x\<rparr>)) = st" using assms by (simp add: fun_upd_idem)
  with assms show ?thesis
  by (auto simp: tick_def finish_tick_def world_at_def req_getRequest_def res_getResponse_def res_parseResponse_def
    put_objects_def Let_def)
qed

definition two_pool ::
  "connection list \<Rightarrow> world \<Rightarrow> (nat \<Rightarrow> (nat \<times> dispatch_phase) option) \<Rightarrow> nat set \<Rightarrow> pool" where
  "two_pool Cs W T F = \<lparr>po_serving = \<lparr>sr_listener = \<lparr>ln_phase = Accepting, ln_connectionList = Cs, ln_spawned = 2\<rparr>,
     sr_world = W\<rparr>, po_tasks = T, po_foreign = F\<rparr>"

lemma two_pool_tick:
  assumes "\<not> list_ex crashed Cs" "T i = Some (k, ph)"
  shows "pool_run L (two_pool Cs W T F) (Tick i # evs) =
    (case tick L k ph W of
       (Goes ph', W') \<Rightarrow> pool_run L (two_pool Cs W' (T(i \<mapsto> (k, ph'))) (if takes_foreign k ph ph' then insert i F else F)) evs
     | (Responds x, W') \<Rightarrow> pool_run L (two_pool (Cs[i := (Cs ! i)\<lparr>cn_phase := Writing x, cn_world := W'\<rparr>]) W' (T(i := None)) F) evs
     | (Throws e, W') \<Rightarrow> pool_run L (two_pool (Cs[i := (Cs ! i)\<lparr>cn_world := W', cn_phase := Crashed e\<rparr>]) W' (T(i := None)) F) evs)"
  using assms
  by (auto simp: two_pool_def pool_step_def terminated_def pool_tick_def set_connection_def split: prod.split tick_result.split)

lemma both_reading_two_pool:
  "both_reading W r s = two_pool (replicate 2 ((newConnection W)\<lparr>cn_phase := Reading\<rparr>))
     (world_at (w_router W) ((w_store W)(w_next W := (r, newResponseImpl\<lparr>rp_beast := Some fresh_response\<rparr>),
        Suc (w_next W) := (s, newResponseImpl\<lparr>rp_beast := Some fresh_response\<rparr>))) (w_next W + 2))
     [0 \<mapsto> (w_next W, Locate), 1 \<mapsto> (Suc (w_next W), Locate)] {}"
  by (simp add: both_reading_def Let_def two_pool_def world_at_def numeral_2_eq_2)

lemma two_pool_writes:
  assumes "cn_phase C0 = Writing x" "cn_phase C1 = Writing y"
  shows "\<exists>P. pool_run L (two_pool [C0, C1] W (\<lambda>_. None) F) two_writes = Some P \<and> po_foreign P = F \<and>
    po_tasks P = (\<lambda>_. None) \<and> length (connections (po_serving P)) = 2 \<and>
    cn_written (connections (po_serving P) ! 0) = cn_written C0 @ [x] \<and>
    cn_written (connections (po_serving P) ! 1) = cn_written C1 @ [y]"
  using assms
  by (simp add: two_writes_def two_pool_def pool_step_def terminated_def crashed_def accepted_read_def
      pool_outside_def serving_step_def conn_step_def Let_def)

lemmas world_run_simps = both_reading_two_pool two_pool_tick world_ticks world_check world_body world_return world_fill
  world_finish find_signal_mark signal_at_mark_own set_combiner_def Let_def takes_foreign_def numeral_2_eq_2
  crashed_def newConnection_def

lemma two_requests_run:
  assumes "ending_route (w_router W) f v b" "ri_beast r \<noteq> None" "ri_beast s \<noteq> None"
    and "find_signal (req_path r) (routeGetMap (w_router W)) (routeAllMap (w_router W)) = f"
    and "find_signal (req_path s) (routeGetMap (w_router W)) (routeAllMap (w_router W)) = f"
  shows "\<exists>C0 C1 V. pool_run L (both_reading W r s) (map Tick [0, 1, 0, 1, 1, 1, 1, 1, 0, 0, 0, 0, 0, 0, 1, 1]) =
      Some (two_pool [C0, C1] V (\<lambda>_. None) {0}) \<and> cn_phase C0 = Writing (filled L r (b s)) \<and>
      cn_phase C1 = Writing (filled L s (b s)) \<and> cn_written C0 = [] \<and> cn_written C1 = []" (is ?leak)
    and "\<exists>C0 C1 V. pool_run L (both_reading W r s) (map Tick [0, 1, 0, 1, 0, 0, 0, 0, 0, 0, 1, 1, 1, 1, 1, 1]) =
      Some (two_pool [C0, C1] V (\<lambda>_. None) {0}) \<and> cn_phase C0 = Writing (filled L r (v r)) \<and>
      cn_phase C1 = Writing (filled L s (b s)) \<and> cn_written C0 = [] \<and> cn_written C1 = []" (is ?lost)
    and "\<exists>C0 C1 V. pool_run L (both_reading W r s) (map Tick [0, 1, 0, 0, 1, 1, 1, 0, 0, 1, 1, 0, 0, 1, 1, 0]) =
      Some (two_pool [C0, C1] V (\<lambda>_. None) {}) \<and> cn_phase C0 = Writing (filled L r (b r)) \<and>
      cn_phase C1 = Writing (filled L s (b s)) \<and> cn_written C0 = [] \<and> cn_written C1 = []" (is ?fair)
proof -
  obtain g pr h where g: "signal_at f (w_router W) = Some g" "sg_slots g = [(pr, Some h)]"
    and h: "\<And>r s. h r s = Inr (v r, [OpEnd (b r)])"
    using assms(1) by (auto simp: ending_route_def)
  note call = world_call [where h = h and v = v and b = b, OF _ h]
  show ?leak
    using ending_route_found [OF assms(1)] assms(2-5) g
    by (simp add: world_run_simps call del: pool_run.simps(2)) (intro exI conjI; (rule refl)?; simp)
  show ?lost
    using ending_route_found [OF assms(1)] assms(2-5) g
    by (simp add: world_run_simps call del: pool_run.simps(2)) (intro exI conjI; (rule refl)?; simp)
  show ?fair
    using ending_route_found [OF assms(1)] assms(2-5) g
    by (simp add: world_run_simps call del: pool_run.simps(2)) (intro exI conjI; (rule refl)?; simp)
qed

lemma two_rounds_run:
  assumes "accepted p" "accepted q" "parsed L p = Inr r" "parsed L q = Inr s"
    and "\<exists>C0 C1 V. pool_run L (both_reading W r s) (map Tick ts) = Some (two_pool [C0, C1] V (\<lambda>_. None) F) \<and>
      cn_phase C0 = Writing x \<and> cn_phase C1 = Writing y \<and> cn_written C0 = [] \<and> cn_written C1 = []"
  shows "\<exists>P. pool_run L (pool_start W) (two_rounds p q ts) = Some P \<and> po_foreign P = F \<and>
    po_tasks P = (\<lambda>_. None) \<and> length (connections (po_serving P)) = 2 \<and>
    cn_written (connections (po_serving P) ! 0) = [x] \<and> cn_written (connections (po_serving P) ! 1) = [y]"
proof -
  obtain C0 C1 V where run: "pool_run L (both_reading W r s) (map Tick ts) = Some (two_pool [C0, C1] V (\<lambda>_. None) F)"
      "cn_written C0 = []" "cn_written C1 = []"
    and c: "cn_phase C0 = Writing x" "cn_phase C1 = Writing y"
    using assms(5) by blast
  from pool_reads [OF assms(1-4), of W] run two_pool_writes [OF c, of L V F]
  show ?thesis by (simp add: two_rounds_def pool_run_append)
qed

text \<open>The same route, with one connection.\<close>

lemma ending_route_response:
  assumes "ending_route R f v b" "parsed L p = Inr r"
    and "find_signal (req_path r) (routeGetMap R) (routeAllMap R) = f"
  shows "response_for L R p = Inr (filled L r (b r))"
proof -
  obtain g pr h where g: "signal_at f R = Some g" "sg_slots g = [(pr, Some h)]"
    and h: "\<And>r s. h r s = Inr (v r, [OpEnd (b r)])"
    using assms(1) by (auto simp: ending_route_def)
  have "slots_at R (req_path r) = Some [(pr, Some h)]"
    using assms(3) g by (simp add: slots_at_def selected_signal_at)
  with assms(2) parsed_beast [OF assms(2)] show ?thesis
    by (simp add: response_for_def answered_def call_slot_def apply_op_def res_end_def Let_def filled_def h)
qed

lemma request_alone:
  assumes "accepted p" "response_for L (w_router W) p = Inr x"
  shows "cn_written (conn_run L (newConnection W) [Handshaken True, ReadRequest p, Written True]) = [x]"
proof -
  let ?C = "(newConnection W)\<lparr>cn_phase := Reading\<rparr>"
  have "conn_step L (newConnection W) (Handshaken True) = ?C"
    by (simp add: conn_step_def newConnection_def)
  moreover have "cn_phase (conn_step L ?C (ReadRequest p)) = Writing x \<and> cn_written (conn_step L ?C (ReadRequest p)) = []"
    using read_answered [OF _ assms(1), of ?C] assms(2) by (simp add: newConnection_def)
  ultimately show ?thesis by (simp add: conn_step_def [of L "conn_step L ?C (ReadRequest p)"])
qed

section \<open>A route that answers with the path\<close>

definition path_slots :: slots where
  "path_slots = [(10, Some (\<lambda>req res. Inr ([], [OpEnd (req_path req)])))]"

definition path_world :: world where
  "path_world = \<lparr>w_router = newRouteImpl\<lparr>routeGetMap := [(''*'', \<lparr>sg_slots = path_slots, sg_combiner = None\<rparr>)]\<rparr>,
     w_store = example_store, w_next = 0\<rparr>"

definition path_request :: "string \<Rightarrow> http_request" where
  "path_request t = example_request\<lparr>rq_target := t\<rparr>"

lemma path_route:
  "ending_route (w_router path_world) (InMethod ''*'') (\<lambda>_. []) req_path"
  "find_signal p (routeGetMap (w_router path_world)) (routeAllMap (w_router path_world)) = InMethod ''*''"
  by (simp_all add: ending_route_def path_world_def path_slots_def signal_at_def smap_find_def find_signal_def newRouteImpl_def)

lemma parsed_path_at:
  assumes "\<not> (case bind_res (parsed L q) (\<lambda>r. Inr (req_path r)) of Inl _ \<Rightarrow> True | Inr p \<Rightarrow> p \<noteq> t)"
  shows "\<exists>r. parsed L q = Inr r \<and> req_path r = t"
  using assms by (cases "parsed L q") auto

lemma path_parsed:
  "\<exists>r. parsed example_lib (path_request ''/alice'') = Inr r \<and> req_path r = ''/alice''"
  "\<exists>r. parsed example_lib (path_request ''/bob'') = Inr r \<and> req_path r = ''/bob''"
  by (rule parsed_path_at; code_simp)+

lemma path_accepted: "accepted (path_request ''/alice'')" "accepted (path_request ''/bob'')"
  by (simp_all add: accepted_def accepted_method_def illegal_target_def example_request_def path_request_def)

abbreviation alice_and_bob :: "nat list \<Rightarrow> pool_event list" where
  "alice_and_bob \<equiv> two_rounds (path_request ''/alice'') (path_request ''/bob'')"

lemma alice_and_bob_runs:
  "\<exists>P r. pool_run example_lib (pool_start path_world) (alice_and_bob [0, 1, 0, 0, 1, 1, 1, 0, 0, 1, 1, 0, 0, 1, 1, 0]) = Some P \<and>
     po_foreign P = {} \<and> length (connections (po_serving P)) = 2 \<and> po_tasks P = (\<lambda>_. None) \<and>
     parsed example_lib (path_request ''/alice'') = Inr r \<and> req_path r = ''/alice''"
  "\<exists>P r. pool_run example_lib (pool_start path_world) (alice_and_bob [0, 1, 0, 1, 1, 1, 1, 1, 0, 0, 0, 0, 0, 0, 1, 1]) = Some P \<and>
     length (connections (po_serving P)) = 2 \<and> req_path r = ''/alice'' \<and>
     cn_written (connections (po_serving P) ! 0) = [filled example_lib r ''/bob'']"
proof -
  obtain r s where rs: "parsed example_lib (path_request ''/alice'') = Inr r" "req_path r = ''/alice''"
    "parsed example_lib (path_request ''/bob'') = Inr s" "req_path s = ''/bob''"
    using path_parsed by blast
  have "ri_beast r \<noteq> None" "ri_beast s \<noteq> None" using parsed_beast rs(1,3) by blast+
  note run = two_requests_run [OF path_route(1) this path_route(2) path_route(2)]
  from two_rounds_run [OF path_accepted rs(1,3) run(3)] rs(1,2)
  show "\<exists>P r. pool_run example_lib (pool_start path_world) (alice_and_bob [0, 1, 0, 0, 1, 1, 1, 0, 0, 1, 1, 0, 0, 1, 1, 0]) = Some P \<and>
     po_foreign P = {} \<and> length (connections (po_serving P)) = 2 \<and> po_tasks P = (\<lambda>_. None) \<and>
     parsed example_lib (path_request ''/alice'') = Inr r \<and> req_path r = ''/alice''"
    by (elim exE conjE) (intro exI conjI; assumption)
  from two_rounds_run [OF path_accepted rs(1,3) run(1)] rs(2,4)
  show "\<exists>P r. pool_run example_lib (pool_start path_world) (alice_and_bob [0, 1, 0, 1, 1, 1, 1, 1, 0, 0, 0, 0, 0, 0, 1, 1]) = Some P \<and>
     length (connections (po_serving P)) = 2 \<and> req_path r = ''/alice'' \<and>
     cn_written (connections (po_serving P) ! 0) = [filled example_lib r ''/bob'']"
    by (elim exE conjE) (intro exI conjI; (assumption | simp))
qed

section \<open>Properties\<close>

text \<open>
  C2. On any number of threads, under every schedule of the statements of all
  coroutines: a connection that is between two requests is at the same point and has
  written the same responses as if it were alone with the events of its own peer, provided
  that each of its calls of a signal took the combiner that it had set itself, or that no
  handler ever ends a response.
\<close>

theorem threads_isolated:
  assumes "pool_run L (pool_start W) evs = Some P" "i < length (connections (po_serving P))" "po_tasks P i = None"
    and "i \<notin> po_foreign P \<or> quiet_world W"
  shows "let C = connections (po_serving P) ! i; D = conn_run L (newConnection W) (own_events i (outside_events evs)) in
    cn_phase C = cn_phase D \<and> cn_written C = cn_written D"
  using assms by (rule pool_run_connection)

theorem threads_isolated_witness:
  "\<exists>P r. pool_run example_lib (pool_start path_world) (alice_and_bob [0, 1, 0, 0, 1, 1, 1, 0, 0, 1, 1, 0, 0, 1, 1, 0]) = Some P \<and>
    req_path r = ''/alice'' \<and> cn_written (connections (po_serving P) ! 0) = [filled example_lib r ''/alice'']"
proof -
  obtain P r where P: "pool_run example_lib (pool_start path_world) (alice_and_bob [0, 1, 0, 0, 1, 1, 1, 0, 0, 1, 1, 0, 0, 1, 1, 0]) = Some P"
    "po_foreign P = {}" "length (connections (po_serving P)) = 2" "po_tasks P = (\<lambda>_. None)"
    and r: "parsed example_lib (path_request ''/alice'') = Inr r" "req_path r = ''/alice''"
    using alice_and_bob_runs(1) by (elim exE conjE) (rule that; assumption)
  have "0 < length (connections (po_serving P))" "po_tasks P 0 = None" "0 \<notin> po_foreign P \<or> quiet_world path_world"
    using P(2-4) by simp_all
  note isolated = threads_isolated [OF P(1) this]
  from ending_route_response [OF path_route(1) r(1) path_route(2)]
  have "response_for example_lib (w_router path_world) (path_request ''/alice'') = Inr (filled example_lib r ''/alice'')"
    by (simp add: r(2))
  note alone = request_alone [OF path_accepted(1) this]
  from isolated have "cn_written (connections (po_serving P) ! 0) = [filled example_lib r ''/alice'']"
    by (simp only: Let_def two_rounds_own(1) alone)
  with P(1) r(2) show ?thesis by blast
qed

text \<open>
  C3. One client can be sent what was written for another one.  On every server with a route
  whose only handler ends the response with some text of the request, and for any two
  acceptable requests to that route that are parsed, there is a schedule of two threads
  in which the first connection is sent the text for the second request, although alone
  it would be sent its own.
\<close>

theorem race_reaches_the_client:
  assumes "ending_route (w_router W) f v b" "accepted p" "accepted q" "parsed L p = Inr r" "parsed L q = Inr s"
    and "find_signal (req_path r) (routeGetMap (w_router W)) (routeAllMap (w_router W)) = f"
    and "find_signal (req_path s) (routeGetMap (w_router W)) (routeAllMap (w_router W)) = f"
  shows "\<exists>evs P. pool_run L (pool_start W) evs = Some P \<and>
    own_events 0 (outside_events evs) = [Handshaken True, ReadRequest p, Written True] \<and>
    own_events 1 (outside_events evs) = [Handshaken True, ReadRequest q, Written True] \<and>
    map rs_body (cn_written (connections (po_serving P) ! 0)) = [b s] \<and>
    map rs_body (cn_written (conn_run L (newConnection W) (own_events 0 (outside_events evs)))) = [b r]"
proof -
  have "ri_beast r \<noteq> None" "ri_beast s \<noteq> None" using parsed_beast assms(4,5) by blast+
  note run = two_requests_run(1) [OF assms(1) this assms(6,7)]
  note alone = request_alone [OF assms(2) ending_route_response [OF assms(1,4,6)]]
  from two_rounds_run [OF assms(2-5) run] obtain P where
    P: "pool_run L (pool_start W) (two_rounds p q [0, 1, 0, 1, 1, 1, 1, 1, 0, 0, 0, 0, 0, 0, 1, 1]) = Some P"
      "cn_written (connections (po_serving P) ! 0) = [filled L r (b s)]"
    by blast
  have "map rs_body (cn_written (connections (po_serving P) ! 0)) = [b s]"
    using P(2) by (simp add: filled_def fill_response_def)
  moreover have "map rs_body (cn_written (conn_run L (newConnection W)
      (own_events 0 (outside_events (two_rounds p q [0, 1, 0, 1, 1, 1, 1, 1, 0, 0, 0, 0, 0, 0, 1, 1]))))) = [b r]"
    unfolding two_rounds_own(1) alone by (simp add: filled_def fill_response_def)
  ultimately show ?thesis
    by (intro exI conjI) (rule P(1), rule two_rounds_own(1), rule two_rounds_own(2), assumption+)
qed

theorem race_reaches_the_client_witness:
  "\<exists>evs P. pool_run example_lib (pool_start path_world) evs = Some P \<and>
     own_events 0 (outside_events evs) = [Handshaken True, ReadRequest (path_request ''/alice''), Written True] \<and>
     map rs_body (cn_written (connections (po_serving P) ! 0)) = [''/bob'']"
proof -
  obtain r s where rs: "parsed example_lib (path_request ''/alice'') = Inr r"
    "parsed example_lib (path_request ''/bob'') = Inr s" "req_path s = ''/bob''"
    using path_parsed by blast
  from race_reaches_the_client [OF path_route(1) path_accepted rs(1,2) path_route(2) path_route(2)] show ?thesis
    unfolding rs(3) by (elim exE conjE) (intro exI conjI; assumption)
qed

text \<open>
  C9. The model with one thread is one of the schedules: every run of the server in which each
  request is handled at once is a run of the pool with the same events of the peers,
  no request left in progress, and nothing that the peers or the log could tell apart; as long
  as the server runs, the two states are equal.
\<close>

theorem serving_is_schedule:
  assumes "serving_run L (serving_start W) evs = Some S"
  shows "\<exists>pevs P. pool_run L (pool_start W) pevs = Some P \<and> outside_events pevs = evs \<and> po_foreign P = {} \<and>
    po_tasks P = (\<lambda>_. None) \<and> same_view S (po_serving P) \<and> (\<not> terminated S \<longrightarrow> po_serving P = S)"
proof -
  obtain pevs S2 where "pool_run L (idle_pool (serving_start W)) pevs = Some (idle_pool S2)" "outside_events pevs = evs"
      "same_view S S2" "\<not> terminated S \<longrightarrow> S2 = S"
    using serving_run_schedule [OF assms] by blast
  then show ?thesis
    by (intro exI [of _ pevs] exI [of _ "idle_pool S2"]) (simp add: pool_start_idle idle_pool_def)
qed

theorem serving_is_schedule_witness:
  "\<exists>pevs P. pool_run example_lib (pool_start example_world) pevs = Some P \<and>
     outside_events pevs = accepts_two @ two_sessions example_request \<and> po_foreign P = {}"
proof -
  obtain S where "serving_run example_lib (serving_start example_world) (accepts_two @ two_sessions example_request) = Some S"
    using two_sessions_run [OF example_response] by blast
  from serving_is_schedule [OF this] show ?thesis by blast
qed

text \<open>
  On any number of threads, under every schedule, whatever the peers send and whatever the
  handlers do, even when responses are mixed up: every response that has been written is
  complete.  Its status is 200 or 404, its Content-Length is the length of its body, and
  the version, keep-alive, Server and Content-Type fields are set.
\<close>

theorem threads_write_complete:
  assumes "pool_run L (pool_start W) evs = Some P" "C \<in> set (connections (po_serving P))" "x \<in> set (cn_written C)"
  shows "complete_response x"
  using pool_run_complete [OF assms(1) pool_start_complete pool_start_wf] assms(2,3)
  by (simp add: pool_complete_def list_all_iff writes_complete_def)

theorem threads_write_complete_witness:
  "\<exists>r. req_path r = ''/alice'' \<and> complete_response (filled example_lib r ''/bob'')"
proof -
  obtain P r where P: "pool_run example_lib (pool_start path_world) (alice_and_bob [0, 1, 0, 1, 1, 1, 1, 1, 0, 0, 0, 0, 0, 0, 1, 1]) = Some P"
    "length (connections (po_serving P)) = 2" "req_path r = ''/alice''"
    "cn_written (connections (po_serving P) ! 0) = [filled example_lib r ''/bob'']"
    using alice_and_bob_runs(2) by (elim exE conjE) (rule that; assumption)
  from P(2) have "connections (po_serving P) ! 0 \<in> set (connections (po_serving P))" by simp
  from threads_write_complete [OF P(1) this] P(3,4) show ?thesis by auto
qed

end
