(* ===== verification/Liveness.thy ===== *)
theory Liveness
  imports Schedules
begin

text \<open>
  What no schedule can do: keep a request from being answered, or make the process end
  other than by an exception of the parser or of a handler.  \<open>turns_left\<close> is the measure
  of the statements of a request.
\<close>

section \<open>Every request is finished after boundedly many turns\<close>

definition slots_bounded :: "nat \<Rightarrow> router \<Rightarrow> bool" where
  "slots_bounded n R \<longleftrightarrow> (\<forall>f g. signal_at f R = Some g \<longrightarrow> length (sg_slots g) \<le> n)"

fun turns_left :: "nat \<Rightarrow> dispatch_phase \<Rightarrow> nat" where
  "turns_left n Locate = 2 * n + 6"
| "turns_left n (SetCombiner f) = 2 * n + 5"
| "turns_left n (CallSignal f) = 2 * n + 4"
| "turns_left n (InCall c rest v) = 2 * length rest + 3"
| "turns_left n (CheckEnded c rest v) = 2 * length rest + 4"
| "turns_left n (ReadBody j) = 3"
| "turns_left n (Fill v) = 2"
| "turns_left n (Finish rc) = 1"

lemma slots_bounded_same: "same_routes R R' \<Longrightarrow> slots_bounded n R' = slots_bounded n R"
proof -
  assume same: "same_routes R R'"
  have "(\<forall>g. signal_at f R' = Some g \<longrightarrow> length (sg_slots g) \<le> n) \<longleftrightarrow>
      (\<forall>g. signal_at f R = Some g \<longrightarrow> length (sg_slots g) \<le> n)" for f
    using same [unfolded same_routes_def, rule_format, of f]
    by (cases "signal_at f R'"; cases "signal_at f R") auto
  then show ?thesis by (auto simp: slots_bounded_def)
qed

lemma tick_decreases:
  assumes "tick L k ph W = (Goes ph', W')" "slots_bounded n (w_router W)"
  shows "turns_left n ph' < turns_left n ph"
  using assms
  by (cases ph) (fastforce simp: tick_def call_tick_def check_tick_def finish_tick_def slots_bounded_def Let_def
      split: found.splits option.splits list.splits sum.splits prod.splits if_splits)+

lemma turns_left_pos: "0 < turns_left n ph"
  by (cases ph) simp_all

lemma pool_step_keeps_task:
  assumes "pool_step L P ev = Some P1" "po_tasks P i = Some t" "ev \<noteq> Tick i"
  shows "po_tasks P1 i = Some t"
  using assms(1)
proof (cases rule: pool_step_cases)
  case (read j q)
  with assms(2) show ?thesis by (auto simp: pool_read_def Let_def split: sum.splits)
next
  case (tick j k ph)
  with assms(2,3) show ?thesis
    by (auto simp: pool_tick_def Let_def split: tick_result.splits prod.splits)
qed (use assms(2) in simp)

text \<open>A turn of a request in progress.\<close>

lemma pool_step_turn:
  assumes "pool_step L P (Tick i) = Some P1" "pool_wf W0 P" "po_tasks P i = Some (k, ph)" "slots_bounded n (w_router W0)"
  shows "(\<exists>ph'. po_tasks P1 i = Some (k, ph') \<and> turns_left n ph' < turns_left n ph) \<or>
    (po_tasks P1 i = None \<and> (\<exists>x. cn_phase (connections (po_serving P1) ! i) = Writing x)) \<or>
    (po_tasks P1 i = None \<and> (\<exists>e. cn_phase (connections (po_serving P1) ! i) = Crashed e))"
proof -
  let ?S = "po_serving P"
  obtain res W' where t: "tick L k ph (sr_world ?S) = (res, W')" by (cases "tick L k ph (sr_world ?S)")
  have P1: "P1 = pool_tick L i k ph P" using assms(1,3) by (simp add: pool_step_def split: if_splits)
  have i: "i < length (connections ?S)" by (rule pool_wf_task(1) [OF assms(2,3)])
  have n: "slots_bounded n (w_router (sr_world ?S))"
    using assms(2,4) slots_bounded_same by (auto simp: pool_wf_def)
  show ?thesis
  proof (cases res)
    case (Goes ph')
    with t P1 tick_decreases [OF _ n, of L k ph ph' W'] show ?thesis by (simp add: pool_tick_def Let_def)
  qed (use t P1 i in \<open>simp_all add: pool_tick_def Let_def\<close>)
qed

lemma request_finishes:
  "pool_run L P evs = Some P' \<Longrightarrow> pool_wf W0 P \<Longrightarrow> slots_bounded n (w_router W0) \<Longrightarrow> po_tasks P i = Some (k, ph) \<Longrightarrow>
     (\<exists>es fs Q. evs = es @ fs \<and> pool_run L P es = Some Q \<and> po_tasks Q i = None \<and>
        ((\<exists>x. cn_phase (connections (po_serving Q) ! i) = Writing x) \<or>
         (\<exists>e. cn_phase (connections (po_serving Q) ! i) = Crashed e))) \<or>
     (count_list evs (Tick i) < turns_left n ph \<and> po_tasks P' i \<noteq> None)"
proof (induction evs arbitrary: P ph)
  case Nil
  then show ?case by (simp add: turns_left_pos)
next
  case (Cons ev evs)
  then obtain P1 where P1: "pool_step L P ev = Some P1" "pool_run L P1 evs = Some P'"
    by (auto simp: bind_eq_Some_conv)
  note wf = pool_step_wf [OF P1(1) Cons.prems(2)]
  let ?done = "\<lambda>P evs. \<exists>es fs Q. evs = es @ fs \<and> pool_run L P es = Some Q \<and> po_tasks Q i = None \<and>
        ((\<exists>x. cn_phase (connections (po_serving Q) ! i) = Writing x) \<or>
         (\<exists>e. cn_phase (connections (po_serving Q) ! i) = Crashed e))"
  have later: "?done P (ev # evs)" if later1: "?done P1 evs"
  proof -
    from later1 obtain es fs Q where "evs = es @ fs" "pool_run L P1 es = Some Q" "po_tasks Q i = None"
        "(\<exists>x. cn_phase (connections (po_serving Q) ! i) = Writing x) \<or>
         (\<exists>e. cn_phase (connections (po_serving Q) ! i) = Crashed e)"
      by blast
    with P1(1) show ?thesis by (intro exI [of _ "ev # es"] exI [of _ fs] exI [of _ Q]) simp
  qed
  show ?case
  proof (cases "ev = Tick i")
    case False
    from pool_step_keeps_task [OF P1(1) Cons.prems(4) False]
    have "po_tasks P1 i = Some (k, ph)" .
    from Cons.IH [OF P1(2) wf Cons.prems(3) this] later False show ?thesis by auto
  next
    case True
    from pool_step_turn [OF P1(1) [unfolded True] Cons.prems(2,4,3)] show ?thesis
    proof (elim disjE exE conjE)
      fix ph'
      assume ph': "po_tasks P1 i = Some (k, ph')" "turns_left n ph' < turns_left n ph"
      from Cons.IH [OF P1(2) wf Cons.prems(3) ph'(1)] later True ph'(2) show ?thesis by auto
    next
      fix x
      assume "po_tasks P1 i = None" "cn_phase (connections (po_serving P1) ! i) = Writing x"
      with P1(1) show ?thesis by (intro disjI1 exI [of _ "[ev]"] exI [of _ evs] exI [of _ P1]) simp
    next
      fix e
      assume "po_tasks P1 i = None" "cn_phase (connections (po_serving P1) ! i) = Crashed e"
      with P1(1) show ?thesis by (intro disjI1 exI [of _ "[ev]"] exI [of _ evs] exI [of _ P1]) simp
    qed
  qed
qed

lemma request_begins:
  assumes "pool_step L P (Outside (Peer i (ReadRequest q))) = Some P1" "po_tasks P1 i \<noteq> None"
  shows "\<exists>k. po_tasks P1 i = Some (k, Locate)"
  using assms(1)
proof (cases rule: pool_step_cases)
  case (outside oe S1)
  from outside(1) have "oe = Peer i (ReadRequest q)" by simp
  then have "po_tasks P i = None" by (rule outside(6))
  with outside(3) assms(2) show ?thesis by simp
next
  case (read j p)
  with assms(2) show ?thesis by (auto simp: pool_read_def Let_def split: sum.splits)
qed simp

section \<open>Where exceptions come from\<close>

lemma tick_throws:
  assumes "tick L k ph W = (Throws e, W')" "phase_wf (w_router W) F quiet i k ph" "objects_ok ph (w_store W k)"
  shows "\<exists>c p h rest v. ph = InCall c ((p, h) # rest) v \<and> call_slot L h (w_store W k) = Inl e"
proof (cases ph)
  case (InCall c rest v)
  show ?thesis
  proof (cases rest)
    case (Cons a rest')
    with InCall assms show ?thesis
      by (cases a) (auto simp: tick_def call_tick_def split: sum.splits)
  qed (use InCall assms(1) in \<open>simp add: tick_def\<close>)
next
  case (Finish rc)
  with assms show ?thesis
    by (auto simp: tick_def finish_tick_def objects_ok_def req_getRequest_def res_getResponse_def Let_def
        split: if_splits)
next
  case (Fill v)
  with assms show ?thesis
    by (auto simp: tick_def answer_def objects_ok_def req_getRequest_def res_getResponse_def)
qed (use assms in \<open>auto simp: tick_def check_tick_def phase_wf_def split: found.splits option.splits if_splits\<close>)

lemma tick_of_throwing_handler:
  "call_slot L h (w_store W k) = Inl e \<Longrightarrow> tick L k (InCall c ((p, h) # rest) v) W = (Throws e, W)"
  by (simp add: tick_def call_tick_def)

lemma terminated_set_connection:
  assumes "\<not> terminated S" "i < length (connections S)"
  shows "terminated (set_connection i C S) \<longleftrightarrow> crashed C"
proof
  assume "terminated (set_connection i C S)"
  then obtain D where "D \<in> set ((connections S)[i := C])" "crashed D"
    by (auto simp: terminated_def list_ex_iff)
  with assms(1) show "crashed C"
    by (auto simp: terminated_def list_ex_iff dest: set_update_subset_insert [THEN subsetD])
next
  assume "crashed C"
  moreover have "C \<in> set ((connections S)[i := C])" using assms(2) by (rule set_update_memI)
  ultimately show "terminated (set_connection i C S)" by (auto simp: terminated_def list_ex_iff)
qed

lemma pool_tick_terminated:
  assumes "pool_wf W0 P" "pool_complete P" "po_tasks P i = Some (k, ph)" "\<not> terminated (po_serving P)"
  shows "terminated (po_serving (pool_tick L i k ph P)) \<longleftrightarrow>
    (\<exists>c p h rest v e. ph = InCall c ((p, h) # rest) v \<and> call_slot L h (w_store (sr_world (po_serving P)) k) = Inl e)"
proof -
  let ?S = "po_serving P"
  have own: "objects_ok ph (w_store (sr_world ?S) k)" using assms(2,3) by (simp add: pool_complete_def)
  note set = terminated_set_connection [OF assms(4) pool_wf_task(1) [OF assms(1,3)]]
  obtain res W' where t: "tick L k ph (sr_world ?S) = (res, W')" by (cases "tick L k ph (sr_world ?S)")
  have handler: "res = Throws e" if "ph = InCall c ((p, h) # rest) v" "call_slot L h (w_store (sr_world ?S) k) = Inl e"
    for c p h rest v e
    using t that tick_of_throwing_handler [OF that(2)] by simp
  show ?thesis
  proof (cases res)
    case (Throws e)
    with tick_throws [OF t [unfolded Throws] pool_wf_task(3) [OF assms(1,3)] own] t set show ?thesis
      by (auto simp: pool_tick_def Let_def crashed_def)
  next
    case (Goes ph')
    with t assms(4) handler show ?thesis by (fastforce simp: pool_tick_def Let_def)
  next
    case (Responds x)
    with t set handler show ?thesis by (fastforce simp: pool_tick_def Let_def crashed_def)
  qed
qed

lemma pool_read_terminated:
  assumes "\<not> terminated (po_serving P)" "i < length (connections (po_serving P))"
  shows "terminated (po_serving (pool_read L i q P)) \<longleftrightarrow> (\<exists>e. parsed L q = Inl e)"
  using terminated_set_connection [OF assms] assms(1)
  by (cases "parsed L q") (auto simp: pool_read_def begin_request_eq Let_def crashed_def)

lemma pool_step_terminated:
  assumes "pool_step L P ev = Some P1" "pool_wf W0 P" "pool_complete P"
  shows "terminated (po_serving P1) \<longleftrightarrow>
    (\<exists>i q e. ev = Outside (Peer i (ReadRequest q)) \<and> cn_phase (connections (po_serving P) ! i) = Reading \<and>
       accepted q \<and> parsed L q = Inl e) \<or>
    (\<exists>i k c p h rest v e. ev = Tick i \<and> po_tasks P i = Some (k, InCall c ((p, h) # rest) v) \<and>
       call_slot L h (w_store (sr_world (po_serving P)) k) = Inl e)"
proof -
  have running: "\<not> terminated (po_serving P)" using assms(1) by (auto simp: pool_step_def split: if_splits)
  show ?thesis
    using assms(1)
  proof (cases rule: pool_step_cases)
    case (outside oe S1)
    have "\<not> (cn_phase (connections (po_serving P) ! i) = Reading \<and> accepted q)"
      if "oe = Peer i (ReadRequest q)" for i q
      using outside(7) [OF that] by (simp add: accepted_read_def split: if_splits)
    with serving_step_terminated [OF outside(2)] outside(1,3) show ?thesis by auto
  next
    case (read i q)
    with pool_read_terminated [OF running read(4), of L q] show ?thesis by auto
  next
    case (tick i k ph)
    with pool_tick_terminated [OF assms(2,3) tick(2) running, of L] show ?thesis by auto
  qed
qed

section \<open>Properties\<close>

text \<open>
  Under every schedule, whatever combiners are replaced, the process ends exactly when the
  parser rejects the text of an accepted request or a handler throws; no null pointer
  is read in between.  When it has ended no coroutine takes another step, and until then
  the server goes on.
\<close>

theorem threads_end_exactly:
  assumes "pool_run L (pool_start W) evs = Some P" "pool_step L P ev = Some P1"
  shows "(terminated (po_serving P1) \<longleftrightarrow>
      (\<exists>i q e. ev = Outside (Peer i (ReadRequest q)) \<and> cn_phase (connections (po_serving P) ! i) = Reading \<and>
         accepted q \<and> parsed L q = Inl e) \<or>
      (\<exists>i k c p h rest v e. ev = Tick i \<and> po_tasks P i = Some (k, InCall c ((p, h) # rest) v) \<and>
         call_slot L h (w_store (sr_world (po_serving P)) k) = Inl e)) \<and>
    (terminated (po_serving P1) \<longleftrightarrow> (\<forall>ev'. pool_step L P1 ev' = None))"
proof
  show "terminated (po_serving P1) \<longleftrightarrow>
      (\<exists>i q e. ev = Outside (Peer i (ReadRequest q)) \<and> cn_phase (connections (po_serving P) ! i) = Reading \<and>
         accepted q \<and> parsed L q = Inl e) \<or>
      (\<exists>i k c p h rest v e. ev = Tick i \<and> po_tasks P i = Some (k, InCall c ((p, h) # rest) v) \<and>
         call_slot L h (w_store (sr_world (po_serving P)) k) = Inl e)"
    by (rule pool_step_terminated [OF assms(2) pool_run_wf [OF assms(1) pool_start_wf]
        pool_run_complete [OF assms(1) pool_start_complete pool_start_wf]])
  show "terminated (po_serving P1) \<longleftrightarrow> (\<forall>ev'. pool_step L P1 ev' = None)"
  proof
    assume "\<forall>ev'. pool_step L P1 ev' = None"
    then have "pool_step L P1 (Outside (Acceptor True)) = None" by blast
    then show "terminated (po_serving P1)"
      by (simp add: pool_step_def pool_outside_def serving_step_def split: if_splits)
  qed (simp add: pool_step_def)
qed

theorem threads_end_exactly_witness:
  "\<exists>P1 P2. pool_step example_lib (idle_pool (two_connections example_world)) (Outside (Peer 0 (Handshaken True))) = Some P1 \<and>
     pool_step example_lib P1 (Outside (Peer 0 (ReadRequest malformed_request))) = Some P2 \<and>
     (\<forall>ev. pool_step example_lib P2 ev = None)"
proof -
  let ?first = "map Outside accepts_two @ [Outside (Peer 0 (Handshaken True))]"
  obtain P1 where P1: "pool_step example_lib (idle_pool (two_connections example_world)) (Outside (Peer 0 (Handshaken True))) = Some P1"
      "cn_phase (connections (po_serving P1) ! 0) = Reading" "po_tasks P1 0 = None"
      "0 < length (connections (po_serving P1))" "\<not> terminated (po_serving P1)"
    by (simp add: pool_step_def pool_outside_def idle_pool_def two_connections_def accepted_read_def serving_step_def
        terminated_def crashed_def newConnection_def conn_step_def Let_def)
  then have run: "pool_run example_lib (pool_start example_world) ?first = Some P1"
    by (simp add: pool_run_append pool_accepts)
  obtain P2 where P2: "pool_step example_lib P1 (Outside (Peer 0 (ReadRequest malformed_request))) = Some P2"
    using P1(2-5) malformed_accepted by (simp add: pool_step_def accepted_read_def)
  from threads_end_exactly [OF run P2] P1(1,2) malformed_accepted malformed_parsed P2 show ?thesis by blast
qed

text \<open>
  C8. No schedule starves a request.  From the moment it has been read, either its response is being
  written or the process has ended by its exception, or its coroutine has had at most
  five turns and two more for each handler of the longest list of handlers, and as long as the
  process runs it can take another one.
\<close>

theorem requests_finish:
  assumes "pool_run L (pool_start W) (es @ [Outside (Peer i (ReadRequest q))]) = Some P" "po_tasks P i \<noteq> None"
    and "slots_bounded n (w_router W)" "pool_run L P evs = Some P'"
  shows "(\<exists>fs gs Q. evs = fs @ gs \<and> pool_run L P fs = Some Q \<and> po_tasks Q i = None \<and>
       ((\<exists>x. cn_phase (connections (po_serving Q) ! i) = Writing x) \<or>
        (\<exists>e. cn_phase (connections (po_serving Q) ! i) = Crashed e))) \<or>
     (count_list evs (Tick i) \<le> 2 * n + 5 \<and> po_tasks P' i \<noteq> None \<and> (terminated (po_serving P') \<or> (\<exists>Q. pool_step L P' (Tick i) = Some Q)))"
proof -
  obtain P0 where "pool_step L P0 (Outside (Peer i (ReadRequest q))) = Some P"
    using assms(1) by (auto simp: pool_run_append bind_eq_Some_conv)
  from request_begins [OF this assms(2)] obtain k where k: "po_tasks P i = Some (k, Locate)" by blast
  have next_turn: "terminated (po_serving P') \<or> (\<exists>Q. pool_step L P' (Tick i) = Some Q)" if "po_tasks P' i \<noteq> None"
    using that by (auto simp: pool_step_def)
  from request_finishes [OF assms(4) pool_run_wf [OF assms(1) pool_start_wf] assms(3) k] next_turn
  show ?thesis by auto
qed

theorem requests_finish_witness:
  "\<exists>P fs Q. pool_run example_lib (pool_start path_world) (two_reads (path_request ''/alice'') (path_request ''/bob'')) = Some P \<and>
     pool_run example_lib P fs = Some Q \<and> po_tasks Q 1 = None \<and>
     ((\<exists>x. cn_phase (connections (po_serving Q) ! 1) = Writing x) \<or>
      (\<exists>e. cn_phase (connections (po_serving Q) ! 1) = Crashed e))"
proof -
  let ?p = "path_request ''/alice''" and ?q = "path_request ''/bob''" and ?ts = "map Tick [0, 1, 0, 1, 1, 1, 1, 1, 0, 0, 0, 0, 0, 0, 1, 1]"
  let ?es = "map Outside (accepts_two @ [Peer 0 (Handshaken True), Peer 1 (Handshaken True), Peer 0 (ReadRequest ?p)])"
  obtain r s where rs: "parsed example_lib ?p = Inr r" "parsed example_lib ?q = Inr s"
    using path_parsed by blast
  let ?P = "both_reading path_world r s"
  have run: "pool_run example_lib (pool_start path_world) (?es @ [Outside (Peer 1 (ReadRequest ?q))]) = Some ?P"
    using pool_reads [OF path_accepted rs, of path_world] by (simp add: two_reads_def)
  have task: "po_tasks ?P 1 \<noteq> None" by (simp add: both_reading_def Let_def)
  have slots: "slots_bounded 1 (w_router path_world)"
    by (auto simp: slots_bounded_def signal_at_def path_world_def newRouteImpl_def smap_find_def path_slots_def
        split: found.splits if_splits)
  have "ri_beast r \<noteq> None" "ri_beast s \<noteq> None" using parsed_beast rs by blast+
  from two_requests_run(1) [OF path_route(1) this path_route(2) path_route(2), of example_lib]
  obtain C0 C1 V where ticks: "pool_run example_lib ?P ?ts = Some (two_pool [C0, C1] V (\<lambda>_. None) {0})" by blast
  have "po_tasks (two_pool [C0, C1] V (\<lambda>_. None) {0}) 1 = None" by (simp add: two_pool_def)
  with requests_finish [OF run task slots ticks] obtain fs Q where
    Q: "pool_run example_lib ?P fs = Some Q" "po_tasks Q 1 = None"
      "(\<exists>x. cn_phase (connections (po_serving Q) ! 1) = Writing x) \<or>
       (\<exists>e. cn_phase (connections (po_serving Q) ! 1) = Crashed e)"
    by blast
  moreover have "pool_run example_lib (pool_start path_world) (two_reads ?p ?q) = Some ?P"
    using pool_reads [OF path_accepted rs, of path_world] .
  ultimately show ?thesis by (intro exI [of _ ?P] exI [of _ fs] exI [of _ Q] conjI)
qed

end
