(* ===== verification/Registration.thy ===== *)
theory Registration
  imports Liveness
begin

text \<open>
  Registration while the server runs: the application may call \<open>ServerImpl::route\<close> from
  its own thread after \<open>run\<close>.  On a path that has a signal already, \<open>RouteImpl::add\<close> only
  connects one more handler to that signal, which boost::signals2 allows while other
  threads call it: a call in progress keeps the slots it started with.  On a new path
  of a map in which connections look up, it inserts into a map that other threads read
  without a lock, which has no defined behaviour and is no step of this model.
\<close>

section \<open>The server with an application thread\<close>

datatype registration =
    AddGet string int "handler option"
  | AddPost string int "handler option"
  | AddAll string int "handler option"

definition register :: "connector \<Rightarrow> registration \<Rightarrow> router \<Rightarrow> router" where
  "register cn reg R =
     (case reg of
        AddGet path priority h \<Rightarrow> snd (getAdd cn path priority h R)
      | AddPost path priority h \<Rightarrow> snd (postAdd cn path priority h R)
      | AddAll path priority h \<Rightarrow> snd (allAdd cn path priority h R))"

text \<open>Connections never look up in the map of the POST routes.\<close>

definition reuses_signal :: "registration \<Rightarrow> router \<Rightarrow> bool" where
  "reuses_signal reg R =
     (case reg of
        AddGet path priority h \<Rightarrow> smap_find (routeGetMap R) path \<noteq> None
      | AddPost path priority h \<Rightarrow> True
      | AddAll path priority h \<Rightarrow> smap_find (routeAllMap R) path \<noteq> None)"

definition register_world :: "connector \<Rightarrow> registration \<Rightarrow> world \<Rightarrow> world" where
  "register_world cn reg W = W\<lparr>w_router := register cn reg (w_router W)\<rparr>"

definition register_pool :: "connector \<Rightarrow> registration \<Rightarrow> pool \<Rightarrow> pool" where
  "register_pool cn reg P =
     P\<lparr>po_serving := (po_serving P)\<lparr>sr_world := register_world cn reg (sr_world (po_serving P))\<rparr>\<rparr>"

datatype live_event =
    Thread pool_event
  | Register registration

definition live_step :: "lib \<Rightarrow> connector \<Rightarrow> pool \<Rightarrow> live_event \<Rightarrow> pool option" where
  "live_step L cn P ev =
     (case ev of
        Thread pe \<Rightarrow> pool_step L P pe
      | Register reg \<Rightarrow>
          if \<not> terminated (po_serving P) \<and> reuses_signal reg (w_router (sr_world (po_serving P)))
          then Some (register_pool cn reg P) else None)"

fun live_run :: "lib \<Rightarrow> connector \<Rightarrow> pool \<Rightarrow> live_event list \<Rightarrow> pool option" where
  "live_run L cn P [] = Some P"
| "live_run L cn P (ev # evs) = Option.bind (live_step L cn P ev) (\<lambda>P1. live_run L cn P1 evs)"

lemma live_run_append:
  "live_run L cn P (evs @ fvs) = Option.bind (live_run L cn P evs) (\<lambda>P1. live_run L cn P1 fvs)"
  by (induction evs arbitrary: P) (simp_all add: Option.bind_assoc)

lemma live_run_snoc:
  "live_run L cn P (evs @ [ev]) = Some P1 \<longleftrightarrow> (\<exists>P0. live_run L cn P evs = Some P0 \<and> live_step L cn P0 ev = Some P1)"
  by (auto simp: live_run_append bind_eq_Some_conv)

lemma live_run_threads: "live_run L cn P (map Thread evs) = pool_run L P evs"
  by (induction evs arbitrary: P) (simp_all add: live_step_def)

section \<open>What a registration changes\<close>

definition new_slots :: "connector \<Rightarrow> registration \<Rightarrow> found \<Rightarrow> slots \<Rightarrow> slots" where
  "new_slots cn reg f sl =
     (case (reg, f) of
        (AddGet path priority h, InMethod k) \<Rightarrow> if k = path then cn priority h sl else sl
      | (AddAll path priority h, InAll k) \<Rightarrow> if k = path then cn priority h sl else sl
      | _ \<Rightarrow> sl)"

lemma signal_at_register:
  assumes "reuses_signal reg R"
  shows "signal_at f (register cn reg R) = map_option (\<lambda>g. g\<lparr>sg_slots := new_slots cn reg f (sg_slots g)\<rparr>) (signal_at f R)"
  using assms
  by (cases reg; cases f)
     (auto simp: register_def reuses_signal_def signal_at_def new_slots_def getAdd_def postAdd_def allAdd_def
       route_add_def connect_slot_def smap_simps option.map_id0 [unfolded id_def] Let_def split: option.splits)

lemma same_routes_register:
  assumes "same_routes R R'" "reuses_signal reg R"
  shows "reuses_signal reg R'" "same_routes (register cn reg R) (register cn reg R')"
proof -
  have "smap_find (routeGetMap R') k = None \<longleftrightarrow> smap_find (routeGetMap R) k = None"
    "smap_find (routeAllMap R') k = None \<longleftrightarrow> smap_find (routeAllMap R) k = None" for k
    using same_routes_none [OF assms(1), of "InMethod k"] same_routes_none [OF assms(1), of "InAll k"]
    by (simp_all add: signal_at_def)
  with assms(2) show r: "reuses_signal reg R'" by (cases reg) (simp_all add: reuses_signal_def)
  have "map_option (new_slots cn reg f) (map_option sg_slots (signal_at f R')) =
      map_option (new_slots cn reg f) (map_option sg_slots (signal_at f R))" for f
    using assms(1) by (simp add: same_routes_def)
  then show "same_routes (register cn reg R) (register cn reg R')"
    by (simp add: same_routes_def signal_at_register [OF r] signal_at_register [OF assms(2)] option.map_comp o_def)
qed

lemma find_signal_register:
  assumes "reuses_signal reg R"
  shows "find_signal p (routeGetMap (register cn reg R)) (routeAllMap (register cn reg R)) =
    find_signal p (routeGetMap R) (routeAllMap R)"
proof -
  have "smap_find (routeGetMap (register cn reg R)) k = None \<longleftrightarrow> smap_find (routeGetMap R) k = None"
    "smap_find (routeAllMap (register cn reg R)) k = None \<longleftrightarrow> smap_find (routeAllMap R) k = None" for k
    using arg_cong [OF signal_at_register [OF assms, of "InMethod k"], of "\<lambda>x. x = None"]
      arg_cong [OF signal_at_register [OF assms, of "InAll k"], of "\<lambda>x. x = None"]
    by (simp_all add: signal_at_def)
  then show ?thesis by (simp add: find_signal_def)
qed

section \<open>Invariants of the server with an application thread\<close>

definition any_wf :: "pool \<Rightarrow> bool" where
  "any_wf P \<longleftrightarrow> (\<exists>W0. pool_wf W0 P)"

text \<open>A world with given routes in which some response is ended.\<close>

definition noisy :: "router \<Rightarrow> world" where
  "noisy R = \<lparr>w_router = R, w_store = (\<lambda>_. (undefined, newResponseImpl\<lparr>rp_writableEnded := True\<rparr>)), w_next = 0\<rparr>"

lemma noisy_simps [simp]: "w_router (noisy R) = R" "\<not> quiet_world (noisy R)"
  by (simp_all add: noisy_def quiet_world_def none_ended_def)

lemma phase_wf_noisy: "phase_wf R F quiet i k ph \<Longrightarrow> phase_wf R F False i k ph"
  by (cases ph) (simp_all add: phase_wf_def)

lemma any_wf_now: "any_wf P \<Longrightarrow> pool_wf (noisy (w_router (sr_world (po_serving P)))) P"
  unfolding any_wf_def pool_wf_def by (auto intro: phase_wf_noisy)

lemma any_wf_register:
  assumes "any_wf P" "reuses_signal reg (w_router (sr_world (po_serving P)))"
  shows "any_wf (register_pool cn reg P)"
proof -
  let ?R = "w_router (sr_world (po_serving P))"
  have wf: "pool_wf (noisy ?R) P" by (rule any_wf_now) (rule assms(1))
  have "phase_wf (register cn reg ?R) (po_foreign P) False i k ph" if "phase_wf ?R (po_foreign P) False i k ph" for i k ph
    using that by (cases ph) (auto simp: phase_wf_def signal_at_register [OF assms(2)])
  with wf have "pool_wf (noisy (register cn reg ?R)) (register_pool cn reg P)"
    by (simp add: pool_wf_def register_pool_def register_world_def)
  then show ?thesis unfolding any_wf_def by blast
qed

lemma any_wf_step: "pool_step L P ev = Some P1 \<Longrightarrow> any_wf P \<Longrightarrow> any_wf P1"
  unfolding any_wf_def by (auto intro: pool_step_wf)

lemma live_step_cases:
  assumes "live_step L cn P ev = Some P1"
  obtains (thread) pe where "ev = Thread pe" "pool_step L P pe = Some P1"
  | (register) reg where "ev = Register reg" "reuses_signal reg (w_router (sr_world (po_serving P)))"
      "P1 = register_pool cn reg P" "\<not> terminated (po_serving P)"
  using assms by (cases ev) (auto simp: live_step_def split: if_splits)

lemma live_step_wf:
  assumes "live_step L cn P ev = Some P1" "any_wf P"
  shows "any_wf P1"
  using assms by (cases rule: live_step_cases) (auto intro: any_wf_step any_wf_register)

lemma live_step_complete:
  assumes "live_step L cn P ev = Some P1" "any_wf P" "pool_complete P"
  shows "pool_complete P1"
  using assms(1)
proof (cases rule: live_step_cases)
  case (thread pe)
  with assms(2,3) show ?thesis unfolding any_wf_def by (blast intro: pool_step_complete)
next
  case (register reg)
  with assms(3) show ?thesis by (simp add: pool_complete_def register_pool_def register_world_def)
qed

lemma live_run_ok: "live_run L cn P evs = Some P1 \<Longrightarrow> any_wf P \<Longrightarrow> pool_complete P \<Longrightarrow> any_wf P1 \<and> pool_complete P1"
  by (induction evs arbitrary: P) (auto simp: bind_eq_Some_conv dest: live_step_wf live_step_complete)

lemma live_start_ok:
  assumes "live_run L cn (pool_start W) evs = Some P"
  shows "any_wf P" "pool_complete P"
  using live_run_ok [OF assms _ pool_start_complete] pool_start_wf [of W] by (auto simp: any_wf_def)

section \<open>The specification: one connection and the registrations\<close>

datatype own_event =
    Io io_event
  | Reg registration

fun alone_step :: "lib \<Rightarrow> connector \<Rightarrow> connection \<Rightarrow> own_event \<Rightarrow> connection" where
  "alone_step L cn C (Io io) = conn_step L C io"
| "alone_step L cn C (Reg reg) = C\<lparr>cn_world := register_world cn reg (cn_world C)\<rparr>"

definition alone_run :: "lib \<Rightarrow> connector \<Rightarrow> connection \<Rightarrow> own_event list \<Rightarrow> connection" where
  "alone_run L cn = foldl (alone_step L cn)"

text \<open>What connection \<open>i\<close> and the application do in a run, in its order.\<close>

fun own_view :: "nat \<Rightarrow> live_event list \<Rightarrow> own_event list" where
  "own_view i [] = []"
| "own_view i (Register reg # evs) = Reg reg # own_view i evs"
| "own_view i (Thread pe # evs) = map Io (own_events i (outside_events [pe])) @ own_view i evs"

text \<open>
  A request may take effect after registrations that came after it was read, but not after
  the next event of its own connection: a read moves over registrations only.
\<close>

inductive delays :: "own_event list \<Rightarrow> own_event list \<Rightarrow> bool" where
  delays_refl: "delays xs xs"
| delays_swap: "delays xs (ys @ Io (ReadRequest q) # Reg reg # zs) \<Longrightarrow> delays xs (ys @ Reg reg # Io (ReadRequest q) # zs)"

lemma delays_append: "delays xs ys \<Longrightarrow> delays (xs @ zs) (ys @ zs)"
proof (induction rule: delays.induct)
  case (delays_swap xs ys q reg ws)
  then have "delays (xs @ zs) (ys @ Io (ReadRequest q) # Reg reg # ws @ zs)" by simp
  from delays.delays_swap [OF this] show ?case by simp
qed (rule delays_refl)

lemma own_view_append: "own_view i (evs @ fvs) = own_view i evs @ own_view i fvs"
  by (induction evs rule: own_view.induct) simp_all

lemma alone_run_append: "alone_run L cn C (xs @ ys) = alone_run L cn (alone_run L cn C xs) ys"
  by (simp add: alone_run_def)

lemma alone_run_simps [simp]:
  "alone_run L cn C [] = C" "alone_run L cn C (x # xs) = alone_run L cn (alone_step L cn C x) xs"
  by (simp_all add: alone_run_def)

lemma alone_run_Io: "alone_run L cn C (map Io evs) = conn_run L C evs"
  by (induction evs arbitrary: C) simp_all

definition same_point :: "connection \<Rightarrow> connection \<Rightarrow> bool" where
  "same_point C D \<longleftrightarrow> cn_phase C = cn_phase D \<and> cn_written C = cn_written D"

lemma same_point_trans: "same_point C D \<Longrightarrow> same_point D E \<Longrightarrow> same_point C E"
  by (simp add: same_point_def)

lemma alike_point: "alike L C D \<Longrightarrow> same_point C D"
  by (simp add: alike_def same_point_def)

definition all_reg :: "own_event list \<Rightarrow> bool" where
  "all_reg evs \<longleftrightarrow> (\<forall>ev \<in> set evs. \<exists>reg. ev = Reg reg)"

lemma all_reg_point: "all_reg regs \<Longrightarrow> same_point (alone_run L cn C regs) C"
proof (induction regs arbitrary: C)
  case (Cons ev regs)
  then obtain reg where ev: "ev = Reg reg" and regs: "all_reg regs" by (auto simp: all_reg_def)
  from Cons.IH [OF regs, of "alone_step L cn C ev"] ev show ?case by (simp add: same_point_def)
qed (simp add: same_point_def)

lemma same_routes_sym: "same_routes R R' \<Longrightarrow> same_routes R' R"
  by (simp add: same_routes_def)

lemma same_routes_trans: "same_routes R R' \<Longrightarrow> same_routes R' R'' \<Longrightarrow> same_routes R R''"
  by (simp add: same_routes_def)

lemma conn_step_same_routes:
  "same_routes R (w_router (cn_world (conn_step L C io))) \<longleftrightarrow> same_routes R (w_router (cn_world C))"
proof -
  have "same_routes R (w_router V) \<longleftrightarrow> same_routes R (w_router (cn_world C))"
    if "process_request L q (cn_world C) = Inr (x, V)" for q x V
    using that by (auto simp: process_request_eq bind_res_Inr_iff same_routes_mark simp flip: mark_signal_dispatched)
  then show ?thesis
    by (cases "cn_phase C"; cases io) (auto simp: conn_step_def on_read_def split: sum.splits)
qed

lemma conn_step_same_routes_left:
  "same_routes (w_router (cn_world (conn_step L C io))) R \<longleftrightarrow> same_routes (w_router (cn_world C)) R"
  using conn_step_same_routes [of R L C io] same_routes_sym by blast

section \<open>The simulation\<close>

definition called :: "dispatch_phase \<Rightarrow> bool" where
  "called ph \<longleftrightarrow>
     (case ph of
        InCall _ _ _ \<Rightarrow> True
      | CheckEnded _ _ _ \<Rightarrow> True
      | ReadBody _ \<Rightarrow> True
      | Fill _ \<Rightarrow> True
      | Finish _ \<Rightarrow> True
      | _ \<Rightarrow> False)"

lemma called_stays: "tick L k ph W = (Goes ph', W') \<Longrightarrow> called ph \<Longrightarrow> called ph'"
  by (cases ph)
     (auto simp: called_def tick_def call_tick_def check_tick_def finish_tick_def Let_def
       split: list.splits prod.splits sum.splits option.splits if_splits)

lemma called_progress:
  assumes "tick L k ph W = (res, W')" "progress L R q r ph (w_store W k)" "undisturbed k ph W"
    and "ri_beast r = Some q" "called ph"
  shows "on_course L R q r res (w_store W' k)"
proof (cases ph)
  case (InCall c rest v)
  with in_call_progress assms(1,2) show ?thesis by blast
next
  case (CheckEnded c rest v)
  with check_progress assms(1-3) show ?thesis by blast
next
  case (ReadBody j)
  with body_progress assms(1-3) show ?thesis by (simp add: undisturbed_def)
next
  case (Fill b)
  with assms(1,2,4) fill_progress [of L R q r b W k] show ?thesis by (auto simp: on_course_def)
next
  case (Finish rc)
  with finish_progress assms(1,2,4) show ?thesis by (fastforce simp: on_course_def)
qed (use assms(5) in \<open>simp_all add: called_def\<close>)

lemma progress_register:
  "\<not> called ph \<Longrightarrow> reuses_signal reg R \<Longrightarrow> progress L (register cn reg R) q r ph s = progress L R q r ph s"
  by (cases ph) (simp_all add: progress_def called_def find_signal_register Let_def)

text \<open>
  \<open>linked\<close>: the run of the specification over \<open>seq\<close> is at the same point; while a request
  is in progress, the specification has just answered it, under the routes \<open>R\<close>.
\<close>

definition answering ::
  "lib \<Rightarrow> connector \<Rightarrow> world \<Rightarrow> pool \<Rightarrow> nat \<Rightarrow> nat \<Rightarrow> dispatch_phase \<Rightarrow> own_event list \<Rightarrow> http_request \<Rightarrow> request_impl \<Rightarrow>
     own_event list \<Rightarrow> router \<Rightarrow> bool" where
  "answering L cn W P i k ph seq q r regs R \<longleftrightarrow>
     (let D0 = alone_run L cn (newConnection W) seq in
      all_reg regs \<and> (\<not> called ph \<longrightarrow> regs = [] \<and> same_routes R (w_router (sr_world (po_serving P)))) \<and>
      accepted q \<and> parsed L q = Inr r \<and> cn_phase D0 = Reading \<and> same_point (connection_at (po_serving P) i) D0 \<and>
      same_routes R (w_router (cn_world D0)) \<and> progress L R q r ph (w_store (sr_world (po_serving P)) k))"

definition linked :: "lib \<Rightarrow> connector \<Rightarrow> world \<Rightarrow> pool \<Rightarrow> nat \<Rightarrow> own_event list \<Rightarrow> bool" where
  "linked L cn W P i seq \<longleftrightarrow>
     same_routes (w_router (cn_world (alone_run L cn (newConnection W) seq))) (w_router (sr_world (po_serving P))) \<and>
     (case po_tasks P i of
        None \<Rightarrow> same_point (connection_at (po_serving P) i) (alone_run L cn (newConnection W) seq)
      | Some (k, ph) \<Rightarrow> \<exists>seq0 q r regs R. seq = seq0 @ Io (ReadRequest q) # regs \<and>
          answering L cn W P i k ph seq0 q r regs R)"

lemma linked_frame:
  assumes "linked L cn W P i seq" "po_tasks P1 i = po_tasks P i"
    and "same_point (connection_at (po_serving P1) i) (connection_at (po_serving P) i)"
    and "\<And>k ph. po_tasks P i = Some (k, ph) \<Longrightarrow>
      w_store (sr_world (po_serving P1)) k = w_store (sr_world (po_serving P)) k"
    and "same_routes (w_router (sr_world (po_serving P))) (w_router (sr_world (po_serving P1)))"
  shows "linked L cn W P1 i seq"
proof -
  have routes: "same_routes R (w_router (sr_world (po_serving P))) \<Longrightarrow> same_routes R (w_router (sr_world (po_serving P1)))" for R
    using assms(5) by (rule same_routes_trans [rotated])
  have ans: "answering L cn W P1 i k ph seq0 q r regs R"
    if "answering L cn W P i k ph seq0 q r regs R" "po_tasks P i = Some (k, ph)" for k ph seq0 q r regs R
    using that(1) routes assms(4) [OF that(2)] same_point_trans [OF assms(3)]
    by (auto simp: answering_def Let_def)
  show ?thesis
    using assms(1,2) routes same_point_trans [OF assms(3)] ans
    by (fastforce simp: linked_def split: option.splits prod.splits)
qed

lemma linked_idle:
  "po_tasks P i = None \<Longrightarrow> linked L cn W P i seq \<longleftrightarrow>
     same_routes (w_router (cn_world (alone_run L cn (newConnection W) seq))) (w_router (sr_world (po_serving P))) \<and>
     same_point (connection_at (po_serving P) i) (alone_run L cn (newConnection W) seq)"
  by (simp add: linked_def)

lemma linked_busy:
  assumes "po_tasks P i = Some (k, ph)" "answering L cn W P i k ph seq q r regs R"
    and "same_routes (w_router (cn_world (alone_run L cn (newConnection W) (seq @ Io (ReadRequest q) # regs))))
      (w_router (sr_world (po_serving P)))"
  shows "linked L cn W P i (seq @ Io (ReadRequest q) # regs)"
  unfolding linked_def using assms by (auto intro!: exI)

lemma linked_alike:
  "po_tasks P i = None \<Longrightarrow> linked L cn W P i seq \<Longrightarrow>
     alike L (connection_at (po_serving P) i) (alone_run L cn (newConnection W) seq)"
  by (simp add: linked_idle alike_def same_point_def connection_at_world same_routes_response)

lemma linked_outside:
  assumes "serving_step L (po_serving P) oe = Some S1" "sr_world S1 = sr_world (po_serving P)"
    and "\<And>j io. oe = Peer j io \<Longrightarrow> po_tasks P j = None" "linked L cn W P i seq"
  shows "linked L cn W (P\<lparr>po_serving := S1\<rparr>) i (seq @ map Io (own_events i [oe]))"
proof (cases "po_tasks P i")
  case None
  let ?D = "alone_run L cn (newConnection W) seq"
  have "alike L (connection_at S1 i) (conn_run L ?D (own_events i [oe]))"
    using serving_step_at [OF assms(1)] alike_run [OF linked_alike [OF None assms(4)]] by (rule alike_trans)
  moreover have "same_routes (w_router (cn_world (conn_run L ?D (own_events i [oe])))) (w_router (sr_world (po_serving P)))"
    using assms(4) None
    by (cases oe) (simp_all add: linked_idle conn_step_same_routes_left)
  ultimately show ?thesis
    using None assms(2) by (simp add: linked_idle alone_run_append alone_run_Io alike_point)
next
  case (Some t)
  with assms(3) have own: "own_events i [oe] = []" by (cases oe) auto
  with serving_step_at [OF assms(1), of i] have "same_point (connection_at S1 i) (connection_at (po_serving P) i)"
    by (simp add: alike_point)
  then show ?thesis
    using linked_frame [OF assms(4), of "P\<lparr>po_serving := S1\<rparr>"] assms(2) own by simp
qed

lemma linked_read_own:
  assumes "i < length (connections (po_serving P))" "po_tasks P i = None" "linked L cn W P i seq"
    and "cn_phase (connections (po_serving P) ! i) = Reading" "accepted q"
  shows "linked L cn W (pool_read L i q P) i (seq @ [Io (ReadRequest q)])"
proof -
  let ?S = "po_serving P" and ?D = "alone_run L cn (newConnection W) seq"
  have D: "same_routes (w_router (cn_world ?D)) (w_router (sr_world ?S))" "same_point (connection_at ?S i) ?D"
    using assms(2,3) by (simp_all add: linked_idle)
  then have reading: "cn_phase ?D = Reading" using assms(1,4) by (simp add: same_point_def connection_at_def)
  have routes: "same_routes (w_router (cn_world (conn_step L ?D (ReadRequest q)))) (w_router (sr_world ?S))"
    using D(1) by (simp add: conn_step_same_routes_left)
  show ?thesis
  proof (cases "parsed L q")
    case (Inl e)
    then have "response_for L (w_router (cn_world ?D)) q = Inl e" by (simp add: response_for_def)
    from read_crashed [OF reading assms(5) this] Inl assms(1,2) D(2) routes show ?thesis
      by (simp add: linked_idle alone_run_append pool_read_def begin_request_eq Let_def same_point_def connection_at_def)
  next
    case (Inr r)
    let ?P = "pool_read L i q P" and ?k = "w_next (sr_world ?S)"
    have P: "po_tasks ?P i = Some (?k, Locate)" "w_router (sr_world (po_serving ?P)) = w_router (sr_world ?S)"
        "w_store (sr_world (po_serving ?P)) ?k = (r, newResponseImpl\<lparr>rp_beast := Some fresh_response\<rparr>)"
        "same_point (connection_at (po_serving ?P) i) (connection_at ?S i)"
      using Inr assms(1) by (simp_all add: pool_read_def begin_request_eq Let_def same_point_def connection_at_def)
    have "same_point (connection_at (po_serving ?P) i) ?D" using P(4) D(2) by (rule same_point_trans)
    then have "answering L cn W ?P i ?k Locate seq q r [] (w_router (sr_world ?S))"
      using Inr assms(5) reading P(2,3) same_routes_sym [OF D(1)]
      by (simp add: answering_def all_reg_def progress_def)
    with P(1,2) routes show ?thesis
      by (intro linked_busy) (simp_all add: alone_run_append)
  qed
qed

lemma linked_read_other:
  assumes "any_wf P" "linked L cn W P i seq" "j \<noteq> i"
  shows "linked L cn W (pool_read L j q P) i seq"
proof (rule linked_frame [OF assms(2)])
  let ?S = "po_serving P"
  have wf: "pool_wf (noisy (w_router (sr_world ?S))) P" by (rule any_wf_now) (rule assms(1))
  show "po_tasks (pool_read L j q P) i = po_tasks P i"
    using assms(3) by (cases "parsed L q") (simp_all add: pool_read_def begin_request_eq Let_def)
  show "same_point (connection_at (po_serving (pool_read L j q P)) i) (connection_at ?S i)"
    using assms(3)
    by (cases "parsed L q") (simp_all add: pool_read_def begin_request_eq Let_def same_point_def connection_at_def newConnection_def)
  show "same_routes (w_router (sr_world ?S)) (w_router (sr_world (po_serving (pool_read L j q P))))"
    by (cases "parsed L q") (simp_all add: pool_read_def begin_request_eq Let_def)
  fix k ph
  assume "po_tasks P i = Some (k, ph)"
  from pool_wf_task(2) [OF wf this]
  show "w_store (sr_world (po_serving (pool_read L j q P))) k = w_store (sr_world ?S) k"
    by (cases "parsed L q") (simp_all add: pool_read_def begin_request_eq Let_def)
qed

lemma linked_tick_other:
  assumes "any_wf P" "linked L cn W P i seq" "j \<noteq> i" "po_tasks P j = Some (k, ph)"
  shows "linked L cn W (pool_tick L j k ph P) i seq"
proof (rule linked_frame [OF assms(2)])
  let ?S = "po_serving P"
  have wf: "pool_wf (noisy (w_router (sr_world ?S))) P" by (rule any_wf_now) (rule assms(1))
  obtain res W' where t: "tick L k ph (sr_world ?S) = (res, W')" by (cases "tick L k ph (sr_world ?S)")
  show "po_tasks (pool_tick L j k ph P) i = po_tasks P i"
    using assms(3) t by (cases res) (simp_all add: pool_tick_def Let_def)
  show "same_point (connection_at (po_serving (pool_tick L j k ph P)) i) (connection_at ?S i)"
    using assms(3) t
    by (cases res) (simp_all add: pool_tick_def Let_def same_point_def connection_at_def newConnection_def)
  show "same_routes (w_router (sr_world ?S)) (w_router (sr_world (po_serving (pool_tick L j k ph P))))"
    using t tick_frame(3) [OF t, of "w_router (sr_world ?S)"] by (cases res) (simp_all add: pool_tick_def Let_def)
  fix k' ph'
  assume "po_tasks P i = Some (k', ph')"
  with wf assms(3,4) have "k' \<noteq> k" unfolding pool_wf_def tasks_apart_def by metis
  with tick_frame(1) [OF t, of k'] t
  show "w_store (sr_world (po_serving (pool_tick L j k ph P))) k' = w_store (sr_world ?S) k'"
    by (cases res) (simp_all add: pool_tick_def Let_def)
qed

lemma linked_tick_own:
  assumes "any_wf P" "linked L cn W P i seq" "po_tasks P i = Some (k, ph)" "i \<notin> po_foreign P"
  shows "linked L cn W (pool_tick L i k ph P) i seq"
proof -
  let ?S = "po_serving P" and ?P = "pool_tick L i k ph P"
  have wf: "pool_wf (noisy (w_router (sr_world ?S))) P" by (rule any_wf_now) (rule assms(1))
  obtain res W' where t: "tick L k ph (sr_world ?S) = (res, W')" by (cases "tick L k ph (sr_world ?S)")
  obtain seq0 q r regs R where seq: "seq = seq0 @ Io (ReadRequest q) # regs"
    and ans: "answering L cn W P i k ph seq0 q r regs R"
    using assms(2,3) by (auto simp: linked_def)
  let ?before = "alone_run L cn (newConnection W) seq0"
  let ?after = "alone_run L cn (newConnection W) seq"
  have D0: "all_reg regs" "accepted q" "parsed L q = Inr r" "cn_phase ?before = Reading"
      "same_point (connection_at ?S i) ?before" "same_routes R (w_router (cn_world ?before))"
      "progress L R q r ph (w_store (sr_world ?S) k)"
    and early: "\<not> called ph \<Longrightarrow> regs = [] \<and> same_routes R (w_router (sr_world ?S))"
    using ans by (auto simp: answering_def Let_def)
  have i: "i < length (connections ?S)" by (rule pool_wf_task(1) [OF wf assms(3)])
  have calm: "undisturbed k ph (sr_world ?S)" using undisturbed_phase [OF wf assms(3)] assms(4) by blast
  have sig: "signal_at f (w_router (sr_world ?S)) \<noteq> None" if "ph = CallSignal f" for f
    using pool_wf_task(3) [OF wf assms(3)] that by (auto simp: phase_wf_def)
  have course: "on_course L R q r res (w_store W' k)"
  proof (cases "called ph")
    case True
    show ?thesis by (rule called_progress [OF t D0(7) calm parsed_beast [OF D0(3)] True])
  next
    case False
    with early have "same_routes R (w_router (sr_world ?S))" by blast
    from tick_progress [OF t D0(7) calm this parsed_beast [OF D0(3)] sig] show ?thesis .
  qed
  have resp: "response_for L (w_router (cn_world ?before)) q =
      bind_res (answered L (slots_at R (req_path r)) q r) (\<lambda>x. Inr (fst x))"
    using same_routes_response [OF D0(6)] D0(3) by (simp add: response_for_def)
  have routes: "same_routes (w_router (cn_world ?after)) (w_router W')"
    using assms(2) tick_frame(3) [OF t] by (simp add: linked_def)
  have D: "same_point ?after (conn_step L ?before (ReadRequest q))"
    using all_reg_point [OF D0(1)] by (simp add: seq alone_run_append)
  show ?thesis
  proof (cases res)
    case (Goes ph')
    have P: "po_tasks ?P i = Some (k, ph')" "sr_world (po_serving ?P) = W'"
        "same_point (connection_at (po_serving ?P) i) (connection_at ?S i)"
      using t Goes i by (simp_all add: pool_tick_def Let_def same_point_def connection_at_def)
    have "same_point (connection_at (po_serving ?P) i) ?before" using P(3) D0(5) by (rule same_point_trans)
    moreover have "\<not> called ph' \<longrightarrow> regs = [] \<and> same_routes R (w_router W')"
      using early called_stays [OF t [unfolded Goes]] tick_frame(3) [OF t] by blast
    ultimately have "answering L cn W ?P i k ph' seq0 q r regs R"
      using D0 course Goes P(2) by (simp add: answering_def on_course_def)
    with P(1,2) routes show ?thesis
      unfolding seq by (intro linked_busy) simp_all
  next
    case (Responds x)
    with course resp have "response_for L (w_router (cn_world ?before)) q = Inr x" by (auto simp: on_course_def)
    from read_answered [OF D0(4,2) this] D D0(5) t Responds i routes show ?thesis
      by (simp add: linked_idle pool_tick_def Let_def same_point_def connection_at_def)
  next
    case (Throws e)
    with course resp have "response_for L (w_router (cn_world ?before)) q = Inl e" by (auto simp: on_course_def)
    from read_crashed [OF D0(4,2) this] D D0(5) t Throws i routes show ?thesis
      by (simp add: linked_idle pool_tick_def Let_def same_point_def connection_at_def)
  qed
qed

text \<open>A registration: before the call it goes ahead of the request, after it behind.\<close>

lemma linked_register:
  assumes "linked L cn W P i seq" "reuses_signal reg (w_router (sr_world (po_serving P)))"
  shows "\<exists>seq'. (\<forall>xs. delays xs seq \<longrightarrow> delays (xs @ [Reg reg]) seq') \<and> linked L cn W (register_pool cn reg P) i seq'"
proof -
  let ?S = "po_serving P" and ?P = "register_pool cn reg P" and ?run = "alone_run L cn (newConnection W)"
  have P: "po_tasks ?P = po_tasks P" "w_router (sr_world (po_serving ?P)) = register cn reg (w_router (sr_world ?S))"
      "w_store (sr_world (po_serving ?P)) = w_store (sr_world ?S)"
      "same_point (connection_at (po_serving ?P) i) (connection_at ?S i)"
    by (simp_all add: register_pool_def register_world_def same_point_def connection_at_def newConnection_def)
  have routes: "same_routes (w_router (cn_world (?run seq))) (w_router (sr_world ?S))"
    using assms(1) by (simp add: linked_def)
  have reg_routes: "same_routes (register cn reg R) (register cn reg R')" if "same_routes R R'" "reuses_signal reg R'" for R R'
    by (rule same_routes_register(2) [OF that(1) same_routes_register(1) [OF same_routes_sym [OF that(1)] that(2)]])
  have at_end: "delays xs seq \<longrightarrow> delays (xs @ [Reg reg]) (seq @ [Reg reg])" for xs
    by (simp add: delays_append)
  have end_routes: "same_routes (w_router (cn_world (?run (seq @ [Reg reg])))) (w_router (sr_world (po_serving ?P)))"
    using reg_routes [OF routes assms(2)] P(2) by (simp add: alone_run_append register_world_def)
  show ?thesis
  proof (cases "po_tasks P i")
    case None
    with assms(1) have "same_point (connection_at ?S i) (?run seq)" by (simp add: linked_idle)
    with P(4) have "same_point (connection_at (po_serving ?P) i) (?run (seq @ [Reg reg]))"
      by (simp add: alone_run_append same_point_def)
    with None P(1) end_routes have "linked L cn W ?P i (seq @ [Reg reg])" by (simp add: linked_idle)
    with at_end show ?thesis by blast
  next
    case (Some t)
    obtain k ph where t: "po_tasks P i = Some (k, ph)" using Some by (cases t) auto
    then obtain seq0 q r regs R where seq: "seq = seq0 @ Io (ReadRequest q) # regs"
      and ans: "answering L cn W P i k ph seq0 q r regs R"
      using assms(1) by (auto simp: linked_def)
    show ?thesis
    proof (cases "called ph")
      case True
      have "answering L cn W ?P i k ph seq0 q r (regs @ [Reg reg]) R"
        using ans True P(3) same_point_trans [OF P(4)] by (simp add: answering_def all_reg_def Let_def)
      with t P(1) end_routes have "linked L cn W ?P i (seq @ [Reg reg])"
        unfolding seq append.assoc append_Cons by (intro linked_busy) simp_all
      with at_end show ?thesis by blast
    next
      case False
      let ?new = "seq0 @ [Reg reg]"
      have regs: "regs = []" "same_routes R (w_router (sr_world ?S))" "same_routes R (w_router (cn_world (?run seq0)))"
        using ans False by (simp_all add: answering_def Let_def)
      have reuses: "reuses_signal reg R" "reuses_signal reg (w_router (cn_world (?run seq0)))"
        using same_routes_register(1) [OF same_routes_sym [OF regs(2)] assms(2)] same_routes_register(1) [OF regs(3)] by blast+
      have "answering L cn W ?P i k ph ?new q r [] (register cn reg R)"
        using ans False P(2-4) reg_routes [OF regs(2) assms(2)] reg_routes [OF regs(3) reuses(2)]
        by (simp add: answering_def all_reg_def Let_def alone_run_append progress_register [OF False reuses(1)]
            register_world_def same_point_def)
      moreover have "same_routes (w_router (cn_world (?run (?new @ Io (ReadRequest q) # [])))) (w_router (sr_world (po_serving ?P)))"
      proof -
        have "same_routes (w_router (cn_world (?run seq0))) (w_router (sr_world ?S))"
          using routes by (simp add: seq regs(1) alone_run_append conn_step_same_routes_left)
        from reg_routes [OF this assms(2)] P(2) show ?thesis
          by (simp add: alone_run_append conn_step_same_routes_left register_world_def)
      qed
      ultimately have "linked L cn W ?P i (?new @ Io (ReadRequest q) # [])"
        using t P(1) by (intro linked_busy) simp_all
      moreover have "delays (xs @ [Reg reg]) (?new @ Io (ReadRequest q) # [])" if "delays xs seq" for xs
        using delays_swap [of "xs @ [Reg reg]" seq0 q reg "[]"] delays_append [OF that, of "[Reg reg]"]
        by (simp add: seq regs(1))
      ultimately show ?thesis by blast
    qed
  qed
qed

lemma linked_step:
  assumes "live_step L cn P ev = Some P1" "any_wf P" "linked L cn W P i seq" "i \<notin> po_foreign P"
  shows "\<exists>seq'. (\<forall>xs. delays xs seq \<longrightarrow> delays (xs @ own_view i [ev]) seq') \<and> linked L cn W P1 i seq'"
  using assms(1)
proof (cases rule: live_step_cases)
  case (register reg)
  with linked_register [OF assms(3) register(2)] show ?thesis by simp
next
  case (thread pe)
  have "linked L cn W P1 i (seq @ own_view i [ev])"
    using thread(2)
  proof (cases rule: pool_step_cases)
    case (outside oe S1)
    with linked_outside [OF outside(2,4,6) assms(3)] thread(1) show ?thesis by (cases oe) simp_all
  next
    case (read j q)
    with linked_read_own [OF _ _ assms(3)] linked_read_other [OF assms(2,3)] thread(1) show ?thesis
      by (cases "j = i") simp_all
  next
    case (tick j k ph)
    with linked_tick_own [OF assms(2,3) _ assms(4)] linked_tick_other [OF assms(2,3)] thread(1) show ?thesis
      by (cases "j = i") simp_all
  qed
  then show ?thesis by (intro exI [of _ "seq @ own_view i [ev]"]) (simp add: delays_append)
qed

lemma live_step_foreign: "live_step L cn P ev = Some P1 \<Longrightarrow> po_foreign P \<subseteq> po_foreign P1"
  by (erule live_step_cases) (simp_all add: foreign_grows register_pool_def)

lemma live_run_linked:
  "live_run L cn (pool_start W) evs = Some P \<Longrightarrow> i \<notin> po_foreign P \<Longrightarrow>
     \<exists>seq. delays (own_view i evs) seq \<and> linked L cn W P i seq"
proof (induction evs arbitrary: P rule: rev_induct)
  case Nil
  then have "linked L cn W P i []"
    by (auto simp: linked_idle pool_start_def connection_at_def serving_start_def newListener_def newConnection_def
        same_point_def)
  then show ?case by (intro exI [of _ "[]"]) (simp add: delays_refl)
next
  case (snoc ev evs)
  then obtain P0 where P0: "live_run L cn (pool_start W) evs = Some P0" "live_step L cn P0 ev = Some P"
    by (auto simp: live_run_snoc)
  with snoc.prems(2) live_step_foreign have f: "i \<notin> po_foreign P0" by blast
  from snoc.IH [OF P0(1) this] obtain seq where "delays (own_view i evs) seq" "linked L cn W P0 i seq" by blast
  with linked_step [OF P0(2) live_start_ok(1) [OF P0(1)] _ f] show ?case
    by (fastforce simp: own_view_append)
qed

section \<open>A registration between the reading of a request and the call\<close>

definition late_handler :: registration where
  "late_handler = AddGet ''/hi'' 20 (Some (\<lambda>_ _. Inr (''bye'', [])))"

definition late_events :: "http_request \<Rightarrow> live_event list" where
  "late_events q = map Thread (two_reads q q @ [Tick 0]) @ [Register late_handler] @
     map Thread (replicate 9 (Tick 0) @ [Outside (Peer 0 (Written True))])"

lemma late_view:
  "own_view 0 (late_events q) = [Io (Handshaken True), Io (ReadRequest q), Reg late_handler, Io (Written True)]"
  by (simp add: late_events_def two_reads_def accepts_two_def own_view_append numeral_eq_Suc)

lemma live_two_pool_tick:
  "\<not> list_ex crashed Cs \<Longrightarrow> T i = Some (k, ph) \<Longrightarrow> live_run L cn (two_pool Cs W T F) (Thread (Tick i) # evs) =
    (case tick L k ph W of
       (Goes ph', W') \<Rightarrow> live_run L cn (two_pool Cs W' (T(i \<mapsto> (k, ph'))) (if takes_foreign k ph ph' then insert i F else F)) evs
     | (Responds x, W') \<Rightarrow> live_run L cn (two_pool (Cs[i := (Cs ! i)\<lparr>cn_phase := Writing x, cn_world := W'\<rparr>]) W' (T(i := None)) F) evs
     | (Throws e, W') \<Rightarrow> live_run L cn (two_pool (Cs[i := (Cs ! i)\<lparr>cn_world := W', cn_phase := Crashed e\<rparr>]) W' (T(i := None)) F) evs)"
  by (auto simp: live_step_def two_pool_def pool_step_def terminated_def pool_tick_def set_connection_def
      split: prod.split tick_result.split)

lemma live_two_pool_register:
  "\<not> list_ex crashed Cs \<Longrightarrow> reuses_signal reg R \<Longrightarrow>
     live_run L cn (two_pool Cs (world_at R st n) T F) (Register reg # evs) =
       live_run L cn (two_pool Cs (world_at (register cn reg R) st n) T F) evs"
  by (simp add: live_step_def two_pool_def terminated_def register_pool_def register_world_def world_at_def)

lemma world_call_text:
  assumes "st k = (r, x)" "\<And>r s. h r s = Inr (v, [])"
  shows "tick L k (InCall c ((pr, Some h) # rest) w) (world_at R st n) = (Goes (CheckEnded c rest v), world_at R st n)"
  using assms
  by (auto simp: tick_def world_at_def call_tick_def call_slot_def put_objects_def fun_upd_idem)

lemma world_fill_fresh:
  assumes "st k = (r, x)" "ri_beast r \<noteq> None" "rp_beast x = Some fresh_response"
  shows "tick L k (Fill v) (world_at R st n) =
    (Goes (Finish 0), world_at R (st(k := (r, x\<lparr>rp_beast := Some (filled L r v)\<rparr>))) n)"
  using assms
  by (auto simp: tick_def answer_def world_at_def req_getRequest_def res_getResponse_def filled_def)

lemma late_written:
  assumes "cn_phase C0 = Writing x" "cn_phase C1 = Reading"
  shows "\<exists>P. live_run L cn (two_pool [C0, C1] W [1 \<mapsto> t] F) [Thread (Outside (Peer 0 (Written True)))] = Some P \<and>
    po_foreign P = F \<and> po_tasks P 0 = None \<and> length (connections (po_serving P)) = 2 \<and>
    cn_written (connections (po_serving P) ! 0) = cn_written C0 @ [x]"
  using assms
  by (simp add: live_step_def two_pool_def pool_step_def terminated_def crashed_def accepted_read_def
      pool_outside_def serving_step_def conn_step_def Let_def)

lemma late_run:
  assumes "parsed L q = Inr r" "req_path r = ''/hi''" "accepted q"
  shows "\<exists>P. live_run L group_insert (pool_start example_world) (late_events q) = Some P \<and> po_foreign P = {} \<and>
     po_tasks P 0 = None \<and> length (connections (po_serving P)) = 2 \<and>
     cn_written (connections (po_serving P) ! 0) = [filled L r ''bye'']"
proof -
  let ?R = "w_router example_world" and ?f = "InMethod ''/hi''"
  have route: "find_signal ''/hi'' (routeGetMap ?R) (routeAllMap ?R) = ?f" "reuses_signal late_handler ?R"
    "signal_at ?f ?R = Some example_signal"
    by (simp_all add: example_world_def find_signal_def smap_find_def late_handler_def reuses_signal_def signal_at_def)
  have slots: "new_slots group_insert late_handler ?f (sg_slots example_signal) =
      [(10, Some (\<lambda>_ _. Inr (''hello'', []))), (20, Some (\<lambda>_ _. Inr (''bye'', [])))]"
    by (simp add: new_slots_def late_handler_def example_signal_def group_insert_def)
  have new: "signal_at ?f (mark_signal k ?f (register group_insert late_handler ?R)) =
      Some \<lparr>sg_slots = [(10, Some (\<lambda>_ _. Inr (''hello'', []))), (20, Some (\<lambda>_ _. Inr (''bye'', [])))], sg_combiner = Some k\<rparr>" for k
    using slots by (simp add: signal_at_mark_own signal_at_register [OF route(2)] route(3) set_combiner_def)
  have ticks: "\<exists>C0 C1 W t. live_run L group_insert (both_reading example_world r r)
       (map Thread [Tick 0] @ [Register late_handler] @ map Thread (replicate 9 (Tick 0))) =
      Some (two_pool [C0, C1] W [1 \<mapsto> t] {}) \<and> cn_phase C0 = Writing (filled L r ''bye'') \<and>
      cn_phase C1 = Reading \<and> cn_written C0 = []"
    using parsed_beast [OF assms(1)] assms(2) route new
    by (simp add: both_reading_two_pool live_two_pool_tick live_two_pool_register numeral_eq_Suc crashed_def
        newConnection_def world_ticks world_call_text world_check world_return world_fill_fresh world_finish takes_foreign_def
        del: live_run.simps(2))
       (intro exI conjI; (rule refl)?; simp)
  then obtain C0 C1 W t where run: "live_run L group_insert (both_reading example_world r r)
       (map Thread [Tick 0] @ [Register late_handler] @ map Thread (replicate 9 (Tick 0))) = Some (two_pool [C0, C1] W [1 \<mapsto> t] {})"
    and c: "cn_phase C0 = Writing (filled L r ''bye'')" "cn_phase C1 = Reading" "cn_written C0 = []"
    by blast
  have reads: "live_run L group_insert (pool_start example_world) (map Thread (two_reads q q)) = Some (both_reading example_world r r)"
    using pool_reads [OF assms(3,3,1,1)] by (simp add: live_run_threads)
  have "late_events q = map Thread (two_reads q q) @ (map Thread [Tick 0] @ [Register late_handler] @
      map Thread (replicate 9 (Tick 0))) @ [Thread (Outside (Peer 0 (Written True)))]"
    by (simp add: late_events_def)
  with reads run have "live_run L group_insert (pool_start example_world) (late_events q) =
      live_run L group_insert (two_pool [C0, C1] W [1 \<mapsto> t] {}) [Thread (Outside (Peer 0 (Written True)))]"
    by (simp only: live_run_append Option.bind.simps)
  with late_written [OF c(1,2), of L group_insert W t "{}"] c(3) show ?thesis by simp
qed

section \<open>Properties\<close>

text \<open>
  C5. Adding a handler, while the server runs, to a path that has a signal already is atomic for
  every request.  Whatever the threads do and whenever the application adds such handlers, a
  connection that is between two requests and whose calls took their own combiners is
  where it would be alone when each registration takes effect at once and each
  request is answered at once, at some moment after it was read and before the
  next event of its connection.  A registration on a new path inserts into a map that other
  threads read without a lock and has no such guarantee; it is no step of the model.
\<close>

theorem registration_linearizes:
  assumes "live_run L cn (pool_start W) evs = Some P" "i < length (connections (po_serving P))" "po_tasks P i = None"
    and "i \<notin> po_foreign P"
  shows "\<exists>seq. delays (own_view i evs) seq \<and>
    (let C = connections (po_serving P) ! i; D = alone_run L cn (newConnection W) seq
     in cn_phase C = cn_phase D \<and> cn_written C = cn_written D)"
proof -
  obtain seq where "delays (own_view i evs) seq" "linked L cn W P i seq"
    using live_run_linked [OF assms(1,4)] by blast
  with assms(2,3) show ?thesis
    by (intro exI [of _ seq]) (simp add: linked_idle same_point_def connection_at_def Let_def)
qed

theorem registration_linearizes_witness:
  "\<exists>seq r. delays [Io (Handshaken True), Io (ReadRequest example_request), Reg late_handler, Io (Written True)] seq \<and>
     cn_written (alone_run example_lib group_insert (newConnection example_world) seq) = [filled example_lib r ''bye'']"
proof -
  obtain r where r: "parsed example_lib example_request = Inr r" "req_path r = ''/hi''"
    using example_parsed by blast
  from late_run [OF r example_accepted] obtain P where
    P: "live_run example_lib group_insert (pool_start example_world) (late_events example_request) = Some P"
      "po_foreign P = {}" "po_tasks P 0 = None" "length (connections (po_serving P)) = 2"
      "cn_written (connections (po_serving P) ! 0) = [filled example_lib r ''bye'']"
    by blast
  have "0 < length (connections (po_serving P))" "0 \<notin> po_foreign P" using P(2,4) by simp_all
  from registration_linearizes [OF P(1) this(1) P(3) this(2)] obtain seq where
    "delays (own_view 0 (late_events example_request)) seq"
    "cn_written (connections (po_serving P) ! 0) = cn_written (alone_run example_lib group_insert (newConnection example_world) seq)"
    unfolding Let_def by blast
  with P(5) show ?thesis unfolding late_view by (intro exI [of _ seq] exI [of _ r]) simp
qed
text \<open>
  C7. On any number of threads, under every schedule, whatever the peers send, whatever the
  handlers do and whenever handlers are registered, even when responses are mixed up: every
  response that has been written is complete.  Its status is 200 or 404, its
  Content-Length is the length of its body, and the version, keep-alive, Server and
  Content-Type fields are set.
\<close>

theorem live_writes_complete:
  assumes "live_run L cn (pool_start W) evs = Some P" "C \<in> set (connections (po_serving P))" "x \<in> set (cn_written C)"
  shows "complete_response x"
  using live_start_ok(2) [OF assms(1)] assms(2,3)
  by (simp add: pool_complete_def list_all_iff writes_complete_def)

theorem live_writes_complete_witness:
  "\<exists>r. req_path r = ''/hi'' \<and> complete_response (filled example_lib r ''bye'')"
proof -
  obtain r where r: "parsed example_lib example_request = Inr r" "req_path r = ''/hi''"
    using example_parsed by blast
  from late_run [OF r example_accepted] obtain P where
    P: "live_run example_lib group_insert (pool_start example_world) (late_events example_request) = Some P"
      "length (connections (po_serving P)) = 2"
      "cn_written (connections (po_serving P) ! 0) = [filled example_lib r ''bye'']"
    by blast
  from P(2) have "connections (po_serving P) ! 0 \<in> set (connections (po_serving P))" by simp
  from live_writes_complete [OF P(1) this] P(3) r(2) show ?thesis by auto
qed

text \<open>
  C6. Under every schedule, whatever combiners are replaced and whenever handlers are
  registered, a step of a thread ends the process exactly when the parser rejects the
  text of an accepted request or a handler throws; no null pointer is read in between.
  When the process has ended nothing takes another step, and until then it goes on.
\<close>

theorem live_ends_exactly:
  assumes "live_run L cn (pool_start W) evs = Some P" "live_step L cn P (Thread ev) = Some P1"
  shows "(terminated (po_serving P1) \<longleftrightarrow>
      (\<exists>i q e. ev = Outside (Peer i (ReadRequest q)) \<and> cn_phase (connections (po_serving P) ! i) = Reading \<and>
         accepted q \<and> parsed L q = Inl e) \<or>
      (\<exists>i k c p h rest v e. ev = Tick i \<and> po_tasks P i = Some (k, InCall c ((p, h) # rest) v) \<and>
         call_slot L h (w_store (sr_world (po_serving P)) k) = Inl e)) \<and>
    (terminated (po_serving P1) \<longleftrightarrow> (\<forall>ev'. live_step L cn P1 ev' = None))"
proof
  have step: "pool_step L P ev = Some P1" using assms(2) by (simp add: live_step_def)
  obtain W0 where wf: "pool_wf W0 P" using live_start_ok(1) [OF assms(1)] by (auto simp: any_wf_def)
  show "terminated (po_serving P1) \<longleftrightarrow>
      (\<exists>i q e. ev = Outside (Peer i (ReadRequest q)) \<and> cn_phase (connections (po_serving P) ! i) = Reading \<and>
         accepted q \<and> parsed L q = Inl e) \<or>
      (\<exists>i k c p h rest v e. ev = Tick i \<and> po_tasks P i = Some (k, InCall c ((p, h) # rest) v) \<and>
         call_slot L h (w_store (sr_world (po_serving P)) k) = Inl e)"
    by (rule pool_step_terminated [OF step wf live_start_ok(2) [OF assms(1)]])
  show "terminated (po_serving P1) \<longleftrightarrow> (\<forall>ev'. live_step L cn P1 ev' = None)"
  proof
    assume "\<forall>ev'. live_step L cn P1 ev' = None"
    then have "live_step L cn P1 (Thread (Outside (Acceptor True))) = None" by blast
    then show "terminated (po_serving P1)"
      by (simp add: live_step_def pool_step_def pool_outside_def serving_step_def split: if_splits)
  next
    assume "terminated (po_serving P1)"
    then show "\<forall>ev'. live_step L cn P1 ev' = None"
      by (auto simp: live_step_def pool_step_def split: live_event.split)
  qed
qed

theorem live_ends_exactly_witness:
  "\<exists>P1 P2. live_run example_lib group_insert (pool_start example_world)
       (map Thread (map Outside (accepts_two @ [Peer 0 (Handshaken True)])) @ [Register late_handler]) = Some P1 \<and>
     live_step example_lib group_insert P1 (Thread (Outside (Peer 0 (ReadRequest malformed_request)))) = Some P2 \<and>
     (\<forall>ev. live_step example_lib group_insert P2 ev = None)"
proof -
  let ?first = "map Thread (map Outside (accepts_two @ [Peer 0 (Handshaken True)])) @ [Register late_handler]"
  have reuses: "reuses_signal late_handler (w_router example_world)"
    by (simp add: example_world_def smap_find_def late_handler_def reuses_signal_def)
  obtain P1 where P1: "live_run example_lib group_insert (pool_start example_world) ?first = Some P1"
      "cn_phase (connections (po_serving P1) ! 0) = Reading" "po_tasks P1 0 = None"
      "0 < length (connections (po_serving P1))" "\<not> terminated (po_serving P1)"
    unfolding live_run_append live_run_threads map_append pool_run_append pool_accepts
    using reuses
    by (simp add: live_step_def pool_step_def pool_outside_def idle_pool_def two_connections_def accepted_read_def
        serving_step_def terminated_def crashed_def newConnection_def conn_step_def Let_def register_pool_def)
  obtain P2 where P2: "live_step example_lib group_insert P1 (Thread (Outside (Peer 0 (ReadRequest malformed_request)))) = Some P2"
    using P1(2-5) malformed_accepted by (simp add: live_step_def pool_step_def accepted_read_def)
  from live_ends_exactly [OF P1(1) P2] P1(1,2) malformed_accepted malformed_parsed P2 show ?thesis by blast
qed

end
