(* ===== verification/UrlText.thy ===== *)
theory UrlText
  imports UrlBase
begin

text \<open>
  Reading a whole URL: \<open>parse_url\<close> of \<open>detail/parse.hpp\<close> and
  \<open>url_base::set_encoded_url\<close> of \<open>impl/url_base.ipp\<close> in the vendored URL library.
  The state of the parser is the table of parts, the position of its pointer and
  the text from there on.
\<close>

section \<open>Definitions\<close>

definition qkey_pct_set :: "char \<Rightarrow> bool" where
  "qkey_pct_set c \<longleftrightarrow> \<not> (alnum c \<or> c \<in> set (''!$&()*+,-./:;?@_~'' @ [CHR 0x27]))"

definition qval_pct_set :: "char \<Rightarrow> bool" where
  "qval_pct_set c \<longleftrightarrow> \<not> (alnum c \<or> c \<in> set (''!$()*+,-./:;=?@_~'' @ [CHR 0x27]))"

record pstate =
  ps_parts :: parts
  ps_pos :: nat
  ps_rest :: string

definition ps_start :: "string \<Rightarrow> pstate" where
  "ps_start s = \<lparr>ps_parts = no_parts, ps_pos = 0, ps_rest = s\<rparr>"

text \<open>The pointer moves to where the remaining text is \<open>r\<close>.\<close>

definition ps_move :: "string \<Rightarrow> pstate \<Rightarrow> pstate" where
  "ps_move r P = P\<lparr>ps_pos := ps_pos P + (length (ps_rest P) - length r), ps_rest := r\<rparr>"

definition mark :: "nat \<Rightarrow> pstate \<Rightarrow> pstate" where
  "mark i P = P\<lparr>ps_parts := parts_resize i
     (if i = id_scheme then ps_pos P else ps_pos P - offset (ps_parts P) i) (ps_parts P)\<rparr>"

definition match_literal :: "string \<Rightarrow> pstate \<Rightarrow> pstate option" where
  "match_literal s P =
     (if length (ps_rest P) < length s then None
      else if take (length s) (ps_rest P) \<noteq> s then None
      else Some (ps_move (drop (length s) (ps_rest P)) P))"

definition ps_pct :: "(char \<Rightarrow> bool) \<Rightarrow> pstate \<Rightarrow> url_error + pstate" where
  "ps_pct special P = map_sum id (\<lambda>r. ps_move r P) (pct_parse special (ps_rest P))"

definition ps_path :: "(string \<Rightarrow> url_error + (nat \<times> string)) \<Rightarrow> pstate \<Rightarrow> url_error + pstate" where
  "ps_path parse P =
     (case parse (ps_rest P) of
        Inl e \<Rightarrow> Inl e
      | Inr (n, r) \<Rightarrow>
          Inr (mark id_path ((ps_move r P)\<lparr>ps_parts := (ps_parts P)\<lparr>nseg := nseg (ps_parts P) + n\<rparr>\<rparr>)))"

definition parse_userinfo :: "pstate \<Rightarrow> url_error + pstate" where
  "parse_userinfo P =
     (case ps_pct userinfo_nc_pct_set P of
        Inl e \<Rightarrow> Inl e
      | Inr P1 \<Rightarrow> map_sum id (mark id_password) (ps_pct userinfo_pct_set (mark id_user P1)))"

fun match_port :: "string \<Rightarrow> string" where
  "match_port [] = []"
| "match_port (c # p) = (if octet_digit c > 9 then c # p else match_port p)"

definition parse_host :: "pstate \<Rightarrow> url_error + pstate" where
  "parse_host P =
     (case parse_hostname (ps_rest P) of
        Inl e \<Rightarrow> Inl e
      | Inr (h, r) \<Rightarrow>
          let P1 = mark id_host ((ps_move r P)\<lparr>ps_parts := (ps_parts P)\<lparr>phost := h\<rparr>\<rparr>) in
          (case ps_rest P1 of
             [] \<Rightarrow> Inr P1
           | c # p \<Rightarrow> if c \<noteq> CHR '':'' then Inr P1 else Inr (mark id_port (ps_move (match_port p) P1))))"

definition parse_authority :: "pstate \<Rightarrow> url_error + pstate" where
  "parse_authority P =
     (case parse_userinfo P of
        Inl e \<Rightarrow> if e = NoMatch then parse_host P else Inl e
      | Inr P1 \<Rightarrow>
          (case match_literal ''@'' P1 of
             Some P2 \<Rightarrow> parse_host (mark id_password P2)
           | None \<Rightarrow> parse_host (mark id_password (mark id_user
               (P1\<lparr>ps_pos := ps_pos P, ps_rest := ps_rest P\<rparr>)))))"

definition parse_authority_path :: "pstate \<Rightarrow> url_error + pstate" where
  "parse_authority_path P =
     (case parse_authority P of Inl e \<Rightarrow> Inl e | Inr P1 \<Rightarrow> ps_path parse_path_abempty P1)"

definition parse_hier_part :: "pstate \<Rightarrow> url_error + pstate" where
  "parse_hier_part P =
     (case match_literal ''//'' P of
        Some P1 \<Rightarrow> parse_authority_path P1
      | None \<Rightarrow>
          (case ps_path parse_path_absolute P of
             Inr P1 \<Rightarrow> Inr P1
           | Inl e \<Rightarrow>
               if e \<noteq> NoMatch then Inl e
               else (case ps_path parse_path_rootless P of
                       Inr P1 \<Rightarrow> Inr P1
                     | Inl e \<Rightarrow> if e \<noteq> NoMatch then Inl e else Inr P)))"

definition parse_relative_part :: "pstate \<Rightarrow> url_error + pstate" where
  "parse_relative_part P =
     (case match_literal ''//'' P of
        Some P1 \<Rightarrow> parse_authority_path P1
      | None \<Rightarrow>
          (case ps_path parse_path_absolute P of
             Inr P1 \<Rightarrow> Inr P1
           | Inl e \<Rightarrow>
               if e \<noteq> NoMatch then Inl e
               else (case ps_path parse_path_noscheme P of
                       Inr P1 \<Rightarrow> Inr P1
                     | Inl e \<Rightarrow> if e \<noteq> NoMatch then Inl e else Inr P)))"

text \<open>The loop over the parameters: their number and the text after them.\<close>

function query_loop :: "nat \<Rightarrow> string \<Rightarrow> url_error + (nat \<times> string)" where
  "query_loop n s =
     (case pct_parse qkey_pct_set s of
        Inl e \<Rightarrow> Inl e
      | Inr [] \<Rightarrow> Inr (Suc n, [])
      | Inr (c # r) \<Rightarrow>
          if c \<noteq> CHR ''='' then Inr (Suc n, c # r)
          else if r = [] then Inr (Suc n, [])
          else (case pct_parse qval_pct_set r of
                  Inl e \<Rightarrow> Inl e
                | Inr [] \<Rightarrow> Inr (Suc n, [])
                | Inr (d # q) \<Rightarrow>
                    if d \<noteq> CHR ''&'' then Inr (Suc n, d # q) else query_loop (Suc n) q))"
  by pat_completeness auto
termination
  by (relation "measure (\<lambda>(n, s). length s)") (auto dest!: pct_parse_length)

declare query_loop.simps [simp del]

definition parse_query :: "pstate \<Rightarrow> url_error + pstate" where
  "parse_query P =
     (if ps_rest P = [] \<or> hd (ps_rest P) \<noteq> CHR ''?'' then Inr P
      else (case query_loop 0 (ps_rest P) of
              Inl e \<Rightarrow> Inl e
            | Inr (n, r) \<Rightarrow>
                let P1 = mark id_query (ps_move r P)
                in Inr (P1\<lparr>ps_parts := (ps_parts P1)\<lparr>nparam := n\<rparr>\<rparr>)))"

definition parse_fragment :: "pstate \<Rightarrow> url_error + pstate" where
  "parse_fragment P =
     (if ps_rest P = [] \<or> hd (ps_rest P) \<noteq> CHR ''#'' then Inr P
      else map_sum id (mark id_frag) (ps_pct frag_pct_set (ps_move (tl (ps_rest P)) P)))"

definition match_scheme_colon :: "pstate \<Rightarrow> pstate option" where
  "match_scheme_colon P =
     (case match_scheme (ps_rest P) of None \<Rightarrow> None | Some r \<Rightarrow> match_literal '':'' (ps_move r P))"

definition parse_url :: "string \<Rightarrow> url_error + parts" where
  "parse_url s =
     (case (case match_scheme_colon (ps_start s) of
              Some P \<Rightarrow> parse_hier_part (mark id_scheme P)
            | None \<Rightarrow> parse_relative_part (ps_start s)) of
        Inl e \<Rightarrow> Inl e
      | Inr P1 \<Rightarrow>
          (case parse_query P1 of
             Inl e \<Rightarrow> Inl e
           | Inr P2 \<Rightarrow>
               (case parse_fragment P2 of
                  Inl e \<Rightarrow> Inl e
                | Inr P3 \<Rightarrow> if ps_rest P3 = [] then Inr (ps_parts P3) else Inl Syntax)))"

definition set_encoded_url :: "string \<Rightarrow> url_base \<Rightarrow> url_base res" where
  "set_encoded_url s u =
     (if s = [] then Inr (clear_range id_scheme id_end u)
      else (case parse_url s of
              Inl _ \<Rightarrow> Inl InvalidPart
            | Inr pt \<Rightarrow> Inr \<lparr>ubuf = s, uparts = pt\<rparr>))"

section \<open>Parsing consumes a prefix\<close>

lemma octet_loop_length: "length (snd (octet_loop v s)) \<le> length s"
  by (induction v s rule: octet_loop.induct) (auto simp: Let_def le_SucI)

lemma match_octet_length: "match_octet s = (v, r) \<Longrightarrow> length r \<le> length s"
  using octet_loop_length [of "int (octet_digit (hd s))" "tl s"]
  by (auto simp: match_octet_def Let_def split: list.splits if_splits)

lemma octet_dot_length:
  "octet_dot s = Inr r \<Longrightarrow> length r \<le> length s" "octet_dot s = Inl r \<Longrightarrow> length r \<le> length s"
  using match_octet_length [of s]
  by (auto simp: octet_dot_def Let_def split: prod.splits list.splits if_splits)

lemma match_ip_v4_length: "match_ip_v4 s = (b, r) \<Longrightarrow> length r \<le> length s"
proof -
  assume a: "match_ip_v4 s = (b, r)"
  note l = octet_dot_length match_octet_length
  show ?thesis
  proof (cases "octet_dot s")
    case (Inl x)
    with a l(2) show ?thesis by (auto simp: match_ip_v4_def)
  next
    case s1: (Inr s1)
    note l1 = l(1) [OF s1]
    show ?thesis
    proof (cases "octet_dot s1")
      case (Inl x)
      with a s1 l1 l(2) [OF Inl] show ?thesis by (auto simp: match_ip_v4_def)
    next
      case s2: (Inr s2)
      note l2 = l(1) [OF s2]
      show ?thesis
      proof (cases "octet_dot s2")
        case (Inl x)
        with a s1 s2 l1 l2 l(2) [OF Inl] show ?thesis by (auto simp: match_ip_v4_def)
      next
        case s3: (Inr s3)
        obtain d q where "match_octet s3 = (d, q)" by (cases "match_octet s3")
        with a s1 s2 s3 l1 l2 l(1) [OF s3] l(3) show ?thesis by (fastforce simp: match_ip_v4_def)
      qed
    qed
  qed
qed

lemma ip_v6_tail_length: "ip_v6_tail s = Inr r \<Longrightarrow> length r \<le> length s"
  by (auto simp: ip_v6_tail_def Let_def split: sum.splits prod.splits if_splits
      dest!: octet_dot_length(1) match_octet_length)

lemma ip_v6_loop_length: "ip_v6_loop n b c w s = Inr r \<Longrightarrow> length r \<le> length s"
proof (induction n b c w s rule: ip_v6_loop.induct)
  case (1 n b c w)
  then show ?case by (auto split: if_splits)
next
  case (2 n b c w x s)
  then show ?case
    by (fastforce split: if_splits list.splits sum.splits prod.splits
        dest!: parse_word_length ip_v6_tail_length)
qed

lemma parse_hostname_length: "parse_hostname s = Inr (h, r) \<Longrightarrow> length r \<le> length s"
proof (cases "parse_ip_literal s")
  case (Inr x)
  assume a: "parse_hostname s = Inr (h, r)"
  with Inr have "parse_ip_literal s = Inr (h, r)" by (simp add: parse_hostname_def)
  then show ?thesis
    by (auto simp: parse_ip_literal_def parse_ip_v6_def split: list.splits if_splits sum.splits
        dest!: ip_v6_loop_length)
next
  case (Inl e)
  assume a: "parse_hostname s = Inr (h, r)"
  obtain ok p where m: "match_ip_v4 s = (ok, p)" by (cases "match_ip_v4 s")
  with a Inl have "pct_parse reg_name_pct_set p = Inr r"
    by (auto simp: parse_hostname_def parse_ipv4_or_domain_def split: if_splits sum.splits)
  with match_ip_v4_length [OF m] pct_parse_length show ?thesis by fastforce
qed

lemma match_port_length: "length (match_port s) \<le> length s"
  by (induction s) auto

lemma parse_segments_length: "parse_segments n s = Inr (m, r) \<Longrightarrow> length r \<le> length s"
  by (induction n s rule: parse_segments.induct)
     (fastforce split: if_splits sum.splits dest: pct_parse_length)+

lemma path_length:
  "parse_path_abempty s = Inr (n, r) \<Longrightarrow> length r \<le> length s"
  "parse_path_absolute s = Inr (n, r) \<Longrightarrow> length r \<le> length s"
  "parse_path_noscheme s = Inr (n, r) \<Longrightarrow> length r \<le> length s"
  "parse_path_rootless s = Inr (n, r) \<Longrightarrow> length r \<le> length s"
  by (auto simp: parse_path_abempty_def parse_path_absolute_def parse_path_noscheme_def
      parse_path_rootless_def split: list.splits if_splits sum.splits
      dest!: parse_segments_length pct_parse_length)

lemma query_loop_length: "query_loop n s = Inr (m, r) \<Longrightarrow> length r \<le> length s"
proof (induction n s rule: query_loop.induct)
  case (1 n s)
  then show ?case
    by (subst (asm) query_loop.simps)
       (fastforce split: sum.splits list.splits if_splits dest: pct_parse_length)
qed

lemma scheme_chars_length: "length (scheme_chars s) \<le> length s"
  by (induction s) auto

lemma match_scheme_length: "match_scheme s = Some r \<Longrightarrow> length r \<le> length s"
  using scheme_chars_length [of "tl s"]
  by (auto simp: match_scheme_def split: list.splits if_splits)

section \<open>The table of parts while parsing\<close>

text \<open>
  The offsets ascend, the parts from \<open>k\<close> on are empty, and the parser has not
  passed the end of the text.
\<close>

definition fits :: "nat \<Rightarrow> nat \<Rightarrow> pstate \<Rightarrow> bool" where
  "fits N k P \<longleftrightarrow> offset (ps_parts P) 0 = 0 \<and>
     (\<forall>i < 8. offset (ps_parts P) i \<le> offset (ps_parts P) (Suc i)) \<and>
     offset (ps_parts P) 8 = offset (ps_parts P) k \<and>
     offset (ps_parts P) 8 \<le> ps_pos P \<and> ps_pos P + length (ps_rest P) = N"

text \<open>The last offset is where the parser stands.\<close>

definition flush :: "pstate \<Rightarrow> bool" where
  "flush P \<longleftrightarrow> offset (ps_parts P) 8 = ps_pos P"

lemma ascending: "\<forall>i < 8. f i \<le> f (Suc i) \<Longrightarrow> i \<le> j \<Longrightarrow> j \<le> 8 \<Longrightarrow> f i \<le> (f j :: nat)" for i j :: nat
proof (induction j)
  case 0
  then show ?case by simp
next
  case (Suc j)
  show ?case
  proof (cases "i = Suc j")
    case False
    with Suc.prems have "f i \<le> f j" by (intro Suc.IH) simp_all
    moreover have "f j \<le> f (Suc j)" using Suc.prems by simp
    ultimately show ?thesis by (rule le_trans)
  qed simp
qed

lemma fits_ascending: "fits N k P \<Longrightarrow> i \<le> j \<Longrightarrow> j \<le> 8 \<Longrightarrow> offset (ps_parts P) i \<le> offset (ps_parts P) j"
  unfolding fits_def by (rule ascending) simp_all

lemma fits_flat: "fits N k P \<Longrightarrow> k \<le> j \<Longrightarrow> j \<le> 8 \<Longrightarrow> offset (ps_parts P) j = offset (ps_parts P) 8"
proof -
  assume a: "fits N k P" "k \<le> j" "j \<le> 8"
  have "offset (ps_parts P) 8 = offset (ps_parts P) k" using a(1) by (simp add: fits_def)
  with fits_ascending [OF a] fits_ascending [OF a(1,3)] show ?thesis by simp
qed

lemma fits_start: "fits (length s) 0 (ps_start s)" "flush (ps_start s)"
  by (simp_all add: fits_def flush_def ps_start_def no_parts_def)

lemma fits_later:
  assumes "fits N k P" "k \<le> m" "m \<le> 8"
  shows "fits N m P"
  using assms(1) fits_flat [OF assms] unfolding fits_def by simp

lemma fits_move: "fits N k P \<Longrightarrow> length r \<le> length (ps_rest P) \<Longrightarrow> fits N k (ps_move r P)"
  unfolding fits_def ps_move_def by auto

lemma ps_move_parts: "ps_parts (ps_move r P) = ps_parts P" "ps_rest (ps_move r P) = r"
  by (simp_all add: ps_move_def)

lemma fits_counters:
  "fits N k (P\<lparr>ps_parts := (ps_parts P)\<lparr>nseg := a\<rparr>\<rparr>) = fits N k P"
  "fits N k (P\<lparr>ps_parts := (ps_parts P)\<lparr>nparam := a\<rparr>\<rparr>) = fits N k P"
  "fits N k (P\<lparr>ps_parts := (ps_parts P)\<lparr>phost := h\<rparr>\<rparr>) = fits N k P"
  "flush (P\<lparr>ps_parts := (ps_parts P)\<lparr>nparam := a\<rparr>\<rparr>) = flush P"
  by (simp_all add: fits_def flush_def)

lemma mark_offsets:
  assumes "fits N (Suc i) P" "i < 8"
  shows "offset (ps_parts (mark i P)) j =
    (if i < j \<and> j \<le> 8 then ps_pos P else offset (ps_parts P) j)"
proof -
  have z: "offset (ps_parts P) 0 = 0" and p: "offset (ps_parts P) 8 \<le> ps_pos P"
    using assms(1) by (simp_all add: fits_def)
  have i: "offset (ps_parts P) i \<le> offset (ps_parts P) (Suc i)"
    using assms by (intro fits_ascending [OF assms(1)]) simp_all
  have e: "offset (ps_parts P) (Suc i) = offset (ps_parts P) 8"
    using assms by (intro fits_flat [OF assms(1)]) simp_all
  have f: "offset (ps_parts P) j = offset (ps_parts P) 8" if "i < j" "j \<le> 8"
    using that by (intro fits_flat [OF assms(1)]) simp_all
  show ?thesis
  proof (cases "i < j \<and> j \<le> 8")
    case True
    with f have "offset (ps_parts P) j = offset (ps_parts P) 8" by simp
    with True z p i e show ?thesis
      by (cases "i = 0") (auto simp: mark_def parts_resize_def Let_def parts_length_def)
  next
    case False
    then show ?thesis by (auto simp: mark_def parts_resize_def Let_def)
  qed
qed

lemma mark_pos: "ps_pos (mark i P) = ps_pos P" "ps_rest (mark i P) = ps_rest P"
  by (simp_all add: mark_def)

lemma fits_mark:
  assumes "fits N (Suc i) P" "i < 8"
  shows "fits N (Suc i) (mark i P)" "flush (mark i P)"
proof -
  note o = mark_offsets [OF assms]
  have "offset (ps_parts (mark i P)) j \<le> offset (ps_parts (mark i P)) (Suc j)" if "j < 8" for j
  proof -
    have "offset (ps_parts P) j \<le> offset (ps_parts P) (Suc j)" "offset (ps_parts P) j \<le> offset (ps_parts P) 8"
      using that by (auto intro: fits_ascending [OF assms(1)])
    moreover have "offset (ps_parts P) 8 \<le> ps_pos P" using assms(1) by (simp add: fits_def)
    ultimately show ?thesis using that by (auto simp: o)
  qed
  then show "fits N (Suc i) (mark i P)" "flush (mark i P)"
    using assms by (simp_all add: fits_def flush_def o mark_pos)
qed

section \<open>Every routine keeps the table\<close>

text \<open>From a flush state up to part \<open>k\<close> to a flush state up to part \<open>m\<close>.\<close>

definition keeps :: "nat \<Rightarrow> nat \<Rightarrow> pstate \<Rightarrow> url_error + pstate \<Rightarrow> bool" where
  "keeps N m P r \<longleftrightarrow> (\<forall>P'. r = Inr P' \<longrightarrow> fits N m P' \<and> flush P')"

lemma match_literal_fits: "fits N k P \<Longrightarrow> match_literal w P = Some P' \<Longrightarrow> fits N k P'"
  by (auto simp: match_literal_def fits_move split: if_splits)

lemma ps_pct_fits: "fits N k P \<Longrightarrow> ps_pct special P = Inr P' \<Longrightarrow> fits N k P'"
  by (cases "pct_parse special (ps_rest P)") (auto simp: ps_pct_def intro: fits_move pct_parse_length)

lemma ps_pct_pos: "ps_pct special P = Inr P' \<Longrightarrow> ps_parts P' = ps_parts P \<and> ps_pos P \<le> ps_pos P'"
  by (cases "pct_parse special (ps_rest P)") (auto simp: ps_pct_def ps_move_def)

lemma ps_path_keeps:
  assumes "fits N 5 P" "\<And>n r. parse (ps_rest P) = Inr (n, r) \<Longrightarrow> length r \<le> length (ps_rest P)"
  shows "keeps N 6 P (ps_path parse P)"
proof (cases "parse (ps_rest P)")
  case (Inl e)
  then show ?thesis by (simp add: keeps_def ps_path_def)
next
  case (Inr x)
  obtain n r where x: "x = (n, r)" by (cases x)
  have "fits N 6 (ps_move r P)"
    using assms Inr x by (simp add: fits_later [OF fits_move])
  then have "fits N 6 ((ps_move r P)\<lparr>ps_parts := (ps_parts (ps_move r P))\<lparr>nseg := nseg (ps_parts P) + n\<rparr>\<rparr>)"
    by (simp only: fits_counters)
  then have "fits N (Suc 5) ((ps_move r P)\<lparr>ps_parts := (ps_parts P)\<lparr>nseg := nseg (ps_parts P) + n\<rparr>\<rparr>)"
    by (simp add: ps_move_parts)
  from fits_mark [OF this] Inr x show ?thesis by (simp add: keeps_def ps_path_def)
qed

lemma map_sum_Inr: "map_sum id f x = Inr y \<longleftrightarrow> (\<exists>z. x = Inr z \<and> y = f z)"
  by (cases x) auto

lemma parse_userinfo_fits:
  assumes "fits N 1 P" "parse_userinfo P = Inr P'"
  shows "fits N 3 P'" "offset (ps_parts P) 1 = offset (ps_parts P') 1"
    "ps_pos P \<le> offset (ps_parts P') 2" "ps_pos P \<le> ps_pos P'"
proof -
  obtain P1 where P1: "ps_pct userinfo_nc_pct_set P = Inr P1"
    using assms(2) by (auto simp: parse_userinfo_def split: sum.splits)
  obtain P2 where P2: "ps_pct userinfo_pct_set (mark id_user P1) = Inr P2" "P' = mark id_password P2"
    using assms(2) P1 by (auto simp: parse_userinfo_def map_sum_Inr)
  have f1: "fits N (Suc 1) P1" using ps_pct_fits [OF assms(1) P1] by (rule fits_later) simp_all
  note m1 = fits_mark [OF f1, simplified] and o1 = mark_offsets [OF f1, simplified]
  have f2: "fits N (Suc 2) P2"
    using ps_pct_fits [OF m1(1)] P2(1) fits_later [of N 2 P2 3] by (simp add: eval_nat_numeral)
  show "fits N 3 P'" using fits_mark(1) [OF f2] P2(2) by (simp add: numeral_3_eq_3 numeral_2_eq_2)
  have p: "ps_parts P1 = ps_parts P" "ps_pos P \<le> ps_pos P1"
    "ps_parts P2 = ps_parts (mark (Suc 0) P1)" "ps_pos P1 \<le> ps_pos P2"
    using ps_pct_pos [OF P1] ps_pct_pos [OF P2(1)] by (simp_all add: mark_pos)
  have "offset (ps_parts P') 1 = offset (ps_parts P2) 1"
    unfolding P2(2) mark_offsets [OF f2, simplified] by simp
  also have "\<dots> = offset (ps_parts P1) 1" unfolding p(3) o1 by simp
  finally show "offset (ps_parts P) 1 = offset (ps_parts P') 1" using p(1) by simp
  have "offset (ps_parts P') 2 = offset (ps_parts P2) 2"
    unfolding P2(2) mark_offsets [OF f2, simplified] by simp
  also have "\<dots> = ps_pos P1" unfolding p(3) o1 by simp
  finally show "ps_pos P \<le> offset (ps_parts P') 2" using p(2) by simp
  show "ps_pos P \<le> ps_pos P'"
    using p(2,4) P2(2) by (simp add: mark_pos)
qed

text \<open>Backtracking: the user and the password become empty where the host begins.\<close>

lemma mark_back_offsets:
  assumes "0 < i" "offset (ps_parts P) i \<le> ps_pos P" "ps_pos P \<le> offset (ps_parts P) (Suc i)"
  shows "offset (ps_parts (mark i P)) j =
    (if i < j \<and> j \<le> 8 then offset (ps_parts P) j - (offset (ps_parts P) (Suc i) - ps_pos P)
     else offset (ps_parts P) j)"
  using assms by (auto simp: mark_def parts_resize_def Let_def parts_length_def)

lemma mark_back:
  assumes f: "fits N 3 P" and p: "offset (ps_parts P) 1 \<le> p0" "p0 \<le> offset (ps_parts P) 2"
    and r: "p0 + length r = N"
  shows "fits N 3 (mark id_password (mark id_user (P\<lparr>ps_pos := p0, ps_rest := r\<rparr>)))"
    (is "fits N 3 ?Q")
proof -
  have e: "offset (ps_parts P) j = offset (ps_parts P) 8" if "3 \<le> j" "j \<le> 8" for j
    using that by (intro fits_flat [OF f])
  have m: "offset (ps_parts P) 0 = 0" "offset (ps_parts P) 0 \<le> offset (ps_parts P) 1"
    "offset (ps_parts P) 2 \<le> offset (ps_parts P) 8" "offset (ps_parts P) 1 \<le> offset (ps_parts P) 2"
    using f fits_ascending [OF f, of 2 8] fits_ascending [OF f, of 1 2] by (simp_all add: fits_def)
  define U where "U = mark id_user (P\<lparr>ps_pos := p0, ps_rest := r\<rparr>)"
  have u: "offset (ps_parts U) j =
      (if 1 < j \<and> j \<le> 8 then offset (ps_parts P) j - (offset (ps_parts P) 2 - p0) else offset (ps_parts P) j)" for j
    using p mark_back_offsets [of 1 "P\<lparr>ps_pos := p0, ps_rest := r\<rparr>" j]
    by (simp add: U_def numeral_2_eq_2)
  have u2: "offset (ps_parts U) 2 = p0" and u3: "offset (ps_parts U) 3 = offset (ps_parts P) 8 - (offset (ps_parts P) 2 - p0)"
    using p e [of 3] u [of 2] u [of 3] by simp_all
  have up: "ps_pos U = p0" by (simp add: U_def mark_pos)
  have q: "offset (ps_parts (mark id_password U)) j =
      (if 2 < j \<and> j \<le> 8 then offset (ps_parts U) j - (offset (ps_parts U) 3 - p0) else offset (ps_parts U) j)" for j
    using u2 u3 up p m mark_back_offsets [of 2 U j] by (simp add: numeral_3_eq_3 numeral_2_eq_2)
  have o: "offset (ps_parts ?Q) j = (if 2 \<le> j \<and> j \<le> 8 then p0 else offset (ps_parts P) j)" for j
  proof -
    consider "j < 2" | "j = 2" | "2 < j" "j \<le> 8" | "8 < j" by linarith
    then show ?thesis unfolding U_def [symmetric]
    proof cases
      case 1
      then show "offset (ps_parts (mark 2 U)) j = (if 2 \<le> j \<and> j \<le> 8 then p0 else offset (ps_parts P) j)"
        using q [of j] u [of j] by simp
    next
      case 2
      then show "offset (ps_parts (mark 2 U)) j = (if 2 \<le> j \<and> j \<le> 8 then p0 else offset (ps_parts P) j)"
        using q [of j] u2 by simp
    next
      case 3
      then show "offset (ps_parts (mark 2 U)) j = (if 2 \<le> j \<and> j \<le> 8 then p0 else offset (ps_parts P) j)"
        using q [of j] u [of j] u3 e [of j] m p by simp
    next
      case 4
      then show "offset (ps_parts (mark 2 U)) j = (if 2 \<le> j \<and> j \<le> 8 then p0 else offset (ps_parts P) j)"
        using q [of j] u [of j] by simp
    qed
  qed
  have "offset (ps_parts ?Q) j \<le> offset (ps_parts ?Q) (Suc j)" if "j < 8" for j
  proof -
    consider "j = 0" | "j = 1" | "2 \<le> j" by linarith
    then show ?thesis unfolding o using that m p by cases simp_all
  qed
  then show ?thesis
    using m r by (simp add: fits_def o [unfolded One_nat_def] mark_pos)
qed

lemma parse_host_keeps:
  assumes "fits N 3 P"
  shows "keeps N 5 P (parse_host P)"
proof (cases "parse_hostname (ps_rest P)")
  case (Inl e)
  then show ?thesis by (simp add: keeps_def parse_host_def)
next
  case (Inr x)
  obtain h r where x: "x = (h, r)" by (cases x)
  with Inr have l: "length r \<le> length (ps_rest P)" using parse_hostname_length by blast
  let ?P0 = "(ps_move r P)\<lparr>ps_parts := (ps_parts P)\<lparr>phost := h\<rparr>\<rparr>"
  have "fits N 3 ((ps_move r P)\<lparr>ps_parts := (ps_parts (ps_move r P))\<lparr>phost := h\<rparr>\<rparr>)"
    using fits_move [OF assms l] by (simp only: fits_counters)
  then have "fits N 3 ?P0" by (simp add: ps_move_parts)
  then have f0: "fits N (Suc 3) ?P0" by (rule fits_later) simp_all
  let ?P1 = "mark id_host ?P0"
  note f1 = fits_mark [OF f0, simplified]
  have f15: "fits N 5 ?P1" using f1(1) by (rule fits_later) simp_all
  have rest: "ps_rest ?P1 = r" by (simp add: mark_pos ps_move_def)
  show ?thesis
  proof (cases "r \<noteq> [] \<and> hd r = CHR '':''")
    case False
    with Inr x f15 f1(2) rest show ?thesis
      by (cases r) (auto simp: keeps_def parse_host_def Let_def)
  next
    case True
    then obtain p where r: "r = CHR '':'' # p" by (cases r) auto
    have "length (match_port p) \<le> length (ps_rest ?P1)"
      using match_port_length [of p] rest r by simp
    then have "fits N (Suc 4) (ps_move (match_port p) ?P1)"
      using fits_move [OF f15] by simp
    note fits_mark [OF this, simplified]
    with Inr x rest r show ?thesis by (simp add: keeps_def parse_host_def Let_def)
  qed
qed

lemma parse_authority_keeps:
  assumes "fits N 1 P"
  shows "keeps N 5 P (parse_authority P)"
proof (cases "parse_userinfo P")
  case (Inl e)
  have "keeps N 5 P (parse_host P)"
    using fits_later [OF assms, of 3] by (intro parse_host_keeps) simp
  with Inl show ?thesis by (auto simp: keeps_def parse_authority_def)
next
  case (Inr P1)
  note u = parse_userinfo_fits [OF assms Inr]
  show ?thesis
  proof (cases "match_literal ''@'' P1")
    case (Some P2)
    have "fits N (Suc 2) P2"
      using match_literal_fits [OF u(1) Some] by (simp add: numeral_3_eq_3 numeral_2_eq_2)
    then have "fits N 3 (mark id_password P2)"
      using fits_mark(1) [of N 2 P2] by (simp add: numeral_3_eq_3 numeral_2_eq_2)
    with Inr Some parse_host_keeps show ?thesis by (simp add: keeps_def parse_authority_def)
  next
    case None
    have "offset (ps_parts P) 1 \<le> ps_pos P" "ps_pos P + length (ps_rest P) = N"
      using assms by (simp_all add: fits_def)
    then have "fits N 3 (mark id_password (mark id_user (P1\<lparr>ps_pos := ps_pos P, ps_rest := ps_rest P\<rparr>)))"
      using u by (intro mark_back) simp_all
    with Inr None parse_host_keeps show ?thesis by (simp add: keeps_def parse_authority_def)
  qed
qed

lemma parse_authority_path_keeps: "fits N 1 P \<Longrightarrow> keeps N 6 P (parse_authority_path P)"
  using parse_authority_keeps [of N P] ps_path_keeps [of N _ parse_path_abempty] path_length(1)
  by (fastforce simp: keeps_def parse_authority_path_def split: sum.splits)

lemma parse_part_keeps:
  assumes "fits N 1 P" "flush P"
    and rest: "\<And>n r. parse (ps_rest P) = Inr (n, r) \<Longrightarrow> length r \<le> length (ps_rest P)"
    and eq: "f P = (case match_literal ''//'' P of
        Some P1 \<Rightarrow> parse_authority_path P1
      | None \<Rightarrow>
          (case ps_path parse_path_absolute P of
             Inr P1 \<Rightarrow> Inr P1
           | Inl e \<Rightarrow>
               if e \<noteq> NoMatch then Inl e
               else (case ps_path parse P of
                       Inr P1 \<Rightarrow> Inr P1
                     | Inl e \<Rightarrow> if e \<noteq> NoMatch then Inl e else Inr P)))"
  shows "keeps N 6 P (f P)"
proof (cases "match_literal ''//'' P")
  case (Some P1)
  with match_literal_fits [OF assms(1)] parse_authority_path_keeps [of N P1] show ?thesis
    by (simp add: eq keeps_def)
next
  case None
  have f5: "fits N 5 P" and f6: "fits N 6 P"
    using assms(1) by (auto intro: fits_later [of N 1])
  have a: "keeps N 6 P (ps_path parse_path_absolute P)" "keeps N 6 P (ps_path parse P)"
    using ps_path_keeps [OF f5] path_length(2) rest by blast+
  show ?thesis
    unfolding eq using None a f6 assms(2)
    by (auto simp: keeps_def split: sum.splits)
qed

lemma parse_hier_part_keeps: "fits N 1 P \<Longrightarrow> flush P \<Longrightarrow> keeps N 6 P (parse_hier_part P)"
  by (rule parse_part_keeps [where parse = parse_path_rootless])
     (auto simp: parse_hier_part_def path_length)

lemma parse_relative_part_keeps: "fits N 1 P \<Longrightarrow> flush P \<Longrightarrow> keeps N 6 P (parse_relative_part P)"
  by (rule parse_part_keeps [where parse = parse_path_noscheme])
     (auto simp: parse_relative_part_def path_length)

lemma parse_query_keeps:
  assumes "fits N 6 P" "flush P"
  shows "keeps N 7 P (parse_query P)"
proof (cases "ps_rest P = [] \<or> hd (ps_rest P) \<noteq> CHR ''?''")
  case True
  with assms fits_later [OF assms(1), of 7] show ?thesis by (simp add: keeps_def parse_query_def)
next
  case False
  show ?thesis
  proof (cases "query_loop 0 (ps_rest P)")
    case (Inl e)
    with False show ?thesis by (simp add: keeps_def parse_query_def)
  next
    case (Inr x)
    obtain n r where x: "x = (n, r)" by (cases x)
    have "fits N (Suc 6) (ps_move r P)"
      using fits_later [OF fits_move [OF assms(1)], of r 7] query_loop_length Inr x by fastforce
    from fits_mark [OF this, simplified] False Inr x show ?thesis
      by (auto simp: keeps_def parse_query_def Let_def fits_counters)
  qed
qed

lemma parse_fragment_keeps:
  assumes "fits N 7 P" "flush P"
  shows "keeps N 8 P (parse_fragment P)"
proof (cases "ps_rest P = [] \<or> hd (ps_rest P) \<noteq> CHR ''#''")
  case True
  with assms fits_later [OF assms(1), of 8] show ?thesis by (simp add: keeps_def parse_fragment_def)
next
  case False
  have "fits N 7 (ps_move (tl (ps_rest P)) P)" by (rule fits_move [OF assms(1)]) simp
  then have f: "fits N (Suc 7) P1" if "ps_pct frag_pct_set (ps_move (tl (ps_rest P)) P) = Inr P1" for P1
    using ps_pct_fits that by (auto intro: fits_later [of N 7])
  show ?thesis
    using False fits_mark [OF f] by (auto simp: keeps_def parse_fragment_def map_sum_Inr)
qed

lemma match_scheme_colon_fits:
  assumes "match_scheme_colon (ps_start s) = Some P"
  shows "fits (length s) 1 (mark id_scheme P)" "flush (mark id_scheme P)"
proof -
  obtain r where r: "match_scheme s = Some r" "match_literal '':'' (ps_move r (ps_start s)) = Some P"
    using assms by (auto simp: match_scheme_colon_def ps_start_def split: option.splits)
  have "fits (length s) 0 (ps_move r (ps_start s))"
    using fits_start(1) match_scheme_length [OF r(1)] by (intro fits_move) (simp_all add: ps_start_def)
  then have "fits (length s) (Suc 0) P"
    using match_literal_fits [OF _ r(2)] fits_later [of "length s" 0 P "Suc 0"] by simp
  from fits_mark [OF this] show "fits (length s) 1 (mark id_scheme P)" "flush (mark id_scheme P)"
    by simp_all
qed

lemma parse_url_offsets:
  assumes "parse_url s = Inr pt"
  shows "offset pt 0 = 0 \<and> offset pt 8 = length s \<and> (\<forall>i < 8. offset pt i \<le> offset pt (Suc i))"
proof -
  let ?r = "case match_scheme_colon (ps_start s) of
      Some P \<Rightarrow> parse_hier_part (mark id_scheme P) | None \<Rightarrow> parse_relative_part (ps_start s)"
  have k: "\<exists>P. keeps (length s) 6 P ?r"
    using parse_hier_part_keeps match_scheme_colon_fits parse_relative_part_keeps
      fits_later [OF fits_start(1) [of s], of 1] fits_start(2) [of s]
    by (cases "match_scheme_colon (ps_start s)") fastforce+
  obtain P1 where P1: "?r = Inr P1" using assms by (auto simp: parse_url_def split: sum.splits)
  with k have f1: "fits (length s) 6 P1" "flush P1" by (auto simp: keeps_def)
  obtain P2 where P2: "parse_query P1 = Inr P2" using assms P1 by (auto simp: parse_url_def split: sum.splits)
  with parse_query_keeps [OF f1] have f2: "fits (length s) 7 P2" "flush P2" by (auto simp: keeps_def)
  obtain P3 where P3: "parse_fragment P2 = Inr P3" using assms P1 P2 by (auto simp: parse_url_def split: sum.splits)
  with parse_fragment_keeps [OF f2] have f3: "fits (length s) 8 P3" "flush P3" by (auto simp: keeps_def)
  have "ps_rest P3 = []" "pt = ps_parts P3"
    using assms P1 P2 P3 by (auto simp: parse_url_def split: if_splits)
  with f3 show ?thesis by (auto simp: fits_def flush_def)
qed

text \<open>A URL that is accepted is kept to the letter.\<close>

lemma set_encoded_url_Inr:
  assumes "set_encoded_url s u = Inr v" "s \<noteq> []"
  shows "url_inv v" "encoded_url v = s"
proof -
  obtain pt where pt: "parse_url s = Inr pt" "v = \<lparr>ubuf = s, uparts = pt\<rparr>"
    using assms by (auto simp: set_encoded_url_def split: sum.splits)
  show "url_inv v" "encoded_url v = s"
    using parse_url_offsets [OF pt(1)] pt(2)
    by (simp_all add: url_inv_def encoded_url_def part_range_def parts_get_def)
qed

lemma set_encoded_url_Inl: "set_encoded_url s u = Inl e \<Longrightarrow> e = InvalidPart"
  by (auto simp: set_encoded_url_def split: if_splits sum.splits)

section \<open>Properties\<close>

text \<open>
  C27. \<open>set_encoded_url\<close> keeps an accepted URL to the letter: the parts it finds are
  consecutive pieces of the text, joined they give the text back, and setting the
  resulting text again, on any URL, gives the same URL.  A refused text is always the
  exception \<open>invalid_part\<close>.
\<close>

theorem set_encoded_url_roundtrip:
  assumes "s \<noteq> []"
  shows "case set_encoded_url s u of
      Inl e \<Rightarrow> e = InvalidPart
    | Inr v \<Rightarrow> url_inv v \<and> encoded_url v = s \<and> concat (map (part v) [0..<8]) = s \<and>
        set_encoded_url (encoded_url v) w = Inr v"
proof (cases "set_encoded_url s u")
  case (Inl e)
  then show ?thesis by (simp add: set_encoded_url_Inl)
next
  case (Inr v)
  note v = set_encoded_url_Inr [OF Inr assms]
  have "set_encoded_url s w = Inr v"
    using Inr assms by (simp add: set_encoded_url_def split: sum.splits)
  with Inr v ub.whole_parts [of v] show ?thesis by simp
qed

theorem set_encoded_url_roundtrip_witness:
  "\<exists>v. set_encoded_url ''https://u:p@ex.org:443/a?b=c#d'' new_url = Inr v \<and>
     encoded_url v = ''https://u:p@ex.org:443/a?b=c#d''"
proof -
  have "\<not> (case set_encoded_url ''https://u:p@ex.org:443/a?b=c#d'' new_url of
      Inl _ \<Rightarrow> True | Inr _ \<Rightarrow> False)" by code_simp
  then obtain v where v: "set_encoded_url ''https://u:p@ex.org:443/a?b=c#d'' new_url = Inr v"
    by (auto split: sum.splits)
  have "''https://u:p@ex.org:443/a?b=c#d'' \<noteq> []" by simp
  from set_encoded_url_roundtrip [OF this, of new_url new_url] v show ?thesis by simp
qed

end
