(* ===== verification/Client.thy ===== *)
theory Client
  imports Message UrlText Json
begin

text \<open>
  Class \<open>ClientImpl\<close> of \<open>src/core/Client.cpp\<close>.  The HTTPS exchange with the peer
  (resolution, TLS, writing the request, reading the response), the JSON parser
  and what the library's constructor leaves in a request are arguments.  The
  members \<open>requestBeast\<close> and the message of \<open>requestPtr\<close> are one shared object; it
  is kept in \<open>cl_request\<close>.
\<close>

section \<open>State\<close>

text \<open>
  The verification flags have no initialiser in the constructor from a map; there
  their value is \<open>None\<close>.  Every call of \<open>end\<close> makes a new response object and frees
  the one before; the objects are numbered and \<open>cl_responseBeast\<close> is the number of the
  live one.  The member \<open>responseStr\<close> is a \<open>string_view\<close>: the number of the
  response it points into, and the text.
\<close>

record client_impl =
  cl_settings :: "json option"
  cl_url :: url_impl
  cl_method :: string
  cl_CaInfoPath :: string
  cl_skipPeerVerification :: "bool option"
  cl_skipHostnameVerification :: "bool option"
  cl_request :: request_impl
  cl_responseBeast :: nat
  cl_responseStr :: "nat \<times> string"
  cl_responseJson :: "json option"

definition client_parts ::
  "lib \<Rightarrow> http_request \<Rightarrow> url_impl \<Rightarrow> string \<Rightarrow> bool option \<Rightarrow> client_impl res" where
  "client_parts L q0 u method flag =
     bind_res (newRequestImpl L) (\<lambda>r.
       Inr \<lparr>cl_settings = None, cl_url = u, cl_method = method, cl_CaInfoPath = [],
         cl_skipPeerVerification = flag, cl_skipHostnameVerification = flag,
         cl_request = snd (req_setRequest (Some q0) r), cl_responseBeast = 0,
         cl_responseStr = (0, []), cl_responseJson = None\<rparr>)"

definition newClientImpl :: "lib \<Rightarrow> http_request \<Rightarrow> client_impl res" where
  "newClientImpl L q0 = client_parts L q0 newUrlImpl ''GET'' (Some False)"

definition client_option ::
  "(string \<Rightarrow> string list) \<Rightarrow> string \<Rightarrow> variant \<Rightarrow> string \<times> url_impl \<Rightarrow> (string \<times> url_impl) res" where
  "client_option split k v c =
     (case v of
        VInt _ \<Rightarrow> Inr c
      | VDouble \<Rightarrow> Inr c
      | VString s \<Rightarrow>
          let keep = (\<lambda>r. bind_res r (\<lambda>u. Inr (fst c, u))) in
          if k = ''method'' then Inr (s, snd c)
          else if k = ''host'' then keep (with_base (set_encoded_host s (base (snd c))) (snd c))
          else if k = ''path'' then keep (with_base (set_encoded_path s (base (snd c))) (snd c))
          else if k = ''scheme'' then keep (with_base (set_scheme s (base (snd c))) (snd c))
          else if k = ''query'' then Inr (fst c, snd (url_setEncodedQuery split s (snd c)))
          else Inr c)"

fun client_options ::
  "(string \<Rightarrow> string list) \<Rightarrow> variant smap \<Rightarrow> string \<times> url_impl \<Rightarrow> (string \<times> url_impl) res" where
  "client_options split [] c = Inr c"
| "client_options split ((k, v) # m) c = bind_res (client_option split k v c) (client_options split m)"

definition newClientImplMap :: "lib \<Rightarrow> http_request \<Rightarrow> variant smap \<Rightarrow> client_impl res" where
  "newClientImplMap L q0 m =
     bind_res (client_options (split_amp L) m ([], newUrlImpl)) (\<lambda>(method, u).
     bind_res (if scheme (base u) = [] \<and> method = ''GET''
               then with_base (set_scheme ''https'' (base u)) u else Inr u) (\<lambda>u1.
       client_parts L q0 u1 method None))"

section \<open>Settings and setters\<close>

definition client_setSettingsDoc :: "json option \<Rightarrow> client_impl \<Rightarrow> rc \<times> client_impl" where
  "client_setSettingsDoc d C = (0, C\<lparr>cl_settings := d\<rparr>)"

definition loadSettingsDoc :: "client_impl \<Rightarrow> (rc \<times> client_impl) res" where
  "loadSettingsDoc C =
     (case cl_settings C of
        None \<Rightarrow> Inl NullDereference
      | Some doc \<Rightarrow>
          if \<not> is_object doc then Inr (-1, C)
          else
            bind_res (typed_member as_string doc ''CaInfoPath'') (\<lambda>path.
            let C1 = (case path of None \<Rightarrow> C | Some p \<Rightarrow> C\<lparr>cl_CaInfoPath := p\<rparr>) in
            bind_res (typed_member as_bool doc ''skipPeerVerification'') (\<lambda>peer.
            let C2 = (case peer of None \<Rightarrow> C1 | Some b \<Rightarrow> C1\<lparr>cl_skipPeerVerification := Some b\<rparr>) in
            bind_res (typed_member as_bool doc ''skipHostnameVerification'') (\<lambda>hostname.
              Inr (0, case hostname of None \<Rightarrow> C2
                      | Some b \<Rightarrow> C2\<lparr>cl_skipHostnameVerification := Some b\<rparr>)))))"

definition client_url :: "client_impl \<Rightarrow> string" where
  "client_url C = url_url (cl_url C)"

definition client_getEncodedHost :: "client_impl \<Rightarrow> string" where
  "client_getEncodedHost C = url_getEncodedHost (cl_url C)"

definition client_setURL :: "string \<Rightarrow> client_impl \<Rightarrow> (rc \<times> client_impl) res" where
  "client_setURL s C =
     bind_res (with_base (set_encoded_url s (base (cl_url C))) (cl_url C)) (\<lambda>u.
       Inr (0, C\<lparr>cl_url := u\<rparr>))"

definition client_setQuery :: "string smap \<Rightarrow> client_impl \<Rightarrow> rc \<times> client_impl" where
  "client_setQuery m C = (0, C\<lparr>cl_url := snd (url_setQuery m (cl_url C))\<rparr>)"

definition client_setHeader :: "string smap \<Rightarrow> client_impl \<Rightarrow> (rc \<times> client_impl) res" where
  "client_setHeader m C =
     bind_res (req_setHeader m (cl_request C)) (\<lambda>(_, r). Inr (0, C\<lparr>cl_request := r\<rparr>))"

definition client_setCookie :: "string smap \<Rightarrow> client_impl \<Rightarrow> rc \<times> client_impl" where
  "client_setCookie m C = (0, C)"

definition client_setMethod :: "string \<Rightarrow> client_impl \<Rightarrow> rc \<times> client_impl" where
  "client_setMethod m C = (0, C\<lparr>cl_method := m\<rparr>)"

text \<open>
  The text the returned view shows; reading a view of a response that was freed is an
  access outside any object.
\<close>

definition getResponseStr :: "client_impl \<Rightarrow> string option res" where
  "getResponseStr C =
     (if snd (cl_responseStr C) = [] then Inr None
      else if fst (cl_responseStr C) = cl_responseBeast C then Inr (Some (snd (cl_responseStr C)))
      else Inl BadAddress)"

definition getResponseJson :: "client_impl \<Rightarrow> json option" where
  "getResponseJson C = cl_responseJson C"

section \<open>The exchange\<close>

text \<open>What \<open>end\<close> assigns to the request before it is written.\<close>

definition prepare_request :: "client_impl \<Rightarrow> http_request \<Rightarrow> http_request" where
  "prepare_request C q =
     (let q1 = (if cl_method C = ''POST'' then q\<lparr>rq_method := VPost, rq_method_string := ''POST''\<rparr>
                else q\<lparr>rq_method := VGet, rq_method_string := ''GET''\<rparr>)
      in q1\<lparr>rq_target := url_target (cl_url C), rq_keep_alive := Some False,
            rq_set := rq_set q1 @ [(FHost, url_getEncodedHost (cl_url C))]\<rparr>)"

text \<open>
  \<open>exchange hostname request\<close> is the status and the body of the response, or the
  exception of the network or TLS library, which ends the use of the client;
  \<open>parse_json\<close> is \<open>None\<close> on a parse error.
\<close>

definition client_end ::
  "(string \<Rightarrow> http_request \<Rightarrow> (nat \<times> string) res) \<Rightarrow> (string \<Rightarrow> json option) \<Rightarrow>
   client_impl \<Rightarrow> (rc \<times> client_impl) res" where
  "client_end exchange parse_json C =
     (case req_getRequest (cl_request C) of
        None \<Rightarrow> Inl NullDereference
      | Some q0 \<Rightarrow>
          let q = prepare_request C q0 in
          bind_res (exchange (url_getEncodedHost (cl_url C)) q) (\<lambda>(status, body).
            let i = Suc (cl_responseBeast C);
                C1 = C\<lparr>cl_request := (cl_request C)\<lparr>ri_beast := Some q\<rparr>, cl_responseBeast := i\<rparr> in
            Inr (0, if status = 200
                    then C1\<lparr>cl_responseStr := (i, body), cl_responseJson := parse_json (c_str body)\<rparr>
                    else C1)))"

text \<open>
  An exchange over TLS: the service is always \<open>https\<close>, and the host name is used for the
  resolution, for the verification of the peer and for the server name it is sent.
\<close>

record ('sock, 'stream) tls_net =
  tn_resolve :: "string \<Rightarrow> string \<Rightarrow> nat list res"
  tn_connect :: "nat list \<Rightarrow> 'sock res"
  tn_handshake :: "string \<Rightarrow> string \<Rightarrow> 'sock \<Rightarrow> 'stream res"
  tn_write :: "'stream \<Rightarrow> http_request \<Rightarrow> 'stream res"
  tn_read :: "'stream \<Rightarrow> (nat \<times> string) res"

definition client_connect :: "('sock, 'stream) tls_net \<Rightarrow> string \<Rightarrow> 'stream res" where
  "client_connect T hostname =
     bind_res (tn_resolve T hostname ''https'') (\<lambda>resolved.
     bind_res (tn_connect T resolved) (\<lambda>socket.
       tn_handshake T hostname hostname socket))"

definition tls_exchange ::
  "('sock, 'stream) tls_net \<Rightarrow> string \<Rightarrow> http_request \<Rightarrow> (nat \<times> string) res" where
  "tls_exchange T hostname q =
     bind_res (client_connect T hostname) (\<lambda>stream.
     bind_res (tn_write T stream q) (\<lambda>stream1. tn_read T stream1))"

definition client_endAsync :: "client_impl \<Rightarrow> rc \<times> client_impl" where
  "client_endAsync C = (0, C)"

definition client_wait :: "client_impl \<Rightarrow> rc \<times> client_impl" where
  "client_wait C = (0, C)"

text \<open>The settings are taken over member by member.\<close>

lemma loadSettingsDoc_members:
  "loadSettingsDoc C =
    (case cl_settings C of
       None \<Rightarrow> Inl NullDereference
     | Some (JObject ms) \<Rightarrow>
         Inr (0, C\<lparr>cl_CaInfoPath :=
               case_option (cl_CaInfoPath C) id (Option.bind (map_of ms ''CaInfoPath'') as_string),
             cl_skipPeerVerification :=
               case_option (cl_skipPeerVerification C) Some
                 (Option.bind (map_of ms ''skipPeerVerification'') as_bool),
             cl_skipHostnameVerification :=
               case_option (cl_skipHostnameVerification C) Some
                 (Option.bind (map_of ms ''skipHostnameVerification'') as_bool)\<rparr>)
     | Some _ \<Rightarrow> Inr (-1, C))"
proof (cases "cl_settings C")
  case None
  then show ?thesis by (simp add: loadSettingsDoc_def)
next
  case (Some doc)
  show ?thesis
  proof (cases "\<exists>ms. doc = JObject ms")
    case True
    then obtain ms where ms: "doc = JObject ms" by blast
    show ?thesis
      by (cases "Option.bind (map_of ms ''CaInfoPath'') as_string";
          cases "Option.bind (map_of ms ''skipPeerVerification'') as_bool";
          cases "Option.bind (map_of ms ''skipHostnameVerification'') as_bool")
         (simp_all add: Some ms loadSettingsDoc_def is_object_def typed_member_object Let_def)
  next
    case False
    with Some show ?thesis
      by (cases doc) (simp_all add: loadSettingsDoc_def is_object_def)
  qed
qed

section \<open>Properties\<close>

text \<open>
  C33. A new client that is given a URL and a method and then runs \<open>end\<close> sends one
  request to the URL's host: a POST exactly when the method is the text POST, a GET
  otherwise, to the URL's path with an empty query, whatever query the URL has; the
  connection is not kept alive.  Body and parsed body are kept exactly when the status is 200.
\<close>

theorem client_exchange:
  assumes "newClientImpl L q0 = Inr C0" "client_setURL s C0 = Inr (rc1, C1)" "s \<noteq> []"
    and "client_end exchange parse_json (snd (client_setMethod m C1)) = Inr (rc, C)"
  shows "\<exists>q status body. req_getRequest (cl_request C) = Some q \<and>
    exchange (client_getEncodedHost C) q = Inr (status, body) \<and> client_url C = s \<and> rc = 0 \<and>
    rq_method q = (if m = ''POST'' then VPost else VGet) \<and>
    rq_target q = encoded_path (base (cl_url C)) @ ''?'' \<and> rq_keep_alive q = Some False \<and>
    getResponseStr C = Inr (if status = 200 \<and> body \<noteq> [] then Some body else None) \<and>
    getResponseJson C = (if status = 200 then parse_json (c_str body) else None)"
proof -
  obtain r0 where r0: "newRequestImpl L = Inr r0"
      "C0 = \<lparr>cl_settings = None, cl_url = newUrlImpl, cl_method = ''GET'', cl_CaInfoPath = [],
         cl_skipPeerVerification = Some False, cl_skipHostnameVerification = Some False,
         cl_request = r0\<lparr>ri_beast := Some q0\<rparr>, cl_responseBeast = 0, cl_responseStr = (0, []),
         cl_responseJson = None\<rparr>"
    using assms(1) by (auto simp: newClientImpl_def client_parts_def bind_res_Inr_iff req_setRequest_def)
  obtain v where v: "set_encoded_url s new_url = Inr v" "C1 = C0\<lparr>cl_url := newUrlImpl\<lparr>base := v\<rparr>\<rparr>"
    using assms(2) r0 by (auto simp: client_setURL_def with_base_def bind_res_Inr_iff newUrlImpl_def)
  have k: "encoded_url v = s" using set_encoded_url_Inr [OF v(1) assms(3)] by simp
  have t: "url_target (newUrlImpl\<lparr>base := v\<rparr>) = encoded_path v @ ''?''"
    by (simp add: url_target_def url_getEncodedQuery_def newUrlImpl_def query_getEncodedQuery_def newQueryImpl_def)
  let ?C2 = "snd (client_setMethod m C1)" and ?q = "prepare_request (snd (client_setMethod m C1)) q0"
  have sent: "req_getRequest (cl_request ?C2) = Some q0" "cl_url ?C2 = newUrlImpl\<lparr>base := v\<rparr>"
      "cl_responseStr ?C2 = (0, [])" "cl_responseJson ?C2 = None" "cl_method ?C2 = m"
    by (simp_all add: client_setMethod_def v(2) r0(2) req_getRequest_def)
  obtain st bd where x: "exchange (url_getEncodedHost (cl_url ?C2)) ?q = Inr (st, bd)" "rc = 0"
      "C = (let i = Suc (cl_responseBeast ?C2);
                D = ?C2\<lparr>cl_request := (cl_request ?C2)\<lparr>ri_beast := Some ?q\<rparr>, cl_responseBeast := i\<rparr> in
         if st = 200 then D\<lparr>cl_responseStr := (i, bd), cl_responseJson := parse_json (c_str bd)\<rparr> else D)"
    using assms(4) sent(1) by (auto simp: client_end_def Let_def bind_res_Inr_iff)
  have u: "cl_url C = newUrlImpl\<lparr>base := v\<rparr>" "req_getRequest (cl_request C) = Some ?q"
    using x(3) sent(2) by (simp_all add: Let_def req_getRequest_def)
  have q: "rq_method ?q = (if m = ''POST'' then VPost else VGet)" "rq_target ?q = encoded_path v @ ''?''"
      "rq_keep_alive ?q = Some False"
    using sent t by (simp_all add: prepare_request_def Let_def)
  show ?thesis
    using x u q k sent
    by (intro exI [of _ ?q] exI [of _ st] exI [of _ bd])
       (simp add: Let_def client_getEncodedHost_def client_url_def url_url_def getResponseStr_def
         getResponseJson_def)
qed

lemma example_client:
  "\<exists>C0 C1. newClientImpl example_lib example_request = Inr C0 \<and>
     client_setURL ''https://ex.org/c?x=1'' C0 = Inr (0, C1)"
proof -
  have "\<not> (case set_encoded_url ''https://ex.org/c?x=1'' new_url of Inl _ \<Rightarrow> True | Inr _ \<Rightarrow> False)"
    by code_simp
  then obtain v where v: "set_encoded_url ''https://ex.org/c?x=1'' new_url = Inr v"
    by (auto split: sum.splits)
  obtain C0 where "newClientImpl example_lib example_request = Inr C0 \<and> cl_url C0 = newUrlImpl"
    by (simp add: newClientImpl_def client_parts_def newRequestImpl_def newUserAgentImpl_def example_lib_def)
  with v show ?thesis
    by (intro exI [of _ C0] exI) (simp add: client_setURL_def with_base_def newUrlImpl_def)
qed

theorem client_exchange_witness:
  "\<exists>C. client_url C = ''https://ex.org/c?x=1'' \<and> getResponseStr C = Inr (Some ''body'') \<and>
     (\<exists>q. req_getRequest (cl_request C) = Some q \<and> rq_method q = VGet \<and>
       rq_target q = encoded_path (base (cl_url C)) @ ''?'')"
proof -
  obtain C0 C1 where C: "newClientImpl example_lib example_request = Inr C0"
      "client_setURL ''https://ex.org/c?x=1'' C0 = Inr (0, C1)"
    using example_client by blast
  let ?ex = "\<lambda>_ _. Inr (200, ''body'')" and ?C2 = "snd (client_setMethod ''GET'' C1)"
  have "req_getRequest (cl_request ?C2) \<noteq> None"
    using C by (auto simp: newClientImpl_def client_parts_def bind_res_Inr_iff req_setRequest_def
        req_getRequest_def client_setURL_def with_base_def client_setMethod_def)
  then obtain rc C3 where "client_end ?ex (\<lambda>_. None) ?C2 = Inr (rc, C3)"
    by (auto simp: client_end_def Let_def)
  from client_exchange [OF C _ this] show ?thesis by auto
qed

text \<open>
  C34. A client that is used again after an answer, and gets another status than 200,
  returns 0 and still offers the JSON document of the first answer, while the text it
  offers is a view of the first response, which the new exchange has freed.
\<close>

theorem reused_client_dangles:
  assumes "getResponseStr C = Inr (Some txt)" "req_getRequest (cl_request C) = Some q0"
    and "exchange (client_getEncodedHost C) (prepare_request C q0) = Inr (status, body)" "status \<noteq> 200"
  shows "\<exists>C'. client_end exchange parse_json C = Inr (0, C') \<and> getResponseStr C' = Inl BadAddress \<and>
    getResponseJson C' = getResponseJson C"
  using assms
  by (auto simp: client_end_def Let_def client_getEncodedHost_def url_getEncodedHost_def getResponseStr_def
      getResponseJson_def split: if_splits)

theorem reused_client_dangles_witness:
  "\<exists>C C'. getResponseStr C = Inr (Some ''old'') \<and> client_end (\<lambda>_ _. Inr (404, ''no'')) (\<lambda>_. None) C = Inr (0, C') \<and>
     getResponseStr C' = Inl BadAddress"
proof -
  obtain C0 where C0: "newClientImpl example_lib example_request = Inr C0"
    using example_client by blast
  let ?C = "C0\<lparr>cl_responseBeast := 1, cl_responseStr := (1, ''old'')\<rparr>"
  have q: "req_getRequest (cl_request ?C) = Some example_request"
    using C0 by (auto simp: newClientImpl_def client_parts_def bind_res_Inr_iff req_setRequest_def
        req_getRequest_def)
  have g: "getResponseStr ?C = Inr (Some ''old'')" by (simp add: getResponseStr_def)
  from reused_client_dangles [OF g q, of "\<lambda>_ _. Inr (404, ''no'')" 404 "''no''" "\<lambda>_. None"] g
  show ?thesis by auto
qed

end
