(* ===== verification/Template.thy ===== *)
theory Template
  imports Json
begin

text \<open>
  Class \<open>TemplateImpl\<close> of \<open>src/core/Template.cpp\<close> and \<open>readFile\<close> of
  \<open>src/bookfiler/Util.cpp\<close>.  The Mustache renderer is the argument \<open>render\<close>; the
  data object it gets is a map from names to texts, where setting a name
  replaces its text.
\<close>

record template_impl =
  tp_settings :: "json option"
  tp_data :: "string \<Rightarrow> string option"
  tp_templateStr :: string
  tp_parsedStr :: string

definition newTemplateImpl :: template_impl where
  "newTemplateImpl = \<lparr>tp_settings = None, tp_data = [''test'' \<mapsto> ''value test''],
     tp_templateStr = [], tp_parsedStr = []\<rparr>"

definition template_setSettingsDoc :: "json option \<Rightarrow> template_impl \<Rightarrow> rc \<times> template_impl" where
  "template_setSettingsDoc d T = (0, T\<lparr>tp_settings := d\<rparr>)"

text \<open>A file that cannot be opened reads as the empty text.\<close>

definition readFile :: "(string \<Rightarrow> string option) \<Rightarrow> string \<Rightarrow> string" where
  "readFile fs path = (case fs path of Some bytes \<Rightarrow> bytes | None \<Rightarrow> [])"

definition template_readFile ::
  "(string \<Rightarrow> string option) \<Rightarrow> string \<Rightarrow> template_impl \<Rightarrow> rc \<times> template_impl" where
  "template_readFile fs path T = (0, T\<lparr>tp_templateStr := readFile fs path\<rparr>)"

definition mergeDataObject :: "'d \<Rightarrow> template_impl \<Rightarrow> rc \<times> template_impl" where
  "mergeDataObject d T = (0, T)"

definition mergeDataDocument :: "json \<Rightarrow> template_impl \<Rightarrow> rc \<times> template_impl" where
  "mergeDataDocument d T = (0, T)"

definition template_parse ::
  "(string \<Rightarrow> (string \<Rightarrow> string option) \<Rightarrow> string) \<Rightarrow> template_impl \<Rightarrow> rc \<times> template_impl" where
  "template_parse render T = (0, T\<lparr>tp_parsedStr := render (tp_templateStr T) (tp_data T)\<rparr>)"

definition addContext :: "string \<Rightarrow> string \<Rightarrow> template_impl \<Rightarrow> rc \<times> template_impl" where
  "addContext key val T = (0, T\<lparr>tp_data := (tp_data T)(key \<mapsto> key)\<rparr>)"

definition template_toString :: "template_impl \<Rightarrow> string" where
  "template_toString T = tp_parsedStr T"

section \<open>What a page sees\<close>

fun add_contexts :: "(string \<times> string) list \<Rightarrow> template_impl \<Rightarrow> template_impl" where
  "add_contexts [] T = T"
| "add_contexts ((k, v) # kvs) T = add_contexts kvs (snd (addContext k v T))"

definition render_page ::
  "(string \<Rightarrow> string option) \<Rightarrow> (string \<Rightarrow> (string \<Rightarrow> string option) \<Rightarrow> string) \<Rightarrow>
   string \<Rightarrow> (string \<times> string) list \<Rightarrow> string" where
  "render_page fs render path kvs =
     template_toString (snd (template_parse render
       (add_contexts kvs (snd (template_readFile fs path newTemplateImpl)))))"

lemma add_contexts_data:
  "tp_data (add_contexts kvs T) = (\<lambda>k. if k \<in> fst ` set kvs then Some k else tp_data T k)"
  by (induction kvs T rule: add_contexts.induct) (auto simp: addContext_def fun_eq_iff)

lemma add_contexts_templateStr: "tp_templateStr (add_contexts kvs T) = tp_templateStr T"
  by (induction kvs T rule: add_contexts.induct) (auto simp: addContext_def)

lemma add_contexts_keys:
  "map fst kvs = map fst kvs' \<Longrightarrow> add_contexts kvs T = add_contexts kvs' T"
proof (induction kvs arbitrary: kvs' T)
  case Nil
  then show ?case by simp
next
  case (Cons kv kvs)
  then obtain k v v' ks where "kv = (k, v)" "kvs' = (k, v') # ks" "map fst kvs = map fst ks"
    by (cases kv; cases kvs') auto
  with Cons.IH show ?case by (simp add: addContext_def)
qed

section \<open>Properties\<close>

text \<open>
  A page is rendered with the names of its context in place of the values:
  \<open>addContext\<close> stores the key twice, so the text depends on the file and on the set of
  keys alone, besides the entry that every template starts with.  A file that cannot
  be opened is an empty template.
\<close>

theorem page_shows_keys:
  "render_page fs render path kvs =
     render (case fs path of Some bytes \<Rightarrow> bytes | None \<Rightarrow> [])
       (\<lambda>k. if k \<in> fst ` set kvs then Some k else if k = ''test'' then Some ''value test'' else None)"
  by (simp add: render_page_def template_toString_def template_parse_def add_contexts_data
      add_contexts_templateStr template_readFile_def readFile_def newTemplateImpl_def fun_upd_def
      cong: if_cong)

end
