(* ===== verification/Certificate.thy ===== *)
theory Certificate
  imports Json
begin

text \<open>
  Classes \<open>CertificateImpl\<close> (\<open>src/core/certificate.cpp\<close>) and \<open>ManagerImpl\<close>
  (\<open>src/core/certificateManager.cpp\<close>).  A certificate of
  OpenSSL is the record of what the program assigns to it; key pairs and Diffie
  Hellman parameters are named by numbers, and an object whose generation failed is an
  allocated key without material.  The results of OpenSSL calls are the
  fields of \<open>openssl\<close>; their meaning is the documented one: 1 is the success and 0 the
  failure of a key generation, and a signature has a positive length, 0 being a failure.  Certificates are shared through pointers, so they live in
  a heap.
\<close>

section \<open>Certificates\<close>

datatype nid =
    NID_basic_constraints
  | NID_key_usage
  | NID_subject_key_identifier
  | NID_subject_alt_name
  | NID_ext_key_usage

datatype pkey = Key nat | EmptyKey

definition key_material :: "pkey option \<Rightarrow> nat option" where
  "key_material k = (case k of Some (Key n) \<Rightarrow> Some n | _ \<Rightarrow> None)"

type_synonym dname = "(string \<times> string) list"

record x509 =
  xc_version :: int
  xc_serial :: int
  xc_notBefore :: int
  xc_notAfter :: int
  xc_pubkey :: "nat option"
  xc_subject :: dname
  xc_issuer :: dname
  xc_exts :: "(nid \<times> string) list"
  xc_signer :: "nat option"

definition X509_new :: x509 where
  "X509_new = \<lparr>xc_version = 0, xc_serial = 0, xc_notBefore = 0, xc_notAfter = 0, xc_pubkey = None,
     xc_subject = [], xc_issuer = [], xc_exts = [], xc_signer = None\<rparr>"

record x509_req =
  xr_pubkey :: "nat option"
  xr_version :: int

record cert_impl =
  certX509 :: "x509 option"
  certReqX509 :: "x509_req option"
  privateKey :: "pkey option"
  dhKey :: "pkey option"

definition newCertificateImpl :: cert_impl where
  "newCertificateImpl = \<lparr>certX509 = None, certReqX509 = None, privateKey = None, dhKey = None\<rparr>"

text \<open>
  Return codes of key generation and signing, whether a name entry is accepted,
  and whether an extension text can be made into an extension.
\<close>

record openssl =
  os_rsa_rc :: int
  os_dh_rc :: int
  os_sign_rc :: int
  os_entry_ok :: "string \<Rightarrow> string \<Rightarrow> bool"
  os_ext_ok :: "nid \<Rightarrow> string \<Rightarrow> bool"

text \<open>The object \<open>i\<close> after the generation of its key, and a signature with a key: its code and its signer.\<close>

definition generated :: "int \<Rightarrow> nat \<Rightarrow> pkey" where
  "generated gen_rc i = (if gen_rc = 1 then Key i else EmptyKey)"

definition X509_sign :: "openssl \<Rightarrow> pkey option \<Rightarrow> int \<times> nat option" where
  "X509_sign os key =
     (case key_material key of
        None \<Rightarrow> (0, None)
      | Some k \<Rightarrow> (os_sign_rc os, if os_sign_rc os > 0 then Some k else None))"

definition addExt :: "openssl \<Rightarrow> nid \<Rightarrow> string \<Rightarrow> x509 \<Rightarrow> int \<times> x509" where
  "addExt os n v x = (if \<not> os_ext_ok os n v then (0, x) else (1, x\<lparr>xc_exts := xc_exts x @ [(n, v)]\<rparr>))"

definition add_entry :: "openssl \<Rightarrow> string \<Rightarrow> string \<Rightarrow> dname \<Rightarrow> dname" where
  "add_entry os field txt name = (if os_entry_ok os field txt then name @ [(field, txt)] else name)"

text \<open>
  The text of a PEM object: the memory buffer could be made, the writer's return
  code, and the bytes in the buffer, if any.
\<close>

definition pem_text :: "bool \<Rightarrow> int \<Rightarrow> string option \<Rightarrow> string option" where
  "pem_text bio ret mem =
     (if \<not> bio then None
      else if ret < 0 then None
      else (case mem of None \<Rightarrow> None | Some bytes \<Rightarrow> if bytes = [] then None else Some bytes))"

definition getCertStr :: "bool \<Rightarrow> int \<Rightarrow> (x509 option \<Rightarrow> string option) \<Rightarrow> cert_impl \<Rightarrow> string option" where
  "getCertStr bio rc pem c = pem_text bio rc (pem (certX509 c))"

definition getPrivateKeyStr :: "bool \<Rightarrow> int \<Rightarrow> (pkey option \<Rightarrow> string option) \<Rightarrow> cert_impl \<Rightarrow> string option" where
  "getPrivateKeyStr bio ret pem c = pem_text bio ret (pem (privateKey c))"

definition getDhStr :: "bool \<Rightarrow> int \<Rightarrow> (pkey option \<Rightarrow> string option) \<Rightarrow> cert_impl \<Rightarrow> string option" where
  "getDhStr bio ret pem c = pem_text bio ret (pem (dhKey c))"

definition getInfo :: "(dname \<Rightarrow> string) \<Rightarrow> cert_impl \<Rightarrow> string res" where
  "getInfo oneline c =
     (case certX509 c of
        None \<Rightarrow> Inl NullDereference
      | Some x \<Rightarrow> Inr (''subject name: '' @ oneline (xc_subject x) @ [CHR 0x0A] @
          ''issuer name: '' @ oneline (xc_issuer x)))"

section \<open>Options\<close>

record cert_options =
  daysValid :: int
  countryStr :: string
  companyStr :: string
  commonNameStr :: string
  ouStr :: string
  cityStr :: string
  stateStr :: string

definition default_options :: cert_options where
  "default_options = \<lparr>daysValid = 365, countryStr = ''C'', companyStr = ''O'', commonNameStr = ''CN'',
     ouStr = ''OU'', cityStr = ''L'', stateStr = ''S''\<rparr>"

definition read_options :: "json option \<Rightarrow> cert_options res" where
  "read_options optionsDoc =
     (case optionsDoc of
        None \<Rightarrow> Inl NullDereference
      | Some doc \<Rightarrow>
          if \<not> is_object doc then Inr default_options
          else
            let o0 = default_options; str = (\<lambda>d x. case x of None \<Rightarrow> d | Some v \<Rightarrow> v) in
            bind_res (typed_member as_int doc ''daysValid'') (\<lambda>days.
            bind_res (typed_member as_string doc ''country'') (\<lambda>c.
            bind_res (typed_member as_string doc ''company'') (\<lambda>org.
            bind_res (typed_member as_string doc ''commonName'') (\<lambda>cn.
            bind_res (typed_member as_string doc ''OU'') (\<lambda>ou.
            bind_res (typed_member as_string doc ''city'') (\<lambda>l.
            bind_res (typed_member as_string doc ''state'') (\<lambda>s.
              Inr \<lparr>daysValid = (case days of None \<Rightarrow> daysValid o0 | Some i \<Rightarrow> i),
                countryStr = str (countryStr o0) c, companyStr = str (companyStr o0) org,
                commonNameStr = str (commonNameStr o0) cn, ouStr = str (ouStr o0) ou,
                cityStr = str (cityStr o0) l, stateStr = str (stateStr o0) s\<rparr>))))))))"

text \<open>\<open>daysValid * 24 * 3600\<close> in \<open>int\<close>.\<close>

definition valid_seconds :: "int \<Rightarrow> int" where
  "valid_seconds days = int32 (int32 (days * 24) * 3600)"

definition subject_name :: "openssl \<Rightarrow> cert_options \<Rightarrow> dname" where
  "subject_name os op =
     add_entry os ''S'' (stateStr op) (add_entry os ''L'' (cityStr op)
     (add_entry os ''OU'' (ouStr op) (add_entry os ''CN'' (commonNameStr op)
     (add_entry os ''O'' (companyStr op) (add_entry os ''C'' (countryStr op) [])))))"

section \<open>The manager\<close>

record manager =
  mg_heap :: "nat \<Rightarrow> cert_impl"
  mg_next :: nat
  mg_root :: "nat option"
  mg_server :: "nat option"
  mg_settings :: "json option"

definition newManager :: manager where
  "newManager = \<lparr>mg_heap = (\<lambda>_. newCertificateImpl), mg_next = 0, mg_root = None, mg_server = None,
     mg_settings = None\<rparr>"

definition manager_setSettingsDoc :: "json option \<Rightarrow> manager \<Rightarrow> rc \<times> manager" where
  "manager_setSettingsDoc d M = (0, M\<lparr>mg_settings := d\<rparr>)"

text \<open>
  A new certificate \<open>i\<close> gets the key pair \<open>i\<close> and the parameters \<open>i\<close>; the code
  takes a result of 0 for a success and goes on with an empty key.  The result
  holds the pointer written to \<open>certPtr\<close>, \<open>None\<close> when it is left alone.
\<close>

definition newCertificate ::
  "openssl \<Rightarrow> json option \<Rightarrow> manager \<Rightarrow> (rc \<times> nat option \<times> manager) res" where
  "newCertificate os optionsDoc M =
     bind_res (read_options optionsDoc) (\<lambda>op.
       if os_rsa_rc os < 0 then Inr (-1, None, M)
       else if os_dh_rc os < 0 then Inr (-1, None, M)
       else
         let i = mg_next M;
             key = Some (generated (os_rsa_rc os) i);
             name = subject_name os op;
             x = X509_new\<lparr>xc_serial := 5, xc_notBefore := 0, xc_notAfter := valid_seconds (daysValid op),
                   xc_pubkey := key_material key, xc_version := 2, xc_subject := name, xc_issuer := name\<rparr>;
             x1 = snd (addExt os NID_basic_constraints ''critical,CA:TRUE'' x);
             x2 = snd (addExt os NID_key_usage ''critical,keyCertSign,cRLSign'' x1);
             x3 = snd (addExt os NID_subject_key_identifier ''hash'' x2);
             x4 = snd (addExt os NID_subject_alt_name ''DNS:localhost'' x3);
             x5 = snd (addExt os NID_ext_key_usage ''critical,codeSigning,1.2.3.4'' x4);
             c = newCertificateImpl\<lparr>certX509 := Some (x5\<lparr>xc_signer := snd (X509_sign os key)\<rparr>),
                   privateKey := key, dhKey := Some (generated (os_dh_rc os) i)\<rparr>
         in Inr (0, Some i, M\<lparr>mg_heap := (mg_heap M)(i := c), mg_next := Suc i\<rparr>))"

definition newRequest ::
  "openssl \<Rightarrow> json option \<Rightarrow> manager \<Rightarrow> (rc \<times> nat option \<times> manager) res" where
  "newRequest os settingsDoc M =
     (case settingsDoc of
        None \<Rightarrow> Inl NullDereference
      | Some doc \<Rightarrow>
          if os_rsa_rc os < 0 then Inr (-1, None, M)
          else if os_dh_rc os < 0 then Inr (-1, None, M)
          else
            let i = mg_next M;
                key = Some (generated (os_rsa_rc os) i);
                c = newCertificateImpl\<lparr>certReqX509 := Some \<lparr>xr_pubkey = key_material key, xr_version = 2\<rparr>,
                      privateKey := key, dhKey := Some (generated (os_dh_rc os) i)\<rparr>
            in Inr (0, Some i, M\<lparr>mg_heap := (mg_heap M)(i := c), mg_next := Suc i\<rparr>))"

definition signRequest ::
  "openssl \<Rightarrow> nat option \<Rightarrow> nat option \<Rightarrow> json option \<Rightarrow> manager \<Rightarrow> (rc \<times> manager) res" where
  "signRequest os certPtr certCAPtr optionsDoc M =
     bind_res (read_options optionsDoc) (\<lambda>op.
       (case certPtr of
          None \<Rightarrow> Inl NullDereference
        | Some i \<Rightarrow>
            (case certCAPtr of
               None \<Rightarrow> Inl NullDereference
             | Some ca \<Rightarrow>
                 let M1 = M\<lparr>mg_heap := (mg_heap M)(i := (mg_heap M i)\<lparr>certX509 := Some X509_new\<rparr>)\<rparr> in
                 (case certX509 (mg_heap M1 ca) of
                    None \<Rightarrow> Inl NullDereference
                  | Some xca \<Rightarrow>
                      let name = subject_name os op;
                          x = X509_new\<lparr>xc_version := 3, xc_serial := 1024, xc_notBefore := 0,
                                xc_notAfter := valid_seconds (daysValid op),
                                xc_pubkey := key_material (privateKey (mg_heap M1 i)),
                                xc_issuer := xc_subject xca, xc_subject := name\<rparr>;
                          x1 = snd (addExt os NID_key_usage
                                ''digitalSignature, keyEncipherment, keyAgreement'' x);
                          x2 = snd (addExt os NID_ext_key_usage ''TLS Web Server Authentication'' x1);
                          x3 = snd (addExt os NID_subject_alt_name ''DNS:localhost'' x2);
                          (rc, signer) = X509_sign os (privateKey (mg_heap M1 ca));
                          signed = x3\<lparr>xc_signer := signer\<rparr>;
                          M2 = M1\<lparr>mg_heap := (mg_heap M1)(i := (mg_heap M1 i)\<lparr>certX509 := Some signed\<rparr>)\<rparr>
                      in if rc < 0 then Inr (-1, M2)
                         else Inr (0, M2\<lparr>mg_server := Some i\<rparr>)))))"

definition localhost_options :: "string \<Rightarrow> string \<Rightarrow> json" where
  "localhost_options cn ou = JObject
     [(''daysValid'', JInt 2000), (''country'', JString ''US''), (''company'', JString ''BookFiler''),
      (''commonName'', JString cn), (''OU'', JString ou), (''city'', JString ''San Jose''),
      (''state'', JString ''California'')]"

definition newCertRootLocalhost ::
  "openssl \<Rightarrow> json option \<Rightarrow> manager \<Rightarrow> (rc \<times> nat option \<times> manager) res" where
  "newCertRootLocalhost os optionsDoc M =
     bind_res (newCertificate os
         (Some (localhost_options ''BookFiler Certificate Authority'' ''bookfiler.com'')) M)
       (\<lambda>(rc, p, M1). if rc < 0 then Inr (-1, p, M1) else Inr (0, p, M1\<lparr>mg_root := p\<rparr>))"

definition newCertServerLocalhost ::
  "openssl \<Rightarrow> json option \<Rightarrow> manager \<Rightarrow> (rc \<times> nat option \<times> manager) res" where
  "newCertServerLocalhost os settingsDoc M =
     (let doc = Some (localhost_options ''localhost'' ''localhost'') in
      bind_res (newRequest os doc M) (\<lambda>(rc, p, M1).
        if rc < 0 then Inr (-1, p, M1)
        else bind_res (signRequest os p (mg_root M1) doc M1) (\<lambda>(_, M2).
          Inr (0, p, M2\<lparr>mg_server := p\<rparr>))))"

text \<open>\<open>append\<close> changes \<open>fileName\<close> itself, so the second name continues the first.\<close>

definition saveCertificate :: "string \<Rightarrow> rc \<times> string \<times> string" where
  "saveCertificate fileName =
     (let fileName1 = fileName @ ''.pem''; certFileName = fileName1;
          fileName2 = fileName1 @ ''privateKey.pem''; privateKeyFileName = fileName2
      in (0, certFileName, privateKeyFileName))"

text \<open>The readers give the object a file holds, or a null pointer.\<close>

definition loadCertificate ::
  "(string \<Rightarrow> x509 option) \<Rightarrow> (string \<Rightarrow> nat option) \<Rightarrow> (string \<Rightarrow> nat option) \<Rightarrow>
   manager \<Rightarrow> (rc \<times> nat option \<times> manager) res" where
  "loadCertificate read_x509 read_key read_dh M =
     (case mg_settings M of
        None \<Rightarrow> Inl NullDereference
      | Some doc \<Rightarrow>
          if \<not> is_object doc then Inr (-1, None, M)
          else bind_res (has_member doc ''server'') (\<lambda>h.
            if \<not> h then Inr (-1, None, M)
            else bind_res (member doc ''server'') (\<lambda>v.
              if \<not> is_object v then Inr (-1, None, M)
              else
                bind_res (typed_member as_string v ''certPath'') (\<lambda>certPathOpt.
                bind_res (has_member v ''privateKeyPath'') (\<lambda>hk.
                bind_res (if hk then bind_res (member v ''privateKeyPath'') (\<lambda>w.
                            case as_string w of None \<Rightarrow> Inl JsonAssert | Some s \<Rightarrow> Inr (Some s))
                          else Inr None) (\<lambda>keyPathOpt.
                bind_res (typed_member as_string v ''dhKeyPath'') (\<lambda>dhPathOpt.
                  let path = (\<lambda>x. case x of None \<Rightarrow> [] | Some s \<Rightarrow> s) in
                  (case read_x509 (path certPathOpt) of
                     None \<Rightarrow> Inr (-1, None, M)
                   | Some x \<Rightarrow>
                       (case read_key (path keyPathOpt) of
                          None \<Rightarrow> Inr (-1, None, M)
                        | Some k \<Rightarrow>
                            (case read_dh (path dhPathOpt) of
                               None \<Rightarrow> Inr (-1, None, M)
                             | Some d \<Rightarrow>
                                 let i = mg_next M;
                                     c = newCertificateImpl\<lparr>certX509 := Some x, privateKey := Some (Key k),
                                           dhKey := Some (Key d)\<rparr>
                                 in Inr (0, Some i,
                                      M\<lparr>mg_heap := (mg_heap M)(i := c), mg_next := Suc i\<rparr>)))))))))))"

section \<open>What the operations leave in the heap\<close>

text \<open>Adding an extension changes nothing but the list of extensions.\<close>

lemma addExt_fields [simp]:
  "xc_subject (snd (addExt os n v x)) = xc_subject x" "xc_issuer (snd (addExt os n v x)) = xc_issuer x"
  "xc_pubkey (snd (addExt os n v x)) = xc_pubkey x" "xc_signer (snd (addExt os n v x)) = xc_signer x"
  "xc_notAfter (snd (addExt os n v x)) = xc_notAfter x" "xc_version (snd (addExt os n v x)) = xc_version x"
  by (simp_all add: addExt_def)

lemma read_localhost_options:
  "read_options (Some (localhost_options cn ou)) = Inr \<lparr>daysValid = 2000, countryStr = ''US'',
     companyStr = ''BookFiler'', commonNameStr = c_str cn, ouStr = c_str ou, cityStr = ''San Jose'',
     stateStr = ''California''\<rparr>"
  by (simp add: read_options_def localhost_options_def is_object_def typed_member_object Let_def
      as_int_def as_string_def int_ok_def c_str_def)

fun add_exts :: "openssl \<Rightarrow> (nid \<times> string) list \<Rightarrow> x509 \<Rightarrow> x509" where
  "add_exts os [] x = x"
| "add_exts os ((n, v) # es) x = add_exts os es (snd (addExt os n v x))"

lemma add_exts_eq:
  "add_exts os es x = x\<lparr>xc_exts := xc_exts x @ filter (\<lambda>(n, v). os_ext_ok os n v) es\<rparr>"
  by (induction os es x rule: add_exts.induct) (simp_all add: addExt_def)

text \<open>The certificates that are made, as records of all their fields.\<close>

definition root_x509 :: "openssl \<Rightarrow> cert_options \<Rightarrow> nat \<Rightarrow> x509" where
  "root_x509 os op i = \<lparr>xc_version = 2, xc_serial = 5, xc_notBefore = 0,
     xc_notAfter = valid_seconds (daysValid op), xc_pubkey = key_material (Some (generated (os_rsa_rc os) i)), xc_subject = subject_name os op,
     xc_issuer = subject_name os op,
     xc_exts = filter (\<lambda>(n, v). os_ext_ok os n v)
       [(NID_basic_constraints, ''critical,CA:TRUE''), (NID_key_usage, ''critical,keyCertSign,cRLSign''),
        (NID_subject_key_identifier, ''hash''), (NID_subject_alt_name, ''DNS:localhost''),
        (NID_ext_key_usage, ''critical,codeSigning,1.2.3.4'')],
     xc_signer = snd (X509_sign os (Some (generated (os_rsa_rc os) i)))\<rparr>"

lemma root_x509_fields [simp]:
  "xc_subject (root_x509 os op i) = subject_name os op" "xc_issuer (root_x509 os op i) = subject_name os op"
  "xc_pubkey (root_x509 os op i) = key_material (Some (generated (os_rsa_rc os) i))"
  "xc_signer (root_x509 os op i) = snd (X509_sign os (Some (generated (os_rsa_rc os) i)))"
  "xc_notAfter (root_x509 os op i) = valid_seconds (daysValid op)"
  by (simp_all only: root_x509_def x509.select_convs)

definition server_x509 :: "openssl \<Rightarrow> cert_options \<Rightarrow> nat \<Rightarrow> x509 \<Rightarrow> pkey option \<Rightarrow> x509" where
  "server_x509 os op i ca cakey = \<lparr>xc_version = 3, xc_serial = 1024, xc_notBefore = 0,
     xc_notAfter = valid_seconds (daysValid op), xc_pubkey = key_material (Some (generated (os_rsa_rc os) i)),
     xc_subject = subject_name os op, xc_issuer = xc_subject ca,
     xc_exts = filter (\<lambda>(n, v). os_ext_ok os n v)
       [(NID_key_usage, ''digitalSignature, keyEncipherment, keyAgreement''),
        (NID_ext_key_usage, ''TLS Web Server Authentication''), (NID_subject_alt_name, ''DNS:localhost'')],
     xc_signer = snd (X509_sign os cakey)\<rparr>"

lemma server_x509_fields [simp]:
  "xc_issuer (server_x509 os op i ca k) = xc_subject ca" 
  "xc_pubkey (server_x509 os op i ca k) = key_material (Some (generated (os_rsa_rc os) i))"
  "xc_signer (server_x509 os op i ca k) = snd (X509_sign os k)"
  "xc_notAfter (server_x509 os op i ca k) = valid_seconds (daysValid op)"
  by (simp_all only: server_x509_def x509.select_convs)

lemma newCertificate_eq:
  assumes "read_options d = Inr op" "os_rsa_rc os \<ge> 0" "os_dh_rc os \<ge> 0" "i = mg_next M"
  shows "newCertificate os d M = Inr (0, Some i, M\<lparr>mg_heap := (mg_heap M)(i :=
      \<lparr>certX509 = Some (root_x509 os op i), certReqX509 = None,
       privateKey = Some (generated (os_rsa_rc os) i), dhKey = Some (generated (os_dh_rc os) i)\<rparr>),
    mg_next := Suc i\<rparr>)"
  using assms add_exts_eq [of os "[(NID_basic_constraints, ''critical,CA:TRUE''),
      (NID_key_usage, ''critical,keyCertSign,cRLSign''), (NID_subject_key_identifier, ''hash''),
      (NID_subject_alt_name, ''DNS:localhost''), (NID_ext_key_usage, ''critical,codeSigning,1.2.3.4'')]"]
  by (simp add: newCertificate_def Let_def root_x509_def X509_new_def newCertificateImpl_def)

definition root_options :: cert_options where
  "root_options = \<lparr>daysValid = 2000, countryStr = ''US'', companyStr = ''BookFiler'',
     commonNameStr = ''BookFiler Certificate Authority'', ouStr = ''bookfiler.com'', cityStr = ''San Jose'',
     stateStr = ''California''\<rparr>"

definition server_options :: cert_options where
  "server_options = root_options\<lparr>commonNameStr := ''localhost'', ouStr := ''localhost''\<rparr>"

lemma newCertRootLocalhost_eq:
  assumes "os_rsa_rc os \<ge> 0" "os_dh_rc os \<ge> 0" "i = mg_next M"
  shows "newCertRootLocalhost os d M = Inr (0, Some i, M\<lparr>mg_heap := (mg_heap M)(i :=
      \<lparr>certX509 = Some (root_x509 os root_options i), certReqX509 = None,
       privateKey = Some (generated (os_rsa_rc os) i), dhKey = Some (generated (os_dh_rc os) i)\<rparr>),
    mg_next := Suc i, mg_root := Some i\<rparr>)"
proof -
  have "read_options (Some (localhost_options ''BookFiler Certificate Authority'' ''bookfiler.com'')) =
      Inr root_options"
    by (simp add: read_localhost_options root_options_def c_str_def)
  from newCertificate_eq [OF this assms] show ?thesis by (simp add: newCertRootLocalhost_def)
qed

lemma newCertServerLocalhost_eq:
  assumes "os_rsa_rc os \<ge> 0" "os_dh_rc os \<ge> 0" "i = mg_next M" "mg_root M = Some ca" "ca \<noteq> i"
    and "certX509 (mg_heap M ca) = Some xca"
  shows "newCertServerLocalhost os d M = Inr (0, Some i, M\<lparr>mg_heap := (mg_heap M)(i :=
      \<lparr>certX509 = Some (server_x509 os server_options i xca (privateKey (mg_heap M ca))),
       certReqX509 = Some \<lparr>xr_pubkey = key_material (Some (generated (os_rsa_rc os) i)), xr_version = 2\<rparr>,
       privateKey = Some (generated (os_rsa_rc os) i), dhKey = Some (generated (os_dh_rc os) i)\<rparr>),
    mg_next := Suc i, mg_server := Some i\<rparr>)"
proof -
  have "read_options (Some (localhost_options ''localhost'' ''localhost'')) = Inr server_options"
    by (simp add: read_localhost_options root_options_def server_options_def c_str_def)
  then show ?thesis
    using assms add_exts_eq [of os "[(NID_key_usage, ''digitalSignature, keyEncipherment, keyAgreement''),
        (NID_ext_key_usage, ''TLS Web Server Authentication''), (NID_subject_alt_name, ''DNS:localhost'')]"]
    by (simp add: newCertServerLocalhost_def newRequest_def signRequest_def Let_def server_x509_def
        X509_new_def newCertificateImpl_def split: prod.split)
qed

section \<open>Periods of validity\<close>

lemma int32_ok: "int_ok (int32 i)"
  using sint_ge [of "word_of_int i :: 32 word"] sint_lt [of "word_of_int i :: 32 word"]
  by (simp add: int32_def int_ok_def)

lemma int32_exact: "int32 i = i \<longleftrightarrow> int_ok i"
proof
  assume "int32 i = i"
  then show "int_ok i" using int32_ok [of i] by simp
next
  assume "int_ok i"
  then show "int32 i = i"
    by (simp add: int32_def int_ok_def sint_sbintrunc' signed_take_bit_int_eq_self)
qed

lemma valid_seconds_exact: "int_ok (d * 24 * 3600) \<Longrightarrow> valid_seconds d = d * 24 * 3600"
proof -
  assume a: "int_ok (d * 24 * 3600)"
  then have "int_ok (d * 24)" by (simp add: int_ok_def)
  then have "int32 (d * 24) = d * 24" by (simp add: int32_exact)
  moreover have "int32 (d * 24 * 3600) = d * 24 * 3600" using a int32_exact by blast
  ultimately show ?thesis by (simp add: valid_seconds_def)
qed

text \<open>The outcome of \<open>loadCertificate\<close> on settings of the right shape, and on others.\<close>

lemma loadCertificate_object:
  assumes "mg_settings M = Some (JObject doc)" "map_of doc ''server'' = Some (JObject ss)"
  shows "loadCertificate rx rk rd M =
    (let path = (\<lambda>key. case_option [] id (Option.bind (map_of ss key) as_string)) in
     if \<exists>w. map_of ss ''privateKeyPath'' = Some w \<and> as_string w = None then Inl JsonAssert
     else (case (rx (path ''certPath''), rk (path ''privateKeyPath''), rd (path ''dhKeyPath'')) of
        (Some x, Some k, Some d) \<Rightarrow> Inr (0, Some (mg_next M), M\<lparr>mg_heap := (mg_heap M)(mg_next M :=
          newCertificateImpl\<lparr>certX509 := Some x, privateKey := Some (Key k), dhKey := Some (Key d)\<rparr>),
          mg_next := Suc (mg_next M)\<rparr>)
      | _ \<Rightarrow> Inr (-1, None, M)))"
proof -
  have p: "(case x of None \<Rightarrow> [] | Some s \<Rightarrow> s) = case_option [] id x" for x :: "string option"
    by (cases x) simp_all
  let ?path = "\<lambda>key. case_option [] id (Option.bind (map_of ss key) as_string)"
  show ?thesis
    unfolding loadCertificate_def assms(1) option.case
    by (cases "map_of ss ''privateKeyPath''"; cases "Option.bind (map_of ss ''privateKeyPath'') as_string";
        cases "rx (?path ''certPath'')"; cases "rk (?path ''privateKeyPath'')"; cases "rd (?path ''dhKeyPath'')")
       (simp_all add: assms(2) is_object_def has_member_def member_def typed_member_object Let_def p)
qed

lemma loadCertificate_other:
  "mg_settings M = None \<Longrightarrow> loadCertificate rx rk rd M = Inl NullDereference"
  "mg_settings M = Some v \<Longrightarrow> \<not> is_object v \<Longrightarrow> loadCertificate rx rk rd M = Inr (-1, None, M)"
  "mg_settings M = Some (JObject doc) \<Longrightarrow> map_of doc ''server'' = None \<Longrightarrow>
    loadCertificate rx rk rd M = Inr (-1, None, M)"
  "mg_settings M = Some (JObject doc) \<Longrightarrow> map_of doc ''server'' = Some v \<Longrightarrow> \<not> is_object v \<Longrightarrow>
    loadCertificate rx rk rd M = Inr (-1, None, M)"
  by (simp_all add: loadCertificate_def is_object_def has_member_def member_def)

lemma loadCertificate_shapes:
  obtains (failed) "loadCertificate rx rk rd M = Inl NullDereference \<or> loadCertificate rx rk rd M = Inr (-1, None, M)"
    | (object) doc ss where "mg_settings M = Some (JObject doc)" "map_of doc ''server'' = Some (JObject ss)"
proof (cases "mg_settings M")
  case None
  with failed show ?thesis by (simp add: loadCertificate_other)
next
  case (Some v)
  show ?thesis
  proof (cases "is_object v")
    case False
    with Some failed show ?thesis by (simp add: loadCertificate_other(2))
  next
    case True
    then obtain doc where v: "v = JObject doc" by (auto simp: is_object_def split: json.splits)
    show ?thesis
    proof (cases "map_of doc ''server''")
      case None
      with Some v failed show ?thesis by (simp add: loadCertificate_other(3))
    next
      case w: (Some w)
      show ?thesis
      proof (cases "is_object w")
        case False
        with w Some v failed show ?thesis by (simp add: loadCertificate_other(4))
      next
        case True
        then obtain ss where "w = JObject ss" by (auto simp: is_object_def split: json.splits)
        with w Some v object show ?thesis by simp
      qed
    qed
  qed
qed

lemma loadCertificate_None: "loadCertificate rx rk rd M = Inr (rc, None, M') \<Longrightarrow> M' = M"
  by (cases rx rk rd M rule: loadCertificate_shapes)
     (auto simp: loadCertificate_object Let_def split: option.splits if_splits)

lemma loadCertificate_Some:
  assumes "loadCertificate rx rk rd M = Inr (rc, Some i, M')"
  shows "\<exists>doc ss x k d. rc = 0 \<and> i = mg_next M \<and> mg_settings M = Some (JObject doc) \<and>
    map_of doc ''server'' = Some (JObject ss) \<and>
    rx (case_option [] id (Option.bind (map_of ss ''certPath'') as_string)) = Some x \<and>
    rk (case_option [] id (Option.bind (map_of ss ''privateKeyPath'') as_string)) = Some k \<and>
    rd (case_option [] id (Option.bind (map_of ss ''dhKeyPath'') as_string)) = Some d \<and>
    M' = M\<lparr>mg_heap := (mg_heap M)(i := newCertificateImpl\<lparr>certX509 := Some x, privateKey := Some (Key k),
      dhKey := Some (Key d)\<rparr>), mg_next := Suc i\<rparr>"
proof (cases rx rk rd M rule: loadCertificate_shapes)
  case failed
  with assms show ?thesis by simp
next
  case (object doc ss)
  show ?thesis
    using assms unfolding loadCertificate_object [OF object]
    by (auto simp: Let_def object split: if_splits option.splits)
qed

section \<open>Properties\<close>

text \<open>
  C36. \<open>newCertRootLocalhost\<close> followed by \<open>newCertServerLocalhost\<close>, when OpenSSL generates
  the keys and signs, gives a chain: the root is its own issuer and signed with its own key,
  the server certificate names the root as issuer, is signed with the root's key and holds a
  different key; both are valid for 2000 days and no earlier certificate is touched.  When
  OpenSSL reports the failure of a key generation with 0, or the failure to sign, both calls
  still return 0, and the chain has a certificate without a signature.
\<close>

theorem localhost_chain:
  assumes "os_rsa_rc os \<in> {0, 1}" "os_dh_rc os \<in> {0, 1}" "os_sign_rc os \<ge> 0"
  shows "\<exists>r s M1 M2 xr xs.
    newCertRootLocalhost os d M = Inr (0, Some r, M1) \<and> newCertServerLocalhost os d' M1 = Inr (0, Some s, M2) \<and>
    certX509 (mg_heap M2 r) = Some xr \<and> certX509 (mg_heap M2 s) = Some xs \<and>
    xc_issuer xr = xc_subject xr \<and> xc_issuer xs = xc_subject xr \<and>
    xc_notAfter xr = 172800000 \<and> xc_notAfter xs = 172800000 \<and>
    (if os_rsa_rc os = 1 \<and> os_sign_rc os > 0
     then \<exists>kr ks. kr \<noteq> ks \<and>
       privateKey (mg_heap M2 r) = Some (Key kr) \<and> xc_pubkey xr = Some kr \<and> xc_signer xr = Some kr \<and>
       privateKey (mg_heap M2 s) = Some (Key ks) \<and> xc_pubkey xs = Some ks \<and> xc_signer xs = Some kr
     else xc_signer xr = None \<and> xc_signer xs = None) \<and>
    mg_root M2 = Some r \<and> mg_server M2 = Some s \<and> (\<forall>j. j = r \<or> j = s \<or> mg_heap M2 j = mg_heap M j)"
proof -
  have v: "valid_seconds 2000 = 172800000" using valid_seconds_exact [of 2000] by (simp add: int_ok_def)
  have nn: "os_rsa_rc os \<ge> 0" "os_dh_rc os \<ge> 0" using assms(1,2) by auto
  note root = newCertRootLocalhost_eq [OF nn refl, of d M]
  let ?i = "mg_next M"
  let ?k = "\<lambda>i. Some (generated (os_rsa_rc os) i)"
  let ?c = "\<lparr>certX509 = Some (root_x509 os root_options ?i), certReqX509 = None, privateKey = ?k ?i,
      dhKey = Some (generated (os_dh_rc os) ?i)\<rparr>"
  let ?M1 = "M\<lparr>mg_heap := (mg_heap M)(?i := ?c), mg_next := Suc ?i, mg_root := Some ?i\<rparr>"
  have m: "mg_root ?M1 = Some ?i" "?i \<noteq> mg_next ?M1"
      "certX509 (mg_heap ?M1 ?i) = Some (root_x509 os root_options ?i)" "mg_next ?M1 = Suc ?i"
      "privateKey (mg_heap ?M1 ?i) = ?k ?i"
    by simp_all
  let ?x = "server_x509 os server_options (Suc ?i) (root_x509 os root_options ?i) (?k ?i)"
  let ?M2 = "?M1\<lparr>mg_heap := (mg_heap ?M1)(Suc ?i := \<lparr>certX509 = Some ?x,
       certReqX509 = Some \<lparr>xr_pubkey = key_material (?k (Suc ?i)), xr_version = 2\<rparr>, privateKey = ?k (Suc ?i),
       dhKey = Some (generated (os_dh_rc os) (Suc ?i))\<rparr>), mg_next := Suc (Suc ?i), mg_server := Some (Suc ?i)\<rparr>"
  have server: "newCertServerLocalhost os d' ?M1 = Inr (0, Some (Suc ?i), ?M2)"
    using newCertServerLocalhost_eq [OF nn refl m(1-3), of d'] unfolding m(4,5) .
  have days: "daysValid root_options = 2000" "daysValid server_options = 2000"
    by (simp_all add: root_options_def server_options_def)
  show ?thesis
    using root server v days assms(1,3)
    by (intro exI [of _ ?i] exI [of _ "Suc ?i"] exI [of _ ?M1] exI [of _ ?M2]
        exI [of _ "root_x509 os root_options ?i"] exI [of _ ?x])
       (auto simp: generated_def key_material_def X509_sign_def)
qed

definition example_openssl :: openssl where
  "example_openssl = \<lparr>os_rsa_rc = 1, os_dh_rc = 1, os_sign_rc = 256, os_entry_ok = (\<lambda>_ _. True),
     os_ext_ok = (\<lambda>_ _. True)\<rparr>"

theorem localhost_chain_witness:
  "\<exists>r s M1 M2 xs k. newCertRootLocalhost example_openssl None newManager = Inr (0, Some r, M1) \<and>
     newCertServerLocalhost example_openssl None M1 = Inr (0, Some s, M2) \<and>
     certX509 (mg_heap M2 s) = Some xs \<and> xc_signer xs = Some k \<and> privateKey (mg_heap M2 r) = Some (Key k)"
proof -
  have c: "os_rsa_rc example_openssl \<in> {0, 1}" "os_dh_rc example_openssl \<in> {0, 1}" "os_sign_rc example_openssl \<ge> 0"
    by (simp_all add: example_openssl_def)
  have "os_rsa_rc example_openssl = 1 \<and> os_sign_rc example_openssl > 0" by (simp add: example_openssl_def)
  with localhost_chain [OF c, of None newManager None] show ?thesis by (simp split del: if_split) blast
qed

text \<open>
  Without a certificate authority \<open>newCertServerLocalhost\<close> dereferences a null
  pointer; with one, a failure to sign goes unnoticed, whatever OpenSSL returns: the
  result is 0 and the server's certificate carries no signature.
\<close>

theorem server_certificate_failures:
  assumes "os_rsa_rc os \<ge> 0" "os_dh_rc os \<ge> 0"
  shows "(mg_root M = None \<longrightarrow> newCertServerLocalhost os d M = Inl NullDereference) \<and>
    (\<forall>ca xca. mg_root M = Some ca \<longrightarrow> ca \<noteq> mg_next M \<longrightarrow> certX509 (mg_heap M ca) = Some xca \<longrightarrow>
      os_sign_rc os \<le> 0 \<longrightarrow>
      (\<exists>s M1 x. newCertServerLocalhost os d M = Inr (0, Some s, M1) \<and> mg_server M1 = Some s \<and>
        certX509 (mg_heap M1 s) = Some x \<and> xc_signer x = None))"
proof -
  have "newCertServerLocalhost os d M = Inl NullDereference" if "mg_root M = None"
    using that assms
    by (simp add: newCertServerLocalhost_def newRequest_def signRequest_def Let_def read_localhost_options)
  moreover have "\<exists>s M1 x. newCertServerLocalhost os d M = Inr (0, Some s, M1) \<and> mg_server M1 = Some s \<and>
        certX509 (mg_heap M1 s) = Some x \<and> xc_signer x = None"
    if "mg_root M = Some ca" "ca \<noteq> mg_next M" "certX509 (mg_heap M ca) = Some xca" "os_sign_rc os \<le> 0" for ca xca
    using newCertServerLocalhost_eq [OF assms refl that(1-3), of d] that(4)
    by (simp add: X509_sign_def split: option.split)
  ultimately show ?thesis by blast
qed

theorem server_certificate_failures_witness:
  "newCertServerLocalhost example_openssl None newManager = Inl NullDereference \<and>
   (\<exists>s M1 x. newCertServerLocalhost (example_openssl\<lparr>os_sign_rc := -1\<rparr>) None
       (newManager\<lparr>mg_heap := (\<lambda>_. newCertificateImpl)(0 := newCertificateImpl\<lparr>certX509 := Some X509_new\<rparr>),
          mg_next := 1, mg_root := Some 0\<rparr>) = Inr (0, Some s, M1) \<and>
      certX509 (mg_heap M1 s) = Some x \<and> xc_signer x = None)"
proof
  have r: "os_rsa_rc example_openssl \<ge> 0" "os_dh_rc example_openssl \<ge> 0" by (simp_all add: example_openssl_def)
  show "newCertServerLocalhost example_openssl None newManager = Inl NullDereference"
    using server_certificate_failures [OF r, of newManager None] by (simp add: newManager_def)
  let ?os = "example_openssl\<lparr>os_sign_rc := -1\<rparr>"
  let ?M = "newManager\<lparr>mg_heap := (\<lambda>_. newCertificateImpl)(0 := newCertificateImpl\<lparr>certX509 := Some X509_new\<rparr>),
          mg_next := 1, mg_root := Some 0\<rparr>"
  have "os_rsa_rc ?os \<ge> 0" "os_dh_rc ?os \<ge> 0" "os_sign_rc ?os \<le> 0" using r by simp_all
  moreover have "mg_root ?M = Some 0" "0 \<noteq> mg_next ?M" "certX509 (mg_heap ?M 0) = Some X509_new" by simp_all
  ultimately show "\<exists>s M1 x. newCertServerLocalhost ?os None ?M = Inr (0, Some s, M1) \<and>
      certX509 (mg_heap M1 s) = Some x \<and> xc_signer x = None"
    using server_certificate_failures [of ?os ?M None] by blast
qed

text \<open>
  C37. The period of validity is the number of days in seconds exactly for at most 24855
  days either way; one day more and the product wraps, so that the certificate ends in
  the past.
\<close>

theorem validity_period:
  "(valid_seconds days = days * 24 * 3600 \<longleftrightarrow> \<bar>days\<bar> \<le> 24855) \<and> valid_seconds 24856 < 0"
proof
  have "\<bar>days\<bar> \<le> 24855 \<longleftrightarrow> int_ok (days * 24 * 3600)" by (auto simp: int_ok_def)
  moreover have "int_ok (valid_seconds days)"
    by (simp add: valid_seconds_def int32_ok)
  ultimately show "valid_seconds days = days * 24 * 3600 \<longleftrightarrow> \<bar>days\<bar> \<le> 24855"
    using valid_seconds_exact [of days] by metis
  show "valid_seconds 24856 < 0" by code_simp
qed

end
