(* ===== verification/Module.thy ===== *)
theory Module
  imports Server Client Template Certificate
begin

text \<open>
  Class \<open>ModuleExport\<close> of \<open>src/Module.cpp\<close> and its twin in \<open>src/SshModule.cpp\<close>: the
  settings callbacks, the factory functions, and \<open>wait\<close> and \<open>notify\<close> over condition
  variables as a step relation.
\<close>

section \<open>The module object\<close>

record module =
  md_settingsDoc :: "json option"
  md_accountsDoc :: "json option"

definition newModule :: module where
  "newModule = \<lparr>md_settingsDoc = None, md_accountsDoc = None\<rparr>"

definition module_init :: "module \<Rightarrow> rc \<times> module" where
  "module_init m = (0, m)"

text \<open>The two bound member functions of a callback map.\<close>

datatype module_callback = CbSetAccounts | CbSetSettings

definition add_member :: "string \<Rightarrow> json \<Rightarrow> json \<Rightarrow> json res" where
  "add_member k v doc = (case doc of JObject ms \<Rightarrow> Inr (JObject (ms @ [(k, v)])) | _ \<Rightarrow> Inl JsonAssert)"

text \<open>
  \<open>registerSettings\<close>: the request document is emptied; an existing callback of the
  same name in the map (an unordered map here: a function) is kept.
\<close>

definition cb_insert :: "string \<Rightarrow> 'c \<Rightarrow> (string \<Rightarrow> 'c option) \<Rightarrow> string \<Rightarrow> 'c option" where
  "cb_insert k c m = (if m k = None then m(k \<mapsto> c) else m)"

definition registerSettings ::
  "json \<Rightarrow> (string \<Rightarrow> module_callback option) \<Rightarrow>
   (rc \<times> json \<times> (string \<Rightarrow> module_callback option)) res" where
  "registerSettings moduleRequest callbackMap =
     bind_res (add_member ''HTTP_accounts'' (JString ''HTTP_accountsCB'') (JObject [])) (\<lambda>d1.
     bind_res (add_member ''HTTP_settings'' (JString ''HTTP_settingsCB'') d1) (\<lambda>d2.
       Inr (0, d2, cb_insert ''HTTP_settingsCB'' CbSetSettings
         (cb_insert ''HTTP_accountsCB'' CbSetAccounts callbackMap))))"

definition setAccounts :: "json option \<Rightarrow> module \<Rightarrow> rc \<times> module" where
  "setAccounts jsonDoc m = (0, m\<lparr>md_accountsDoc := jsonDoc\<rparr>)"

definition setSettings :: "json option \<Rightarrow> module \<Rightarrow> rc \<times> module" where
  "setSettings jsonDoc m = (0, m\<lparr>md_settingsDoc := jsonDoc\<rparr>)"

definition run_callback :: "module_callback \<Rightarrow> json option \<Rightarrow> module \<Rightarrow> module" where
  "run_callback c d m =
     (case c of CbSetAccounts \<Rightarrow> snd (setAccounts d m) | CbSetSettings \<Rightarrow> snd (setSettings d m))"

text \<open>The factory functions hand the settings document over as it is at the call.\<close>

definition newClient :: "lib \<Rightarrow> http_request \<Rightarrow> module \<Rightarrow> client_impl res" where
  "newClient L q0 m = bind_res (newClientImpl L q0) (\<lambda>C.
     Inr (snd (client_setSettingsDoc (md_settingsDoc m) C)))"

definition newClientMap :: "lib \<Rightarrow> http_request \<Rightarrow> variant smap \<Rightarrow> module \<Rightarrow> client_impl res" where
  "newClientMap L q0 opts m = bind_res (newClientImplMap L q0 opts) (\<lambda>C.
     Inr (snd (client_setSettingsDoc (md_settingsDoc m) C)))"

definition newUrl :: "variant smap \<Rightarrow> module \<Rightarrow> url_impl res" where
  "newUrl opts m = newUrlImplMap opts"

definition newServer :: "'a server_state \<Rightarrow> variant smap \<Rightarrow> module \<Rightarrow> 'a server_impl" where
  "newServer s0 opts m = snd (server_setSettingsDoc (md_settingsDoc m) (newServerImpl s0))"

definition newCertificateManager :: "module \<Rightarrow> manager" where
  "newCertificateManager m = snd (manager_setSettingsDoc (md_settingsDoc m) newManager)"

definition newTemplate :: "module \<Rightarrow> template_impl" where
  "newTemplate m = snd (template_setSettingsDoc (md_settingsDoc m) newTemplateImpl)"

section \<open>The SSH module\<close>

definition ssh_registerSettings ::
  "json \<Rightarrow> (string \<Rightarrow> module_callback option) \<Rightarrow>
   (rc \<times> json \<times> (string \<Rightarrow> module_callback option)) res" where
  "ssh_registerSettings moduleRequest callbackMap =
     bind_res (add_member ''HTTP_accounts'' (JString ''HTTP_accountsCB'') (JObject [])) (\<lambda>d1.
     bind_res (add_member ''HTTP_settings'' (JString ''HTTP_settingsCB'') d1) (\<lambda>d2.
       Inr (0, d2, cb_insert ''HTTP_settingsCB'' CbSetSettings
         (cb_insert ''HTTP_accountsCB'' CbSetAccounts callbackMap))))"

definition ssh_setAccounts :: "json option \<Rightarrow> module \<Rightarrow> rc \<times> module" where
  "ssh_setAccounts jsonDoc m = (0, m\<lparr>md_accountsDoc := jsonDoc\<rparr>)"

definition ssh_setSettings :: "json option \<Rightarrow> module \<Rightarrow> rc \<times> module" where
  "ssh_setSettings jsonDoc m = (0, m\<lparr>md_settingsDoc := jsonDoc\<rparr>)"

text \<open>
  The factories of the SSH module make an object of a class that is not in the
  repository, by its constructor \<open>construct\<close>, and hand it the settings by its member \<open>set_doc\<close>.
\<close>

definition newPortForwarding ::
  "(variant smap \<Rightarrow> 'o) \<Rightarrow> (json option \<Rightarrow> 'o \<Rightarrow> 'o) \<Rightarrow> variant smap \<Rightarrow> module \<Rightarrow> 'o" where
  "newPortForwarding construct set_doc opts m = set_doc (md_settingsDoc m) (construct opts)"

definition newTunnelServer ::
  "(variant smap \<Rightarrow> 'o) \<Rightarrow> (json option \<Rightarrow> 'o \<Rightarrow> 'o) \<Rightarrow> variant smap \<Rightarrow> module \<Rightarrow> 'o" where
  "newTunnelServer construct set_doc opts m = set_doc (md_settingsDoc m) (construct opts)"

definition newSshClient ::
  "(variant smap \<Rightarrow> 'o) \<Rightarrow> (json option \<Rightarrow> 'o \<Rightarrow> 'o) \<Rightarrow> variant smap \<Rightarrow> module \<Rightarrow> 'o" where
  "newSshClient construct set_doc opts m = set_doc (md_settingsDoc m) (construct opts)"

definition newSshGlobal :: "'o \<Rightarrow> module \<Rightarrow> 'o" where
  "newSshGlobal made m = made"

section \<open>Waiting and notifying\<close>

text \<open>
  A thread in \<open>wait\<close> blocks on the global mutex, then creates the condition
  variable of its handle when there is none and sleeps on it, which gives the
  mutex back; woken up, it takes the mutex again and returns.  There is no
  predicate to check, so a spurious wake-up returns as well.
\<close>

datatype waiter =
    Running
  | WantsMutex string
  | Sleeping string
  | Woken string
  | Returning string

record sync =
  sy_handles :: "string set"
  sy_waiter :: "nat \<Rightarrow> waiter"
  sy_notified :: "string \<Rightarrow> nat"
  sy_spurious :: "string \<Rightarrow> nat"
  sy_returned :: "string \<Rightarrow> nat"

definition sync_init :: sync where
  "sync_init = \<lparr>sy_handles = {}, sy_waiter = (\<lambda>_. Running), sy_notified = (\<lambda>_. 0), sy_spurious = (\<lambda>_. 0),
     sy_returned = (\<lambda>_. 0)\<rparr>"

datatype sync_label =
    CallWait nat string
  | EnterWait nat
  | Notify string "nat option"
  | Spurious nat
  | Reacquire nat
  | ReturnWait nat

definition set_waiter :: "nat \<Rightarrow> waiter \<Rightarrow> sync \<Rightarrow> sync" where
  "set_waiter t w S = S\<lparr>sy_waiter := (sy_waiter S)(t := w)\<rparr>"

definition mutex_free :: "sync \<Rightarrow> bool" where
  "mutex_free S \<longleftrightarrow> (\<forall>t h. sy_waiter S t \<noteq> Returning h)"

text \<open>
  \<open>sync_step S l S'\<close>; \<open>notify_one\<close> wakes one of the threads that sleep on the
  handle, and does nothing when there is none or no such condition variable.
\<close>

inductive sync_step :: "sync \<Rightarrow> sync_label \<Rightarrow> sync \<Rightarrow> bool" where
  call_wait: "sy_waiter S t = Running \<Longrightarrow> sync_step S (CallWait t h) (set_waiter t (WantsMutex h) S)"
| enter_wait: "sy_waiter S t = WantsMutex h \<Longrightarrow> mutex_free S \<Longrightarrow>
    sync_step S (EnterWait t) (set_waiter t (Sleeping h) (S\<lparr>sy_handles := insert h (sy_handles S)\<rparr>))"
| notify_wakes: "h \<in> sy_handles S \<Longrightarrow> sy_waiter S t = Sleeping h \<Longrightarrow>
    sync_step S (Notify h (Some t))
      (set_waiter t (Woken h) (S\<lparr>sy_notified := (sy_notified S)(h := Suc (sy_notified S h))\<rparr>))"
| notify_lost: "h \<notin> sy_handles S \<or> (\<forall>t. sy_waiter S t \<noteq> Sleeping h) \<Longrightarrow>
    sync_step S (Notify h None) S"
| spurious: "sy_waiter S t = Sleeping h \<Longrightarrow>
    sync_step S (Spurious t) 
      (set_waiter t (Woken h) (S\<lparr>sy_spurious := (sy_spurious S)(h := Suc (sy_spurious S h))\<rparr>))"
| reacquire: "sy_waiter S t = Woken h \<Longrightarrow> mutex_free S \<Longrightarrow>
    sync_step S (Reacquire t) (set_waiter t (Returning h) S)"
| return_wait: "sy_waiter S t = Returning h \<Longrightarrow>
    sync_step S (ReturnWait t)
      (set_waiter t Running (S\<lparr>sy_returned := (sy_returned S)(h := Suc (sy_returned S h))\<rparr>))"

inductive_cases sync_stepE: "sync_step S l S'"
inductive_simps sync_notify_simps: "sync_step S (Notify h x) S'"

inductive sync_run :: "sync \<Rightarrow> sync_label list \<Rightarrow> sync \<Rightarrow> bool" where
  sync_none: "sync_run S [] S"
| sync_more: "sync_run S ls S' \<Longrightarrow> sync_step S' l S'' \<Longrightarrow> sync_run S (ls @ [l]) S''"

section \<open>Every return of \<open>wait\<close> is accounted for\<close>

definition leaving :: "sync \<Rightarrow> string \<Rightarrow> nat set" where
  "leaving S h = {t. sy_waiter S t = Woken h \<or> sy_waiter S t = Returning h}"

definition sync_inv :: "sync \<Rightarrow> bool" where
  "sync_inv S \<longleftrightarrow> (\<forall>h. finite (leaving S h) \<and>
     card (leaving S h) + sy_returned S h = sy_notified S h + sy_spurious S h) \<and>
     (\<forall>t h. sy_waiter S t = Sleeping h \<longrightarrow> h \<in> sy_handles S)"

lemma leaving_set_waiter:
  "leaving (set_waiter t w S) h =
     (if w = Woken h \<or> w = Returning h then insert t (leaving S h) else leaving S h - {t})"
  by (auto simp: leaving_def set_waiter_def)

lemma leaving_update [simp]:
  "leaving (S\<lparr>sy_handles := a\<rparr>) h = leaving S h" "leaving (S\<lparr>sy_notified := b\<rparr>) h = leaving S h"
  "leaving (S\<lparr>sy_spurious := c\<rparr>) h = leaving S h" "leaving (S\<lparr>sy_returned := d\<rparr>) h = leaving S h"
  by (simp_all add: leaving_def)

lemma not_leaving:
  "sy_waiter S t = Running \<Longrightarrow> t \<notin> leaving S h" "sy_waiter S t = WantsMutex k \<Longrightarrow> t \<notin> leaving S h"
  "sy_waiter S t = Sleeping k \<Longrightarrow> t \<notin> leaving S h"
  "sy_waiter S t = Woken k \<Longrightarrow> t \<in> leaving S h \<longleftrightarrow> k = h"
  "sy_waiter S t = Returning k \<Longrightarrow> t \<in> leaving S h \<longleftrightarrow> k = h"
  by (auto simp: leaving_def)

lemma set_waiter_simps [simp]:
  "sy_handles (set_waiter t w S) = sy_handles S" "sy_notified (set_waiter t w S) = sy_notified S"
  "sy_spurious (set_waiter t w S) = sy_spurious S" "sy_returned (set_waiter t w S) = sy_returned S"
  "sy_waiter (set_waiter t w S) u = (if u = t then w else sy_waiter S u)"
  by (simp_all add: set_waiter_def)

lemma card_leaving_minus:
  "finite A \<Longrightarrow> t \<in> A \<Longrightarrow> card (A - {t}) + Suc n = card A + n"
  by (simp add: card_Diff_singleton card_gt_0_iff Suc_diff_le) (metis card_gt_0_iff Suc_pred emptyE add_Suc_right add_Suc)

lemma sync_step_inv: "sync_step S l S' \<Longrightarrow> sync_inv S \<Longrightarrow> sync_inv S'"
proof (induction rule: sync_step.induct)
  case (return_wait S t h)
  then have "t \<in> leaving S h" "finite (leaving S h)" by (simp_all add: not_leaving sync_inv_def)
  have "card (leaving S h - {t}) + Suc (sy_returned S h) = card (leaving S h) + sy_returned S h"
    using \<open>finite (leaving S h)\<close> \<open>t \<in> leaving S h\<close> by (rule card_leaving_minus)
  moreover have "card (leaving S h) + sy_returned S h = sy_notified S h + sy_spurious S h"
    using return_wait by (simp add: sync_inv_def)
  ultimately have c: "card (leaving S h - {t}) + Suc (sy_returned S h) = sy_notified S h + sy_spurious S h"
    by (rule trans)
  have "leaving S k - {t} = leaving S k" if "k \<noteq> h" for k
    using that return_wait by (simp add: not_leaving)
  with c return_wait show ?case
    unfolding sync_inv_def by (auto simp: leaving_set_waiter simp del: card_Diff_singleton card_Diff_insert)
next
  case (reacquire S t h)
  then show ?case
    by (auto simp: sync_inv_def leaving_set_waiter not_leaving insert_absorb)
qed (auto simp: sync_inv_def leaving_set_waiter not_leaving card_insert_if)

lemma sync_run_inv: "sync_run S ls S' \<Longrightarrow> sync_inv S \<Longrightarrow> sync_inv S'"
  by (induction rule: sync_run.induct) (auto intro: sync_step_inv)

lemma sync_init_inv: "sync_inv sync_init"
  by (simp add: sync_inv_def sync_init_def leaving_def)

text \<open>A sleeping thread sleeps on until it is notified or woken spuriously.\<close>

lemma sleeping_step:
  "sync_step S l S' \<Longrightarrow> sy_waiter S t = Sleeping h \<Longrightarrow> l \<noteq> Notify h (Some t) \<Longrightarrow> l \<noteq> Spurious t \<Longrightarrow>
     sy_waiter S' t = Sleeping h"
  by (erule sync_stepE) auto

lemma sleeping_run:
  "sync_run S ls S' \<Longrightarrow> sy_waiter S t = Sleeping h \<Longrightarrow>
     Notify h (Some t) \<notin> set ls \<Longrightarrow> Spurious t \<notin> set ls \<Longrightarrow> sy_waiter S' t = Sleeping h"
  by (induction rule: sync_run.induct) (auto dest: sleeping_step)

section \<open>Runs in two parts\<close>

lemma sync_run_append: "sync_run S ls S' \<Longrightarrow> sync_run S' ms S'' \<Longrightarrow> sync_run S (ls @ ms) S''"
proof (rotate_tac, induction rule: sync_run.induct)
  case (sync_none S)
  then show ?case by simp
next
  case (sync_more S ms S' l S'')
  then show ?case by (metis append_assoc sync_run.sync_more)
qed

definition wakes :: "string \<Rightarrow> sync_label list \<Rightarrow> nat" where
  "wakes h ls = length (filter (\<lambda>l. case l of Notify k (Some _) \<Rightarrow> k = h | _ \<Rightarrow> False) ls)"

lemma wakes_snoc:
  "wakes h (ls @ [l]) = wakes h ls + (case l of Notify k (Some _) \<Rightarrow> if k = h then 1 else 0 | _ \<Rightarrow> 0)"
  by (simp add: wakes_def split: sync_label.split option.split)

lemma notified_wakes: "sync_run S ls S' \<Longrightarrow> sy_notified S' h = sy_notified S h + wakes h ls"
proof (induction rule: sync_run.induct)
  case (sync_none S)
  then show ?case by (simp add: wakes_def)
next
  case (sync_more S ls S' l S'')
  from sync_more(2) have "sy_notified S'' h = sy_notified S' h +
      (case l of Notify k (Some _) \<Rightarrow> if k = h then 1 else 0 | _ \<Rightarrow> 0)"
    by (rule sync_stepE) auto
  with sync_more show ?case by (simp add: wakes_snoc)
qed

lemma no_spurious: "sync_run S ls S' \<Longrightarrow> \<forall>t. Spurious t \<notin> set ls \<Longrightarrow> sy_spurious S' h = sy_spurious S h"
proof (induction rule: sync_run.induct)
  case (sync_more S ls S' l S'')
  from sync_more(2,4) have "sy_spurious S'' h = sy_spurious S' h"
    by (auto elim!: sync_stepE)
  with sync_more show ?case by simp
qed simp

lemma sync_run_snoc: "sync_run S (ls @ [l]) S' \<longleftrightarrow> (\<exists>T. sync_run S ls T \<and> sync_step T l S')"
  by (auto intro: sync_more elim: sync_run.cases)

lemma sync_run_Nil [simp]: "sync_run S [] S' \<longleftrightarrow> S' = S"
  by (auto intro: sync_none elim: sync_run.cases)

lemma sync_run_Cons: "sync_run S (l # ls) S' \<longleftrightarrow> (\<exists>T. sync_step S l T \<and> sync_run T ls S')"
proof (induction ls arbitrary: S' rule: rev_induct)
  case Nil
  show ?case using sync_run_snoc [of S "[]" l S'] by simp
next
  case (snoc k ls)
  have "sync_run S (l # ls @ [k]) S' \<longleftrightarrow> (\<exists>T. sync_run S (l # ls) T \<and> sync_step T k S')"
    using sync_run_snoc [of S "l # ls" k S'] by simp
  with snoc show ?case by (auto simp: sync_run_snoc)
qed

text \<open>One thread waits and is notified.\<close>

lemma example_run:
  "\<exists>S. sync_run sync_init [CallWait 0 ''e'', EnterWait 0, Notify ''e'' (Some 0), Reacquire 0, ReturnWait 0] S"
proof -
  let ?S1 = "set_waiter 0 (WantsMutex ''e'') sync_init"
  let ?S2 = "set_waiter 0 (Sleeping ''e'') (?S1\<lparr>sy_handles := insert ''e'' (sy_handles ?S1)\<rparr>)"
  let ?S3 = "set_waiter 0 (Woken ''e'') (?S2\<lparr>sy_notified := (sy_notified ?S2)(''e'' := Suc (sy_notified ?S2 ''e''))\<rparr>)"
  let ?S4 = "set_waiter 0 (Returning ''e'') ?S3"
  let ?S5 = "set_waiter 0 Running (?S4\<lparr>sy_returned := (sy_returned ?S4)(''e'' := Suc (sy_returned ?S4 ''e''))\<rparr>)"
  have "sync_step sync_init (CallWait 0 ''e'') ?S1" by (rule call_wait) (simp add: sync_init_def)
  moreover have "sync_step ?S1 (EnterWait 0) ?S2" by (rule enter_wait) (simp_all add: mutex_free_def sync_init_def)
  moreover have "sync_step ?S2 (Notify ''e'' (Some 0)) ?S3" by (rule notify_wakes) simp_all
  moreover have "sync_step ?S3 (Reacquire 0) ?S4" by (rule reacquire) (simp_all add: mutex_free_def sync_init_def)
  moreover have "sync_step ?S4 (ReturnWait 0) ?S5" by (rule return_wait) simp
  ultimately show ?thesis unfolding sync_run_Cons sync_run_Nil by blast
qed

lemma early_run:
  "\<exists>S. sync_run sync_init [Notify h None, CallWait t h, EnterWait t] S \<and> sy_handles S = {h}"
proof -
  let ?S1 = "set_waiter t (WantsMutex h) sync_init"
  let ?S2 = "set_waiter t (Sleeping h) (?S1\<lparr>sy_handles := insert h (sy_handles ?S1)\<rparr>)"
  have "sync_step sync_init (Notify h None) sync_init" by (rule notify_lost) (simp add: sync_init_def)
  moreover have "sync_step sync_init (CallWait t h) ?S1" by (rule call_wait) (simp add: sync_init_def)
  moreover have "sync_step ?S1 (EnterWait t) ?S2" by (rule enter_wait) (simp_all add: mutex_free_def sync_init_def)
  moreover have "sy_handles ?S2 = {h}" by (simp add: sync_init_def)
  ultimately show ?thesis unfolding sync_run_Cons sync_run_Nil by blast
qed

section \<open>Properties\<close>

text \<open>
  Without spurious wake-ups, no more calls of \<open>wait\<close> on a handle return than
  notifications of that handle found a sleeping thread; a notification that finds none
  is not kept.
\<close>

theorem wait_needs_notification:
  assumes "sync_run sync_init ls S" "\<forall>t. Spurious t \<notin> set ls"
  shows "sy_returned S h \<le> wakes h ls \<and>
    card {t. sy_waiter S t = Woken h \<or> sy_waiter S t = Returning h} = wakes h ls - sy_returned S h"
proof -
  have "sync_inv S" using assms(1) sync_init_inv by (rule sync_run_inv)
  then have "card (leaving S h) + sy_returned S h = sy_notified S h + sy_spurious S h"
    by (simp add: sync_inv_def)
  moreover have "sy_notified S h = wakes h ls" "sy_spurious S h = 0"
    using notified_wakes [OF assms(1)] no_spurious [OF assms] by (simp_all add: sync_init_def)
  ultimately show ?thesis by (simp add: leaving_def)
qed

theorem wait_needs_notification_witness:
  "\<exists>S. sync_run sync_init [CallWait 0 ''e'', EnterWait 0, Notify ''e'' (Some 0), Reacquire 0, ReturnWait 0] S \<and>
     sy_returned S ''e'' \<le> 1"
proof -
  obtain S where S: "sync_run sync_init
      [CallWait 0 ''e'', EnterWait 0, Notify ''e'' (Some 0), Reacquire 0, ReturnWait 0] S"
    using example_run by blast
  from wait_needs_notification [OF S, of "''e''"]
  have "sy_returned S ''e'' \<le> wakes ''e''
      [CallWait 0 ''e'', EnterWait 0, Notify ''e'' (Some 0), Reacquire 0, ReturnWait 0]"
    by simp
  with S show ?thesis by (auto simp: wakes_def)
qed

text \<open>
  A notification that comes before the wait is lost: the thread that waits
  afterwards sleeps until a later notification picks it or it wakes up by itself.
\<close>

theorem early_notification_is_lost:
  assumes "sync_run sync_init [Notify h x, CallWait t h, EnterWait t] S" "sync_run S ls S'"
    and "Notify h (Some t) \<notin> set ls" "Spurious t \<notin> set ls"
  shows "x = None \<and> sy_waiter S' t = Sleeping h"
proof -
  obtain S1 S2 where S: "sync_step sync_init (Notify h x) S1" "sync_step S1 (CallWait t h) S2"
      "sync_step S2 (EnterWait t) S"
    using assms(1) by (auto simp: sync_run_Cons)
  from S(1) have "x = None" by (auto simp: sync_notify_simps sync_init_def)
  moreover have "sy_waiter S t = Sleeping h"
    using S(2,3) by (auto elim!: sync_stepE)
  ultimately show ?thesis using sleeping_run [OF assms(2) _ assms(3,4)] by blast
qed

theorem early_notification_is_lost_witness:
  "\<exists>S S'. sync_run sync_init [Notify ''e'' None, CallWait 0 ''e'', EnterWait 0] S \<and>
     sync_run S [Notify ''f'' None] S' \<and> sy_waiter S' 0 = Sleeping ''e''"
proof -
  obtain S where S: "sync_run sync_init [Notify ''e'' None, CallWait 0 ''e'', EnterWait 0] S"
      "sy_handles S = {''e''}"
    using early_run by blast
  then have S': "sync_run S [Notify ''f'' None] S" by (simp add: sync_run_Cons notify_lost)
  with early_notification_is_lost [OF S(1) S'] S(1) show ?thesis by auto
qed

text \<open>
  The callbacks that \<open>registerSettings\<close> puts into an empty map are the ones the host
  needs: running the settings callback makes every object the module creates afterwards
  hold that document, and running the accounts callback changes none of them.
\<close>

theorem settings_reach_objects:
  "\<exists>d cbs. registerSettings req (\<lambda>_. None) = Inr (0, d, cbs) \<and>
    has_member d ''HTTP_settings'' = Inr True \<and> has_member d ''HTTP_accounts'' = Inr True \<and>
    (\<exists>set acc. cbs ''HTTP_settingsCB'' = Some set \<and> cbs ''HTTP_accountsCB'' = Some acc \<and>
      (let m' = run_callback acc acc_doc (run_callback set doc m) in
        sv_settings (newServer s0 opts m') = doc \<and> tp_settings (newTemplate m') = doc \<and>
        mg_settings (newCertificateManager m') = doc \<and>
        (case newClient L q0 m' of Inl _ \<Rightarrow> newClientImpl L q0 = newClient L q0 m' | Inr C \<Rightarrow> cl_settings C = doc)))"
  by (cases "newClientImpl L q0")
     (simp_all add: registerSettings_def add_member_def cb_insert_def has_member_def run_callback_def
      setAccounts_def setSettings_def newServer_def server_setSettingsDoc_def newTemplate_def
      template_setSettingsDoc_def newCertificateManager_def manager_setSettingsDoc_def Let_def newClient_def
      client_setSettingsDoc_def)

end
