(* ===== verification/Settings.thy ===== *)
theory Settings
  imports Json "HOL-Library.Multiset"
begin

text \<open>
  Class \<open>SettingsManager\<close> of \<open>src/third_party/Settings-Manager/src/core/SettingsManager.cpp\<close>:
  the requests of the modules are merged into a master document, and a settings
  file is deployed by walking the master and the file side by side, with a queue of
  pairs of objects.  The file system and the JSON parser are arguments.  The loop
  over the queue is a partial function: \<open>None\<close> would be a loop that never ends.
  A merge moves the values of a request and not their memory, and the request is
  destroyed when its callback returns: the manager remembers the nested objects whose
  members are gone with it, and a deployment that reaches one fails.  Names and texts of
  a request are taken to be literals, as they are in \<open>registerSettings\<close> and
  \<open>ssh_registerSettings\<close>, the two functions of the program that make a request.
\<close>

section \<open>The manager\<close>

record 'c settings_manager =
  st_master :: json
  st_freed :: "(string \<times> json) list"
  st_callbacks :: "string \<Rightarrow> 'c option"

definition newSettingsManager :: "'c settings_manager" where
  "newSettingsManager = \<lparr>st_master = JObject [], st_freed = [], st_callbacks = (\<lambda>_. None)\<rparr>"

text \<open>\<open>std::unordered_map::insert\<close> of a range keeps the entries that are there.\<close>

definition cb_insert_range ::
  "(string \<Rightarrow> 'c option) \<Rightarrow> (string \<Rightarrow> 'c option) \<Rightarrow> string \<Rightarrow> 'c option" where
  "cb_insert_range new old = (\<lambda>k. case old k of Some c \<Rightarrow> Some c | None \<Rightarrow> new k)"

text \<open>The members of a request whose value has memory of its own that holds further members.\<close>

definition owns_members :: "string \<times> json \<Rightarrow> bool" where
  "owns_members m = (case snd m of JObject (_ # _) \<Rightarrow> True | _ \<Rightarrow> False)"

definition merge_settings ::
  "json \<Rightarrow> (string \<Rightarrow> 'c option) \<Rightarrow> 'c settings_manager \<Rightarrow> (bool \<times> 'c settings_manager) res" where
  "merge_settings request callbackMap S =
     bind_res (case request of
                 JObject ms \<Rightarrow>
                   (case st_master S of
                      JObject ms0 \<Rightarrow> Inr (JObject (ms0 @ ms), st_freed S @ filter owns_members ms)
                    | _ \<Rightarrow> Inl JsonAssert)
               | _ \<Rightarrow> Inr (st_master S, st_freed S))
       (\<lambda>(master, freed). Inr (True, \<lparr>st_master = master, st_freed = freed,
          st_callbacks = cb_insert_range callbackMap (st_callbacks S)\<rparr>))"

section \<open>Deployment\<close>

text \<open>
  The loop over the members of one object of the master: the callbacks that are
  called, each with a copy of the value of the file, and the pairs that are pushed.
\<close>

fun deploy_members ::
  "(string \<Rightarrow> 'c option) \<Rightarrow> json \<Rightarrow> (string \<times> json) list \<Rightarrow>
   (('c \<times> json) list \<times> (json \<times> json) list) res" where
  "deploy_members cb settings [] = Inr ([], [])"
| "deploy_members cb settings ((name, mv) # ms) =
     (case settings of
        JObject ss \<Rightarrow>
          bind_res (deploy_members cb settings ms) (\<lambda>(calls, pushed).
            (case map_of ss name of
               None \<Rightarrow> Inr (calls, pushed)
             | Some dv \<Rightarrow>
                 if is_object mv \<and> is_object dv then Inr (calls, (dv, mv) # pushed)
                 else (case mv of
                         JString h \<Rightarrow>
                           (case cb (c_str h) of
                              None \<Rightarrow> Inr (calls, pushed)
                            | Some c \<Rightarrow> Inr ((c, dv) # calls, pushed))
                       | _ \<Rightarrow> Inr (calls, pushed))))
      | _ \<Rightarrow> Inl JsonAssert)"

definition deploy_pair ::
  "(string \<Rightarrow> 'c option) \<Rightarrow> json \<times> json \<Rightarrow> (('c \<times> json) list \<times> (json \<times> json) list) res" where
  "deploy_pair cb p = (case snd p of JObject ms \<Rightarrow> deploy_members cb (fst p) ms | _ \<Rightarrow> Inl JsonAssert)"

text \<open>The loop over the queue; \<open>done\<close> are the calls made so far.\<close>

partial_function (option) deploy_loop ::
  "(string \<Rightarrow> 'c option) \<Rightarrow> (json \<times> json) list \<Rightarrow> ('c \<times> json) list \<Rightarrow> ('c \<times> json) list res option" where
  "deploy_loop cb valueQueue calls =
     (case valueQueue of
        [] \<Rightarrow> Some (Inr calls)
      | p # rest \<Rightarrow>
          (case deploy_pair cb p of
             Inl e \<Rightarrow> Some (Inl e)
           | Inr r \<Rightarrow> deploy_loop cb (rest @ snd r) (calls @ fst r)))"

definition deploy ::
  "(string \<Rightarrow> 'c option) \<Rightarrow> json \<Rightarrow> json \<Rightarrow> ('c \<times> json) list res option" where
  "deploy cb settings master = deploy_loop cb [(settings, master)] []"

text \<open>
  The walk reaches freed memory when the file holds an object under the name of a
  nested object that was merged.
\<close>

definition reaches_freed :: "(string \<times> json) list \<Rightarrow> json \<Rightarrow> bool" where
  "reaches_freed freed d =
     (case d of
        JObject ss \<Rightarrow> list_ex (\<lambda>(name, _). case map_of ss name of None \<Rightarrow> False | Some dv \<Rightarrow> is_object dv) freed
      | _ \<Rightarrow> False)"

text \<open>\<open>deployFile\<close>: its result and the calls of callbacks it makes.\<close>

definition deployFile ::
  "(string \<Rightarrow> string option) \<Rightarrow> (string \<Rightarrow> json option) \<Rightarrow> string \<Rightarrow> 'c settings_manager \<Rightarrow>
   (bool \<times> ('c \<times> json) list) res option" where
  "deployFile fs parse path S =
     (case fs path of
        None \<Rightarrow> Some (Inr (False, []))
      | Some contentStr \<Rightarrow>
          (case parse (c_str contentStr) of
             None \<Rightarrow> Some (Inr (False, []))
           | Some d \<Rightarrow>
               if reaches_freed (st_freed S) d then Some (Inl UseAfterFree)
               else map_option (\<lambda>r. bind_res r (\<lambda>calls. Inr (True, calls)))
                 (deploy (st_callbacks S) d (st_master S))))"

section \<open>The loop ends\<close>

text \<open>The number of values of the master that are still to be visited.\<close>

definition to_visit :: "(json \<times> json) list \<Rightarrow> nat" where
  "to_visit q = sum_list (map (size \<circ> snd) q)"

lemma to_visit_simps [simp]:
  "to_visit [] = 0" "to_visit (p # q) = size (snd p) + to_visit q"
  "to_visit (q @ q') = to_visit q + to_visit q'"
  by (simp_all add: to_visit_def)

lemma deploy_members_pushed:
  "deploy_members cb s ms = Inr (calls, pushed) \<Longrightarrow> to_visit pushed \<le> size_list (\<lambda>m. size (snd m)) ms"
proof (induction cb s ms arbitrary: calls pushed rule: deploy_members.induct)
  case (2 cb s name mv ms)
  then obtain ss calls' pushed' where s: "s = JObject ss" "deploy_members cb s ms = Inr (calls', pushed')"
    by (auto simp: bind_res_Inr_iff split: json.splits)
  with 2(1) have "to_visit pushed' \<le> size_list (\<lambda>m. size (snd m)) ms" by blast
  then show ?case using 2(2) s
    by (auto split: option.splits if_splits json.splits)
qed simp

lemma size_members: "size_list (\<lambda>m. size (snd m)) ms < size (JObject ms)"
  by (induction ms) auto

section \<open>What is deployed\<close>

text \<open>
  The calls a master document asks for, by recursion on the document: where it holds the
  name of a callback and the settings hold a value, the callback is due with that value.
\<close>

function addressed_calls :: "(string \<Rightarrow> 'c option) \<Rightarrow> (string \<times> json) list \<Rightarrow> (string \<times> json) list \<Rightarrow> ('c \<times> json) list" where
  "addressed_calls cb ss [] = []"
| "addressed_calls cb ss ((name, JString h) # ms) =
     (case (map_of ss name, cb (c_str h)) of (Some d, Some c) \<Rightarrow> [(c, d)] | _ \<Rightarrow> []) @ addressed_calls cb ss ms"
| "addressed_calls cb ss ((name, JObject ms') # ms) =
     (case map_of ss name of Some (JObject ss') \<Rightarrow> addressed_calls cb ss' ms' | _ \<Rightarrow> []) @ addressed_calls cb ss ms"
| "addressed_calls cb ss ((name, JNull) # ms) = addressed_calls cb ss ms"
| "addressed_calls cb ss ((name, JBool b) # ms) = addressed_calls cb ss ms"
| "addressed_calls cb ss ((name, JInt n) # ms) = addressed_calls cb ss ms"
| "addressed_calls cb ss ((name, JDouble) # ms) = addressed_calls cb ss ms"
| "addressed_calls cb ss ((name, JArray vs) # ms) = addressed_calls cb ss ms"
  by pat_completeness auto
termination
  by (relation "measure (\<lambda>(cb, ss, ms). size_list (\<lambda>m. size (snd m)) ms)") (auto intro: less_le_trans [OF size_members])

text \<open>What the pairs of a queue still ask for.\<close>

definition pair_calls :: "(string \<Rightarrow> 'c option) \<Rightarrow> json \<times> json \<Rightarrow> ('c \<times> json) list" where
  "pair_calls cb p = (case p of (JObject ss, JObject ms) \<Rightarrow> addressed_calls cb ss ms | _ \<Rightarrow> [])"

definition queue_calls :: "(string \<Rightarrow> 'c option) \<Rightarrow> (json \<times> json) list \<Rightarrow> ('c \<times> json) multiset" where
  "queue_calls cb q = mset (concat (map (pair_calls cb) q))"

lemma queue_calls_simps [simp]:
  "queue_calls cb [] = {#}"
  "queue_calls cb (p # q) = mset (pair_calls cb p) + queue_calls cb q"
  "queue_calls cb (q @ q') = queue_calls cb q + queue_calls cb q'"
  by (simp_all add: queue_calls_def)

lemma pair_calls_objects [simp]: "pair_calls cb (JObject ss, JObject ms) = addressed_calls cb ss ms"
  by (simp add: pair_calls_def)

definition both_objects :: "json \<times> json \<Rightarrow> bool" where
  "both_objects p \<longleftrightarrow> is_object (fst p) \<and> is_object (snd p)"

lemma both_objects_simp [simp]: "both_objects (JObject ss, JObject ms)"
  by (simp add: both_objects_def is_object_def)

lemma is_object_iff: "is_object v \<longleftrightarrow> (\<exists>ms. v = JObject ms)"
  by (simp add: is_object_def split: json.splits)

lemma deploy_members_addressed:
  "\<exists>calls pushed. deploy_members cb (JObject ss) ms = Inr (calls, pushed) \<and>
     list_all both_objects pushed \<and>
     mset (addressed_calls cb ss ms) = mset calls + queue_calls cb pushed"
proof (induction ms)
  case Nil
  then show ?case by simp
next
  case (Cons m ms)
  obtain name mv where m: "m = (name, mv)" by (cases m)
  from Cons obtain calls pushed where IH: "deploy_members cb (JObject ss) ms = Inr (calls, pushed)"
      "list_all both_objects pushed"
      "mset (addressed_calls cb ss ms) = mset calls + queue_calls cb pushed"
    by blast
  show ?case
  proof (cases mv)
    case (JString h)
    with IH m show ?thesis by (cases "map_of ss name"; cases "cb (c_str h)") (auto simp: is_object_def)
  next
    case (JObject ms')
    show ?thesis
    proof (cases "map_of ss name")
      case None
      with IH m JObject show ?thesis by simp
    next
      case (Some dv)
      with IH m JObject show ?thesis by (cases dv) (simp_all add: is_object_def add.left_commute)
    qed
  qed (use IH m in \<open>auto simp: is_object_def split: option.splits\<close>)
qed

lemma deploy_loop_addressed:
  assumes "list_all both_objects q"
  shows "\<exists>calls. deploy_loop cb q done = Some (Inr (done @ calls)) \<and> mset calls = queue_calls cb q"
  using assms
proof (induction "to_visit q" arbitrary: q "done" rule: less_induct)
  case less
  show ?case
  proof (cases q)
    case Nil
    then show ?thesis by (simp add: deploy_loop.simps)
  next
    case (Cons p rest)
    with less.prems obtain ss ms where p: "p = (JObject ss, JObject ms)" "list_all both_objects rest"
      by (cases p) (auto simp: both_objects_def is_object_iff)
    obtain calls pushed where M: "deploy_members cb (JObject ss) ms = Inr (calls, pushed)"
        "list_all both_objects pushed"
        "mset (addressed_calls cb ss ms) = mset calls + queue_calls cb pushed"
      using deploy_members_addressed [of cb ss ms] by blast
    have "to_visit (rest @ pushed) < to_visit q"
      using deploy_members_pushed [OF M(1)] size_members [of ms] Cons p by simp
    from less.hyps [OF this, of "done @ calls"] M(2) p(2) obtain calls' where
        R: "deploy_loop cb (rest @ pushed) (done @ calls) = Some (Inr ((done @ calls) @ calls'))"
        "mset calls' = queue_calls cb (rest @ pushed)"
      by auto
    have "deploy_loop cb q done = Some (Inr (done @ (calls @ calls')))"
      using Cons p M(1) R(1) by (subst deploy_loop.simps) (simp add: deploy_pair_def)
    moreover have "mset (calls @ calls') = queue_calls cb q"
      using Cons p M(3) R(2) by (simp add: add.assoc add.commute)
    ultimately show ?thesis by blast
  qed
qed

lemma deploy_flat:
  "\<forall>m \<in> set ms. \<exists>h. snd m = JString h \<Longrightarrow>
   deploy cb (JObject ss) (JObject ms) = Some (Inr (concat (map (\<lambda>(name, mv).
     case mv of JString h \<Rightarrow> (case map_of ss name of None \<Rightarrow> []
       | Some d \<Rightarrow> (case cb (c_str h) of None \<Rightarrow> [] | Some c \<Rightarrow> [(c, d)])) | _ \<Rightarrow> []) ms)))"
proof -
  assume "\<forall>m \<in> set ms. \<exists>h. snd m = JString h"
  then have "deploy_members cb (JObject ss) ms = Inr (concat (map (\<lambda>(name, mv).
     case mv of JString h \<Rightarrow> (case map_of ss name of None \<Rightarrow> []
       | Some d \<Rightarrow> (case cb (c_str h) of None \<Rightarrow> [] | Some c \<Rightarrow> [(c, d)])) | _ \<Rightarrow> []) ms), [])"
    by (induction ms) (auto simp: is_object_def split: option.splits)
  then show ?thesis
    by (simp add: deploy_def deploy_loop.simps [of cb "[(JObject ss, JObject ms)]"] deploy_pair_def
        deploy_loop.simps [of cb "[]"])
qed

lemma deploy_loop_total: "deploy_loop cb q calls \<noteq> None"
proof (induction "to_visit q" arbitrary: q calls rule: less_induct)
  case less
  show ?case
  proof (cases q)
    case Nil
    then show ?thesis by (simp add: deploy_loop.simps)
  next
    case (Cons p rest)
    show ?thesis
    proof (cases "deploy_pair cb p")
      case (Inl e)
      with Cons show ?thesis by (simp add: deploy_loop.simps)
    next
      case (Inr r)
      then obtain ms where ms: "snd p = JObject ms" "deploy_members cb (fst p) ms = Inr (fst r, snd r)"
        by (auto simp: deploy_pair_def split: json.splits)
      have "to_visit (rest @ snd r) < to_visit q"
        using deploy_members_pushed [OF ms(2)] size_members [of ms] Cons ms(1) by simp
      from less [OF this, of "calls @ fst r"] Cons Inr show ?thesis
        by (subst deploy_loop.simps) simp
    qed
  qed
qed

lemma deployFile_total: "deployFile fs parse path S \<noteq> None"
  using deploy_loop_total by (auto simp: deployFile_def deploy_def split: option.splits)

section \<open>Properties\<close>

text \<open>
  What a deployment of two documents does whose memory is alive: any settings object, any
  master object, however deep both are nested.
\<close>

lemma deploy_objects:
  "\<exists>calls. deploy cb (JObject ss) (JObject ms) = Some (Inr calls) \<and> mset calls = mset (addressed_calls cb ss ms)"
  using deploy_loop_addressed [of "[(JObject ss, JObject ms)]" cb "[]"]
  by (simp add: deploy_def both_objects_def is_object_def)

text \<open>
  C19. Deploying an object against a master object always comes to an end, and when the
  memory of the master is alive it calls exactly the callbacks that the master names where
  the settings hold a value, each as often as it is named there and with that value.  The
  members of a nested object that a merge moved from a request are not alive any more: once
  a request with such an object has been merged, deploying a file that holds an object
  under its name reads freed memory.
\<close>

theorem deploy_returns:
  "(\<exists>calls. deploy cb (JObject ss) (JObject ms) = Some (Inr calls) \<and>
      mset calls = mset (addressed_calls cb ss ms)) \<and>
   (merge_settings (JObject rs) cbs S = Inr (True, S') \<and> (name, JObject (m # ms')) \<in> set rs \<and>
      fs path = Some text \<and> parse (c_str text) = Some (JObject ds) \<and> map_of ds name = Some (JObject vs) \<longrightarrow>
    deployFile fs parse path S' = Some (Inl UseAfterFree))"
proof (intro conjI impI)
  assume a: "merge_settings (JObject rs) cbs S = Inr (True, S') \<and> (name, JObject (m # ms')) \<in> set rs \<and>
      fs path = Some text \<and> parse (c_str text) = Some (JObject ds) \<and> map_of ds name = Some (JObject vs)"
  then have "(name, JObject (m # ms')) \<in> set (st_freed S')"
    by (auto simp: merge_settings_def bind_res_Inr_iff owns_members_def split: json.splits)
  with a have "reaches_freed (st_freed S') (JObject ds)"
    by (force simp: reaches_freed_def list_ex_iff is_object_def)
  with a show "deployFile fs parse path S' = Some (Inl UseAfterFree)"
    by (simp add: deployFile_def)
qed (rule deploy_objects)

text \<open>A request with one nested object, as the comment in \<open>deploy\<close> describes it.\<close>

theorem deploy_returns_witness:
  "\<exists>S'. merge_settings (JObject [(''a'', JObject [(''b'', JString ''cb'')])]) (\<lambda>_. Some ()) newSettingsManager = Inr (True, S') \<and>
     deployFile (\<lambda>_. Some ''{..}'') (\<lambda>_. Some (JObject [(''a'', JObject [])])) ''settings.json'' S' = Some (Inl UseAfterFree)"
proof -
  obtain S' where S: "merge_settings (JObject [(''a'', JObject [(''b'', JString ''cb'')])]) (\<lambda>_. Some ()) newSettingsManager = Inr (True, S')"
    by (simp add: merge_settings_def newSettingsManager_def)
  with deploy_returns [of "\<lambda>_. Some ()" "[]" "[]" "[(''a'', JObject [(''b'', JString ''cb'')])]" "\<lambda>_. Some ()"
      newSettingsManager S' "''a''" "(''b'', JString ''cb'')" "[]" "\<lambda>_. Some ''{..}''" "''settings.json''" "''{..}''"
      "\<lambda>_. Some (JObject [(''a'', JObject [])])" "[(''a'', JObject [])]" "[]"]
  show ?thesis by (intro exI [of _ S']) simp
qed

end
