(* ===== verification/Loader.thy ===== *)
theory Loader
  imports Module Settings
begin

text \<open>
  Class \<open>ModuleManager\<close> of \<open>src/third_party/Module-Manager/include/ModuleManager/ModuleManager.hpp\<close>
  and the function \<open>loadModule\<close> of \<open>src/include/BookFilerModuleHttpLoader.hpp\<close>, with
  its twin for the SSH module.  The walk over the directory and the import of a symbol from a
  shared library are arguments; an imported module is an object named by a number.
\<close>

section \<open>The module manager\<close>

text \<open>For each interface name the modules that were imported; the order of the names is not used.\<close>

record module_manager =
  mm_interfaceMap :: "nat list smap"
  mm_modulesLoadedNum :: nat

definition newModuleManager :: module_manager where
  "newModuleManager = \<lparr>mm_interfaceMap = [], mm_modulesLoadedNum = 0\<rparr>"

definition addModule :: "string \<Rightarrow> module_manager \<Rightarrow> module_manager" where
  "addModule name mm = mm\<lparr>mm_interfaceMap := smap_insert name [] (mm_interfaceMap mm)\<rparr>"

definition is_library :: "string \<times> bool \<Rightarrow> bool" where
  "is_library p \<longleftrightarrow> snd p \<and> (contains (fst p) ''.dll'' \<or> contains (fst p) ''.dylib'' \<or> contains (fst p) ''.so'')"

definition addPath ::
  "(string \<Rightarrow> string \<Rightarrow> nat option) \<Rightarrow> string \<Rightarrow> string \<Rightarrow> nat list \<Rightarrow> rc \<times> nat list" where
  "addPath imp lib_path moduleName modulePtrs =
     (case imp lib_path moduleName of
        None \<Rightarrow> (-1, modulePtrs)
      | Some m \<Rightarrow> (0, modulePtrs @ [m]))"

text \<open>
  The loop over the interfaces for one library: \<open>loaded\<close> is the signal of a loaded
  module, called with the first module of the interface, and \<open>loaded_all\<close> the signal of
  all modules.
\<close>

fun load_library ::
  "(string \<Rightarrow> string \<Rightarrow> nat option) \<Rightarrow> (string \<Rightarrow> nat \<Rightarrow> 's \<Rightarrow> 's res) \<Rightarrow> ('s \<Rightarrow> 's res) \<Rightarrow>
   string \<Rightarrow> string list \<Rightarrow> module_manager \<times> 's \<Rightarrow> (module_manager \<times> 's) res" where
  "load_library imp loaded loaded_all path [] s = Inr s"
| "load_library imp loaded loaded_all path (name # names) (mm, s) =
     (case smap_find (mm_interfaceMap mm) name of
        None \<Rightarrow> load_library imp loaded loaded_all path names (mm, s)
      | Some ptrs \<Rightarrow>
          let (rc, ptrs1) = addPath imp path name ptrs;
              mm1 = mm\<lparr>mm_interfaceMap := smap_update name (\<lambda>_. ptrs1) (mm_interfaceMap mm)\<rparr>
          in if rc \<noteq> 0 then load_library imp loaded loaded_all path names (mm1, s)
             else
               bind_res (loaded name (hd ptrs1) s) (\<lambda>s1.
                 let mm2 = mm1\<lparr>mm_modulesLoadedNum := Suc (mm_modulesLoadedNum mm1)\<rparr> in
                 bind_res (if mm_modulesLoadedNum mm2 = length (mm_interfaceMap mm2)
                           then loaded_all s1 else Inr s1) (\<lambda>s2.
                   load_library imp loaded loaded_all path names (mm2, s2))))"

fun load_files ::
  "(string \<Rightarrow> string \<Rightarrow> nat option) \<Rightarrow> (string \<Rightarrow> nat \<Rightarrow> 's \<Rightarrow> 's res) \<Rightarrow> ('s \<Rightarrow> 's res) \<Rightarrow>
   (string \<times> bool) list \<Rightarrow> module_manager \<times> 's \<Rightarrow> (module_manager \<times> 's) res" where
  "load_files imp loaded loaded_all [] s = Inr s"
| "load_files imp loaded loaded_all (p # ps) s =
     bind_res (if is_library p
               then load_library imp loaded loaded_all (fst p) (map fst (mm_interfaceMap (fst s))) s
               else Inr s)
       (load_files imp loaded loaded_all ps)"

definition loadModules ::
  "(string \<Rightarrow> (string \<times> bool) list res) \<Rightarrow> (string \<Rightarrow> string \<Rightarrow> nat option) \<Rightarrow>
   (string \<Rightarrow> nat \<Rightarrow> 's \<Rightarrow> 's res) \<Rightarrow> ('s \<Rightarrow> 's res) \<Rightarrow> string \<Rightarrow> module_manager \<times> 's \<Rightarrow>
   (module_manager \<times> 's) res" where
  "loadModules dir imp loaded loaded_all directoryPathStr s =
     bind_res (dir directoryPathStr) (\<lambda>ps. load_files imp loaded loaded_all ps s)"

section \<open>Loading the HTTP module\<close>

text \<open>
  What the program's globals hold: the module the loader hands out, the module objects,
  the settings manager with the bound member functions, and the results of the callback.
\<close>

record 'r loader =
  ld_module :: "nat option"
  ld_objects :: "nat \<Rightarrow> module"
  ld_settings :: "(nat \<times> module_callback) settings_manager"
  ld_results :: "'r list"

definition newLoader :: "'r loader" where
  "newLoader = \<lparr>ld_module = None, ld_objects = (\<lambda>_. newModule), ld_settings = newSettingsManager,
     ld_results = []\<rparr>"

text \<open>What the loader needs from outside: the directory, the libraries, the files and the parser.\<close>

record host =
  ho_dir :: "string \<Rightarrow> (string \<times> bool) list res"
  ho_import :: "string \<Rightarrow> string \<Rightarrow> nat option"
  ho_file :: "string \<Rightarrow> string option"
  ho_parse :: "string \<Rightarrow> json option"

definition module_loaded ::
  "(json \<Rightarrow> (string \<Rightarrow> module_callback option) \<Rightarrow>
    (rc \<times> json \<times> (string \<Rightarrow> module_callback option)) res) \<Rightarrow>
   string \<Rightarrow> nat \<Rightarrow> 'r loader \<Rightarrow> 'r loader res" where
  "module_loaded register name i L =
     (let L1 = L\<lparr>ld_module := Some i,
            ld_objects := (ld_objects L)(i := snd (module_init (ld_objects L i)))\<rparr>
      in bind_res (register JNull (\<lambda>_. None)) (\<lambda>(_, moduleRequest, callbackMap).
         bind_res (merge_settings moduleRequest (map_option (Pair i) \<circ> callbackMap) (ld_settings L1)) (\<lambda>(_, S).
           Inr (L1\<lparr>ld_settings := S\<rparr>))))"

fun run_callbacks :: "((nat \<times> module_callback) \<times> json) list \<Rightarrow> (nat \<Rightarrow> module) \<Rightarrow> nat \<Rightarrow> module" where
  "run_callbacks [] objs = objs"
| "run_callbacks (((i, c), d) # calls) objs =
     run_callbacks calls (objs(i := run_callback c (Some d) (objs i)))"

text \<open>The deployment always returns (\<open>deployFile_total\<close>), so \<open>the\<close> gives its result.\<close>

definition modules_loaded :: "host \<Rightarrow> (module option \<Rightarrow> 'r res) \<Rightarrow> 'r loader \<Rightarrow> 'r loader res" where
  "modules_loaded H callback L =
     bind_res (the (deployFile (ho_file H) (ho_parse H) ''settings.json'' (ld_settings L))) (\<lambda>(_, calls).
       let L1 = L\<lparr>ld_objects := run_callbacks calls (ld_objects L)\<rparr> in
       bind_res (callback (map_option (ld_objects L1) (ld_module L1))) (\<lambda>r.
         Inr (L1\<lparr>ld_results := ld_results L1 @ [r]\<rparr>)))"

definition loadModule :: "host \<Rightarrow> string \<Rightarrow> (module option \<Rightarrow> 'r res) \<Rightarrow> (rc \<times> 'r loader) res" where
  "loadModule H moduleDirPath callback =
     bind_res (loadModules (ho_dir H) (ho_import H) (module_loaded registerSettings)
         (modules_loaded H callback) moduleDirPath
         (addModule ''bookfilerHttpModule'' newModuleManager, newLoader))
       (\<lambda>(_, L). Inr (0, L))"

definition ssh_loadModule :: "host \<Rightarrow> string \<Rightarrow> (module option \<Rightarrow> 'r res) \<Rightarrow> (rc \<times> 'r loader) res" where
  "ssh_loadModule H moduleDirPath callback =
     bind_res (loadModules (ho_dir H) (ho_import H) (module_loaded ssh_registerSettings)
         (modules_loaded H callback) moduleDirPath
         (addModule ''bookfilerSshModule'' newModuleManager, newLoader))
       (\<lambda>(_, L). Inr (0, L))"

section \<open>One interface\<close>

abbreviation http_name :: string where
  "http_name \<equiv> ''bookfilerHttpModule''"

lemma load_library_single:
  assumes "mm_interfaceMap mm = [(name, ptrs)]"
  shows "load_library imp loaded loaded_all path (map fst (mm_interfaceMap mm)) (mm, s) =
    (case imp path name of
       None \<Rightarrow> Inr (mm, s)
     | Some m \<Rightarrow> bind_res (loaded name (hd (ptrs @ [m])) s) (\<lambda>s1.
         bind_res (if mm_modulesLoadedNum mm = 0 then loaded_all s1 else Inr s1) (\<lambda>s2.
           Inr (\<lparr>mm_interfaceMap = [(name, ptrs @ [m])],
             mm_modulesLoadedNum = Suc (mm_modulesLoadedNum mm)\<rparr>, s2))))"
  using assms
  by (cases mm) (simp add: smap_find_def addPath_def Let_def split: option.splits)

lemma module_loaded_eq:
  assumes "st_master (ld_settings L) = JObject ms"
  shows "module_loaded registerSettings name i L = Inr (L\<lparr>ld_module := Some i,
    ld_objects := (ld_objects L)(i := ld_objects L i),
    ld_settings := \<lparr>st_master = JObject (ms @ [(''HTTP_accounts'', JString ''HTTP_accountsCB''),
        (''HTTP_settings'', JString ''HTTP_settingsCB'')]), st_freed = st_freed (ld_settings L),
      st_callbacks = cb_insert_range (map_option (Pair i) \<circ> [''HTTP_accountsCB'' \<mapsto> CbSetAccounts,
        ''HTTP_settingsCB'' \<mapsto> CbSetSettings]) (st_callbacks (ld_settings L))\<rparr>\<rparr>)"
proof -
  have "registerSettings JNull (\<lambda>_. None) =
      Inr (0, JObject [(''HTTP_accounts'', JString ''HTTP_accountsCB''),
        (''HTTP_settings'', JString ''HTTP_settingsCB'')],
        [''HTTP_accountsCB'' \<mapsto> CbSetAccounts, ''HTTP_settingsCB'' \<mapsto> CbSetSettings])"
    by (simp add: registerSettings_def add_member_def cb_insert_def)
  with assms show ?thesis
    by (simp add: module_loaded_def Let_def merge_settings_def module_init_def owns_members_def)
qed

text \<open>After the first import the signal of all modules is not called again.\<close>

lemma load_files_later:
  assumes "mm_interfaceMap mm = [(http_name, ptrs)]" "0 < mm_modulesLoadedNum mm"
    and "is_object (st_master (ld_settings L))"
  shows "\<exists>mm' L'. load_files imp (module_loaded registerSettings) loaded_all ps (mm, L) = Inr (mm', L') \<and>
    ld_results L' = ld_results L"
  using assms
proof (induction ps arbitrary: mm ptrs L)
  case Nil
  then show ?case by simp
next
  case (Cons p ps)
  show ?case
  proof (cases "if is_library p then imp (fst p) http_name else None")
    case None
    then have "load_files imp (module_loaded registerSettings) loaded_all (p # ps) (mm, L) =
        load_files imp (module_loaded registerSettings) loaded_all ps (mm, L)"
      by (auto simp: load_library_single [OF Cons.prems(1)] split: if_splits)
    with Cons.IH [OF Cons.prems] show ?thesis by simp
  next
    case (Some m)
    from Cons.prems(3) obtain ms where ms: "st_master (ld_settings L) = JObject ms"
      by (auto simp: is_object_iff)
    let ?mm = "\<lparr>mm_interfaceMap = [(http_name, ptrs @ [m])],
      mm_modulesLoadedNum = Suc (mm_modulesLoadedNum mm)\<rparr>"
    obtain L1 where L1: "module_loaded registerSettings http_name (hd (ptrs @ [m])) L = Inr L1"
        "is_object (st_master (ld_settings L1))" "ld_results L1 = ld_results L"
      using module_loaded_eq [OF ms] by (simp add: is_object_def)
    have "load_files imp (module_loaded registerSettings) loaded_all (p # ps) (mm, L) =
        load_files imp (module_loaded registerSettings) loaded_all ps (?mm, L1)"
      using load_library_single [OF Cons.prems(1), of imp "module_loaded registerSettings" loaded_all
          "fst p" L] Some Cons.prems(2) L1(1)
      by (auto split: if_splits)
    with Cons.IH [of ?mm "ptrs @ [m]" L1] L1 show ?thesis by simp
  qed
qed

text \<open>What the settings file gives the module.\<close>

definition program_settings :: "host \<Rightarrow> module res" where
  "program_settings H =
     (case Option.bind (ho_file H ''settings.json'') (ho_parse H \<circ> c_str) of
        None \<Rightarrow> Inr newModule
      | Some (JObject ss) \<Rightarrow> Inr \<lparr>md_settingsDoc = map_of ss ''HTTP_settings'',
          md_accountsDoc = map_of ss ''HTTP_accounts''\<rparr>
      | Some _ \<Rightarrow> Inl JsonAssert)"

lemma modules_loaded_first:
  "bind_res (module_loaded registerSettings http_name i newLoader) (modules_loaded H callback) =
     bind_res (program_settings H) (\<lambda>m. bind_res (callback (Some m)) (\<lambda>r.
       Inr \<lparr>ld_module = Some i, ld_objects = (\<lambda>_. newModule)(i := m),
         ld_settings = \<lparr>st_master = JObject [(''HTTP_accounts'', JString ''HTTP_accountsCB''),
             (''HTTP_settings'', JString ''HTTP_settingsCB'')], st_freed = [],
           st_callbacks = map_option (Pair i) \<circ> [''HTTP_accountsCB'' \<mapsto> CbSetAccounts,
             ''HTTP_settingsCB'' \<mapsto> CbSetSettings]\<rparr>, ld_results = [r]\<rparr>))"
proof -
  define cb where "cb = map_option (Pair i) \<circ> [''HTTP_accountsCB'' \<mapsto> CbSetAccounts,
    ''HTTP_settingsCB'' \<mapsto> CbSetSettings]"
  define ms where "ms = [(''HTTP_accounts'', JString ''HTTP_accountsCB''),
    (''HTTP_settings'', JString ''HTTP_settingsCB'')]"
  let ?L = "\<lparr>ld_module = Some i, ld_objects = (\<lambda>_. newModule),
    ld_settings = \<lparr>st_master = JObject ms, st_freed = [], st_callbacks = cb\<rparr>, ld_results = []\<rparr>"
  have first: "module_loaded registerSettings http_name i newLoader = Inr ?L"
    using module_loaded_eq [of newLoader "[]" http_name i]
    by (simp add: newLoader_def newSettingsManager_def cb_insert_range_def fun_upd_def comp_def
        cb_def ms_def cong: if_cong)
  define acc where "acc = (\<lambda>a. case a of None \<Rightarrow> [] | Some v \<Rightarrow> [((i, CbSetAccounts), v :: json)])"
  define set where "set = (\<lambda>a. case a of None \<Rightarrow> [] | Some v \<Rightarrow> [((i, CbSetSettings), v :: json)])"
  have c: "cb (c_str ''HTTP_accountsCB'') = Some (i, CbSetAccounts)"
      "cb (c_str ''HTTP_settingsCB'') = Some (i, CbSetSettings)"
    by (simp_all add: c_str_def cb_def)
  have object: "deploy cb (JObject ss) (JObject ms) =
      Some (Inr (acc (map_of ss ''HTTP_accounts'') @ set (map_of ss ''HTTP_settings'')))" for ss
    using deploy_flat [of ms cb ss] c by (simp add: ms_def acc_def set_def split: option.splits)
  have other: "deploy cb d (JObject ms) = Some (Inl JsonAssert)" if "\<not> is_object d" for d
    using that by (cases d) (simp_all add: deploy_def deploy_loop.simps deploy_pair_def ms_def is_object_def)
  have run: "run_callbacks (acc a @ set b) (\<lambda>_. newModule) =
      (\<lambda>_. newModule)(i := \<lparr>md_settingsDoc = b, md_accountsDoc = a\<rparr>)" for a b
    by (cases a; cases b) (simp_all add: acc_def set_def run_callback_def setAccounts_def
        setSettings_def newModule_def fun_upd_def fun_eq_iff)
  have "modules_loaded H callback ?L = bind_res (program_settings H) (\<lambda>m.
      bind_res (callback (Some m)) (\<lambda>r. Inr (?L\<lparr>ld_objects := (\<lambda>_. newModule)(i := m), ld_results := [r]\<rparr>)))"
  proof (cases "Option.bind (ho_file H ''settings.json'') (ho_parse H \<circ> c_str)")
    case None
    then have "deployFile (ho_file H) (ho_parse H) ''settings.json''
        \<lparr>st_master = JObject ms, st_freed = [], st_callbacks = cb\<rparr> = Some (Inr (False, []))"
      by (cases "ho_file H ''settings.json''") (simp_all add: deployFile_def)
    with None show ?thesis
      using run [of None None] by (simp add: modules_loaded_def program_settings_def acc_def set_def newModule_def)
  next
    case (Some d)
    then have D: "deployFile (ho_file H) (ho_parse H) ''settings.json''
        \<lparr>st_master = JObject ms, st_freed = [], st_callbacks = cb\<rparr> =
        map_option (\<lambda>r. bind_res r (\<lambda>calls. Inr (True, calls))) (deploy cb d (JObject ms))"
      by (auto simp: deployFile_def bind_eq_Some_conv reaches_freed_def split: json.splits)
    show ?thesis
      using other [of d] by (cases d) (simp_all add: Some modules_loaded_def D object run program_settings_def
        is_object_def Let_def)
  qed
  then show ?thesis by (simp add: first) (simp add: ms_def cb_def)
qed

definition importable :: "host \<Rightarrow> string \<times> bool \<Rightarrow> bool" where
  "importable H p \<longleftrightarrow> is_library p \<and> ho_import H (fst p) http_name \<noteq> None"

lemma load_files_first:
  fixes callback :: "module option \<Rightarrow> 'r res"
  shows "bind_res (load_files (ho_import H) (module_loaded registerSettings) (modules_loaded H callback) ps
      (addModule http_name newModuleManager, newLoader)) (\<lambda>(_, L). Inr (ld_results L)) =
    (if \<exists>p \<in> set ps. importable H p
     then bind_res (program_settings H) (\<lambda>m. bind_res (callback (Some m)) (\<lambda>r. Inr [r]))
     else Inr [])"
proof (induction ps)
  case Nil
  then show ?case by (simp add: newLoader_def)
next
  case (Cons p ps)
  have start: "mm_interfaceMap (addModule http_name newModuleManager) = [(http_name, [])]"
      "mm_modulesLoadedNum (addModule http_name newModuleManager) = 0"
    by (simp_all add: addModule_def newModuleManager_def)
  note one = load_library_single [OF start(1)]
  show ?case
  proof (cases "importable H p")
    case False
    then show ?thesis
      using Cons.IH by (auto simp: importable_def one split: option.splits)
  next
    case True
    then obtain i where i: "is_library p" "ho_import H (fst p) http_name = Some i"
      by (auto simp: importable_def)
    let ?mm = "\<lparr>mm_interfaceMap = [(http_name, [i])], mm_modulesLoadedNum = Suc 0\<rparr>"
    have lib: "load_library (ho_import H) (module_loaded registerSettings) (modules_loaded H callback)
          (fst p) (map fst (mm_interfaceMap (addModule http_name newModuleManager)))
          (addModule http_name newModuleManager, newLoader) =
        bind_res (bind_res (module_loaded registerSettings http_name i newLoader) (modules_loaded H callback))
          (\<lambda>L. Inr (?mm, L))"
      unfolding one by (simp add: i start bind_res_assoc)
    have later: "bind_res (load_files (ho_import H) (module_loaded registerSettings)
          (modules_loaded H callback) ps (?mm, L)) (\<lambda>(_, L). Inr (ld_results L)) = Inr (ld_results L)"
      if "is_object (st_master (ld_settings L))" for L
      using load_files_later [of ?mm "[i]" L "ho_import H" "modules_loaded H callback" ps] that by auto
    show ?thesis
      using True i(1) by (simp add: lib modules_loaded_first bind_res_assoc later is_object_def)
  qed
qed

lemma load_callback:
  assumes "ho_dir H dir = Inr ps"
  shows "bind_res (loadModule H dir callback) (\<lambda>(rc, L). Inr (ld_results L)) =
    (if \<exists>p \<in> set ps. importable H p
     then bind_res (program_settings H) (\<lambda>m. bind_res (callback (Some m)) (\<lambda>r. Inr [r]))
     else Inr [])"
  using assms load_files_first [of H callback ps]
  by (simp add: loadModule_def loadModules_def bind_res_assoc case_prod_unfold)

lemma loadModule_rc:
  "bind_res (loadModule H dir callback) (\<lambda>(rc, L). Inr (rc, ld_results L)) =
     bind_res (bind_res (loadModule H dir callback) (\<lambda>(rc, L). Inr (ld_results L))) (\<lambda>rs. Inr (0, rs))"
  by (simp add: loadModule_def bind_res_assoc case_prod_unfold)

section \<open>Properties\<close>

text \<open>
  C20. Loading the module runs the program's callback exactly once when some file of the
  directory is a library that exports the module, however many such files there are, and
  not at all otherwise.  The callback sees the module with exactly the two documents that
  the settings file holds under \<open>HTTP_settings\<close> and \<open>HTTP_accounts\<close>; it runs without them
  when the file cannot be opened or parsed, and a file whose root is no object fails
  an assertion.
\<close>

theorem loadModule_runs_callback:
  assumes "ho_dir H dir = Inr ps"
  shows "bind_res (loadModule H dir callback) (\<lambda>(rc, L). Inr (rc, ld_results L)) =
    (if \<exists>p \<in> set ps. importable H p
     then bind_res (program_settings H) (\<lambda>m. bind_res (callback (Some m)) (\<lambda>r. Inr (0, [r])))
     else Inr (0, []))"
  by (simp add: loadModule_rc load_callback [OF assms] bind_res_assoc)

definition example_host :: host where
  "example_host = \<lparr>ho_dir = (\<lambda>_. Inr [(''modules/readme'', True), (''modules/http.so'', True), (''modules/copy.so'', True)]),
     ho_import = (\<lambda>p n. Some 7), ho_file = (\<lambda>_. Some ''{..}''),
     ho_parse = (\<lambda>_. Some (JObject [(''HTTP_settings'', JObject [(''server'', JObject [(''port'', JInt 8081)])])]))\<rparr>"

theorem loadModule_runs_callback_witness:
  "bind_res (loadModule example_host ''modules'' (\<lambda>m. Inr (Option.bind m md_settingsDoc))) (\<lambda>(rc, L). Inr (rc, ld_results L)) =
     Inr (0, [Some (JObject [(''server'', JObject [(''port'', JInt 8081)])])])"
proof -
  have dir: "ho_dir example_host ''modules'' =
      Inr [(''modules/readme'', True), (''modules/http.so'', True), (''modules/copy.so'', True)]"
    by (simp add: example_host_def)
  have "importable example_host (''modules/http.so'', True)"
    by (simp add: importable_def is_library_def example_host_def)
  then show ?thesis
    by (subst loadModule_runs_callback [OF dir])
       (simp add: program_settings_def, simp add: example_host_def)
qed

end
