(* ===== verification/Sites.thy ===== *)
theory Sites
  imports Loader
begin

text \<open>
  The server programs of \<open>src/src_example\<close>: what \<open>allModulesLoaded\<close> of each does up to
  its \<open>wait("exit")\<close>, the functions it routes to, and \<open>main\<close>.  What they do before and after
  the routes is the same in all of them: a certificate is loaded, a server is made and
  given the certificate, and in the end it runs.
\<close>

section \<open>The common frame\<close>

text \<open>
  What the programs need from outside: the signal library, the address parser, the number
  of hardware threads, the memory a new server state has, the readers and writers of PEM
  files, and the TLS context.
\<close>

record 'a outside =
  ou_connector :: connector
  ou_address :: "string \<Rightarrow> 'a res"
  ou_hardware :: nat
  ou_state :: "'a server_state"
  ou_read_x509 :: "string \<Rightarrow> x509 option"
  ou_read_key :: "string \<Rightarrow> nat option"
  ou_read_dh :: "string \<Rightarrow> nat option"
  ou_bio :: bool
  ou_pem_rc :: int
  ou_pem_cert :: "x509 option \<Rightarrow> string option"
  ou_pem_key :: "pkey option \<Rightarrow> string option"
  ou_pem_dh :: "pkey option \<Rightarrow> string option"
  ou_tls :: "ssl_call \<Rightarrow> exn option"

record 'a site =
  si_server :: "'a server_impl"
  si_manager :: manager
  si_cert :: "nat option"
  si_tls :: "ssl_call list"

text \<open>A map made from a braced list of pairs keeps the first value of a key.\<close>

definition smap_init :: "(string \<times> 'v) list \<Rightarrow> 'v smap" where
  "smap_init kvs = foldl (\<lambda>m (k, v). smap_insert k v m) [] kvs"

text \<open>\<open>useCertificate\<close> with a pointer: the cast of a null pointer is null, and a member of it is read.\<close>

definition use_certificate_pointer ::
  "'a outside \<Rightarrow> nat option \<Rightarrow> manager \<Rightarrow> (rc \<times> ssl_call list) res" where
  "use_certificate_pointer E certPtr M =
     (case certPtr of
        None \<Rightarrow> Inl NullDereference
      | Some i \<Rightarrow> useCertificate (ou_tls E)
          (getCertStr (ou_bio E) (ou_pem_rc E) (ou_pem_cert E) (mg_heap M i))
          (getPrivateKeyStr (ou_bio E) (ou_pem_rc E) (ou_pem_key E) (mg_heap M i))
          (getDhStr (ou_bio E) (ou_pem_rc E) (ou_pem_dh E) (mg_heap M i)))"

definition start_site :: "'a outside \<Rightarrow> variant smap \<Rightarrow> module option \<Rightarrow> 'a site res" where
  "start_site E options httpModule =
     (case httpModule of
        None \<Rightarrow> Inl NullDereference
      | Some m \<Rightarrow>
          bind_res (loadCertificate (ou_read_x509 E) (ou_read_key E) (ou_read_dh E) (newCertificateManager m))
            (\<lambda>(_, certRootPtr, M).
          let S = newServer (ou_state E) options m in
          bind_res (use_certificate_pointer E certRootPtr M) (\<lambda>(_, calls).
            Inr \<lparr>si_server = S, si_manager = M, si_cert = certRootPtr, si_tls = calls\<rparr>)))"

definition local_options :: "variant smap" where
  "local_options = smap_init [(''port'', VInt 3000), (''host'', VString ''localhost'')]"

text \<open>Consecutive calls of \<open>route\<close>, each with the method GET, a path and a handler.\<close>

definition get_route :: "string \<Rightarrow> handler \<Rightarrow> route_variant smap" where
  "get_route path h = smap_init
     [(''method'', RString ''GET''), (''path'', RString path), (''handler'', RFun (Some h))]"

fun site_routes :: "'a outside \<Rightarrow> (string \<times> handler) list \<Rightarrow> 'a site \<Rightarrow> 'a site res" where
  "site_routes E [] A = Inr A"
| "site_routes E ((path, h) # rs) A =
     bind_res (server_route (ou_connector E) (get_route path h) (si_server A)) (\<lambda>(_, S).
       site_routes E rs (A\<lparr>si_server := S\<rparr>))"

definition site_run :: "'a outside \<Rightarrow> 'a site \<Rightarrow> 'a site res" where
  "site_run E A = bind_res (server_run (ou_address E) (ou_hardware E) (si_server A)) (\<lambda>(_, S).
     Inr (A\<lparr>si_server := S\<rparr>))"

text \<open>
  \<open>wait("exit")\<close>, the last call of a program's callback: nothing in the repository notifies
  \<open>exit\<close>, so it returns only when the condition variable exits up on its own, \<open>exits\<close>.
  Otherwise the callback does not return, nor does \<open>loadModule\<close>, nor \<open>main\<close>.
\<close>

definition wait_exit :: "bool \<Rightarrow> 'r \<Rightarrow> 'r res" where
  "wait_exit exits r = (if exits then Inr r else Inl Blocks)"

text \<open>\<open>main\<close>: the results of the callback of \<open>loadModule\<close>; its return code is ignored.\<close>

definition run_main :: "host \<Rightarrow> (module option \<Rightarrow> 'r res) \<Rightarrow> (rc \<times> 'r list) res" where
  "run_main H allModulesLoaded =
     bind_res (loadModule H ''modules'' allModulesLoaded) (\<lambda>(_, L). Inr (0, ld_results L))"

section \<open>Minimal server\<close>

definition minimal_handler :: handler where
  "minimal_handler req res = Inr (''Hello World!'', [])"

definition minimal_allModulesLoaded :: "'a outside \<Rightarrow> module option \<Rightarrow> 'a site res" where
  "minimal_allModulesLoaded E httpModule =
     bind_res (start_site E local_options httpModule) (\<lambda>A.
     bind_res (site_routes E [(''/'', minimal_handler)] A) (site_run E))"

definition minimal_main :: "'a outside \<Rightarrow> bool \<Rightarrow> host \<Rightarrow> (rc \<times> 'a site list) res" where
  "minimal_main E exits H = run_main H (\<lambda>m. bind_res (minimal_allModulesLoaded E m) (wait_exit exits))"

section \<open>Server with three pages\<close>

definition index_page :: string where
  "index_page = ''<ul><li><a href=\"/\">Home</a></li><li><a '' @
     ''href=\"/about?code=test code\">About</a></li><li><a '' @
     ''href=\"news\">News</a></li><li><a '' @
     ''href=\"notexist\">Does Not Exist</a></li></ul>''"

definition server_routeHome :: handler where
  "server_routeHome req res = Inr ('''', [OpEnd index_page])"

definition server_routeAbout :: handler where
  "server_routeAbout req res =
     (let bodyStr = ''<h1>About</h1><h2>URL Data</h2><br>Query: '' @ req_getEncodedQuery req
      in Inr (case req_getQuery ''code'' req of
                None \<Rightarrow> bodyStr
              | Some code \<Rightarrow> bodyStr @ ''<br>Code: '' @ code, []))"

definition server_routeNews :: handler where
  "server_routeNews req res = Inr (''Hello World!'', [])"

definition server_allModulesLoaded :: "'a outside \<Rightarrow> module option \<Rightarrow> 'a site res" where
  "server_allModulesLoaded E httpModule =
     bind_res (start_site E local_options httpModule) (\<lambda>A.
     bind_res (site_routes E
         [(''/'', server_routeHome), (''/about'', server_routeAbout), (''/news'', server_routeNews)] A)
       (site_run E))"

definition server_main :: "'a outside \<Rightarrow> bool \<Rightarrow> host \<Rightarrow> (rc \<times> 'a site list) res" where
  "server_main E exits H = run_main H (\<lambda>m. bind_res (server_allModulesLoaded E m) (wait_exit exits))"

section \<open>Complex server\<close>

definition complex_routeHome :: handler where
  "complex_routeHome req res = Inr (''Hello World!'', [])"

definition complex_routeAbout :: handler where
  "complex_routeAbout req res =
     (let bodyStr = ''<h1>About</h1><br><h1>URL Data</h1><br>'' @ req_getEncodedQuery req
      in Inr (case req_getQuery ''code'' req of
                None \<Rightarrow> bodyStr
              | Some code \<Rightarrow> bodyStr @ ''<br>'' @ code, []))"

definition complex_allModulesLoaded :: "'a outside \<Rightarrow> module option \<Rightarrow> 'a site res" where
  "complex_allModulesLoaded E httpModule =
     bind_res (start_site E local_options httpModule) (\<lambda>A.
     bind_res (site_routes E [(''/'', complex_routeHome), (''/about'', complex_routeAbout)] A)
       (site_run E))"

definition complex_main :: "'a outside \<Rightarrow> bool \<Rightarrow> host \<Rightarrow> (rc \<times> 'a site list) res" where
  "complex_main E exits H = run_main H (\<lambda>m. bind_res (complex_allModulesLoaded E m) (wait_exit exits))"

section \<open>Cookies\<close>

text \<open>
  The view of the cookie's value outlives the cookie; the value is empty, so no byte of
  it is read.
\<close>

definition cookie_routeGet :: handler where
  "cookie_routeGet req res =
     Inr (''Get cookie name='' @ cookie_value (req_getCookie ''name'' req), [])"

definition cookie_routeUser :: handler where
  "cookie_routeUser req res = Inr (''User Agent Browser='' @ req_getUserAgentBrowser req, [])"

definition cookie_routeAny :: handler where
  "cookie_routeAny req res =
     Inr (''<h1>Set cookie</h1><br><a href=\"/get\">Get Cookie</a>'',
       [OpSetCookie ''name'' ''value'' []])"

definition cookie_allModulesLoaded :: "'a outside \<Rightarrow> module option \<Rightarrow> 'a site res" where
  "cookie_allModulesLoaded E httpModule =
     bind_res (start_site E local_options httpModule) (\<lambda>A.
     bind_res (site_routes E
         [(''/get'', cookie_routeGet), (''/user'', cookie_routeUser), (''*'', cookie_routeAny)] A)
       (site_run E))"

definition cookie_main :: "'a outside \<Rightarrow> bool \<Rightarrow> host \<Rightarrow> (rc \<times> 'a site list) res" where
  "cookie_main E exits H = run_main H (\<lambda>m. bind_res (cookie_allModulesLoaded E m) (wait_exit exits))"

section \<open>User agent\<close>

definition userAgent_handler :: handler where
  "userAgent_handler req res = Inr (''User Agent Browser='' @ req_getUserAgentBrowser req, [])"

definition userAgent_allModulesLoaded :: "'a outside \<Rightarrow> module option \<Rightarrow> 'a site res" where
  "userAgent_allModulesLoaded E httpModule =
     bind_res (start_site E local_options httpModule) (\<lambda>A.
     bind_res (site_routes E [(''*'', userAgent_handler)] A) (site_run E))"

definition userAgent_main :: "'a outside \<Rightarrow> bool \<Rightarrow> host \<Rightarrow> (rc \<times> 'a site list) res" where
  "userAgent_main E exits H = run_main H (\<lambda>m. bind_res (userAgent_allModulesLoaded E m) (wait_exit exits))"

section \<open>Templates\<close>

text \<open>
  The pages are rendered from a file with a context of one name; the document read before
  is merged, which does nothing.  The file system and the renderer are arguments.
\<close>

definition template_page ::
  "(string \<Rightarrow> string option) \<Rightarrow> (string \<Rightarrow> (string \<Rightarrow> string option) \<Rightarrow> string) \<Rightarrow> module \<Rightarrow>
   string \<Rightarrow> handler" where
  "template_page fs render m path req res =
     (case json_readFile fs ''resources/templates/in.json'' of
        None \<Rightarrow> Inr ('''', [])
      | Some jsonDoc \<Rightarrow>
          let t0 = newTemplate m;
              t1 = snd (template_readFile fs path t0);
              t2 = snd (mergeDataDocument jsonDoc t1);
              t3 = snd (addContext ''href'' ''href=\"{{url}}\"'' t2);
              t4 = snd (template_parse render t3)
          in Inr (template_toString t4, []))"

definition template_routeHome ::
  "(string \<Rightarrow> string option) \<Rightarrow> (string \<Rightarrow> (string \<Rightarrow> string option) \<Rightarrow> string) \<Rightarrow> module \<Rightarrow> handler" where
  "template_routeHome fs render m = template_page fs render m ''resources/www/index.html''"

definition template_routeAbout :: handler where
  "template_routeAbout req res =
     (let bodyStr = ''<h1>About</h1><br><h1>URL Data</h1><br>'' @ req_getEncodedQuery req
      in Inr (case req_getQuery ''code'' req of
                None \<Rightarrow> bodyStr
              | Some code \<Rightarrow> bodyStr @ ''<br>'' @ code, []))"

definition template_routeCSS ::
  "(string \<Rightarrow> string option) \<Rightarrow> (string \<Rightarrow> (string \<Rightarrow> string option) \<Rightarrow> string) \<Rightarrow> module \<Rightarrow> handler" where
  "template_routeCSS fs render m = template_page fs render m ''resources/www/static/nicepage.css''"

definition template_route404 ::
  "(string \<Rightarrow> string option) \<Rightarrow> (string \<Rightarrow> (string \<Rightarrow> string option) \<Rightarrow> string) \<Rightarrow> module \<Rightarrow> handler" where
  "template_route404 fs render m = template_page fs render m ''resources/www/index.html''"

definition template_allModulesLoaded ::
  "(string \<Rightarrow> string option) \<Rightarrow> (string \<Rightarrow> (string \<Rightarrow> string option) \<Rightarrow> string) \<Rightarrow>
   'a outside \<Rightarrow> module option \<Rightarrow> 'a site res" where
  "template_allModulesLoaded fs render E httpModule =
     bind_res (start_site E local_options httpModule) (\<lambda>A.
     (case httpModule of
        None \<Rightarrow> Inl NullDereference
      | Some m \<Rightarrow>
          bind_res (site_routes E
            [(''/'', template_routeHome fs render m), (''/Home.html'', template_routeHome fs render m),
             (''/about'', template_routeAbout), (''/static/nicepage.css'', template_routeCSS fs render m),
             (''*'', template_route404 fs render m)] A) (site_run E)))"

definition template_main ::
  "(string \<Rightarrow> string option) \<Rightarrow> (string \<Rightarrow> (string \<Rightarrow> string option) \<Rightarrow> string) \<Rightarrow>
   'a outside \<Rightarrow> bool \<Rightarrow> host \<Rightarrow> (rc \<times> 'a site list) res" where
  "template_main fs render E exits H =
     run_main H (\<lambda>m. bind_res (template_allModulesLoaded fs render E m) (wait_exit exits))"

section \<open>What a started site is\<close>

lemma get_route_options:
  "route_options_of (get_route path h) route_defaults =
     \<lparr>ro_function = Some (Some h), ro_method = ''GET'', ro_path = path, ro_priority = 10\<rparr>"
  by (simp add: get_route_def smap_init_def route_option_def route_defaults_def)

text \<open>What \<open>useCertificate\<close> asked of the TLS context when it returns.\<close>

lemma ssl_calls_Inr: "ssl_calls ctx cs = Inr done \<longleftrightarrow> done = cs \<and> (\<forall>c \<in> set cs. ctx c = None)"
  by (induction cs arbitrary: "done") (auto simp: bind_res_Inr_iff split: option.splits)

lemma useCertificate_Inr:
  assumes "useCertificate ctx cert key dh = Inr (rc, calls)"
  shows "case (cert, key, dh) of
      (Some c, Some k, Some d) \<Rightarrow>
        calls = [SetPasswordCallback ''test'', SetOptions, UseCertificateChain c, UsePrivateKey k, UseTmpDh d] \<and>
        (\<forall>c \<in> set calls. ctx c = None)
    | _ \<Rightarrow> calls = []"
  using assms by (auto simp: useCertificate_def bind_res_Inr_iff ssl_calls_Inr split: option.splits)

lemma site_routes_register:
  "site_routes E rs A = Inr (A\<lparr>si_server := (si_server A)\<lparr>sv_router :=
     register_all (ou_connector E) (get_routes rs) (sv_router (si_server A))\<rparr>\<rparr>)"
proof (induction E rs A rule: site_routes.induct)
  case (1 E A)
  then show ?case by (simp add: get_routes_def register_all_def)
next
  case (2 E path h rs A)
  let ?S = "(si_server A)\<lparr>sv_router := snd (getAdd (ou_connector E) path 10 (Some h) (sv_router (si_server A)))\<rparr>"
  have "server_route (ou_connector E) (get_route path h) (si_server A) = Inr (0, ?S)"
    by (simp add: server_route_def get_route_options Let_def)
  with 2 show ?case
    by (simp add: get_routes_def register_all_def)
qed

lemma site_run_router:
  "site_run E A = Inr B \<Longrightarrow> sv_router (si_server B) = sv_router (si_server A)"
  by (auto simp: site_run_def bind_res_Inr_iff server_run_def Let_def)

lemma start_site_router:
  "start_site E opts m = Inr A \<Longrightarrow> sv_router (si_server A) = newRouteImpl"
  by (auto simp: start_site_def bind_res_Inr_iff Let_def newServer_def server_setSettingsDoc_def
      newServerImpl_def split: option.splits)

lemma site_router:
  assumes "bind_res (start_site E opts m) (\<lambda>A. bind_res (site_routes E rs A) (site_run E)) = Inr B"
  shows "sv_router (si_server B) = register_all (ou_connector E) (get_routes rs) newRouteImpl"
  using assms start_site_router site_run_router
  by (fastforce simp: bind_res_Inr_iff site_routes_register)

text \<open>The handler a site with these routes picks for a path.\<close>

lemma site_slots:
  assumes "bind_res (start_site E opts m) (\<lambda>A. bind_res (site_routes E rs A) (site_run E)) = Inr B"
    and "connects_at_back (ou_connector E)" "distinct (map fst rs)"
  shows "slots_at (sv_router (si_server B)) p = map_option (\<lambda>h. [(10, Some h)])
    (case map_of rs p of Some h \<Rightarrow> Some h | None \<Rightarrow> map_of rs ''*'')"
  using slots_at_get_routes [OF assms(2,3)] site_router [OF assms(1)] by simp

section \<open>A concrete surrounding\<close>

definition example_outside :: "unit outside" where
  "example_outside = \<lparr>ou_connector = group_insert, ou_address = (\<lambda>_. Inr ()), ou_hardware = 2,
     ou_state = newServerState 0 0 0 (),
     ou_read_x509 = (\<lambda>p. if p = ''cert.pem'' then Some X509_new else None),
     ou_read_key = (\<lambda>p. if p = ''key.pem'' then Some 1 else None),
     ou_read_dh = (\<lambda>p. if p = ''dh.pem'' then Some 2 else None), ou_bio = True, ou_pem_rc = 1,
     ou_pem_cert = (\<lambda>_. Some ''CERT''), ou_pem_key = (\<lambda>_. Some ''KEY''), ou_pem_dh = (\<lambda>_. Some ''DH''),
     ou_tls = (\<lambda>_. None)\<rparr>"

definition example_settings :: json where
  "example_settings = JObject [(''server'', JObject [(''address'', JString ''0.0.0.0''), (''port'', JInt 8081),
     (''threadNum'', JInt 2), (''certPath'', JString ''cert.pem''), (''privateKeyPath'', JString ''key.pem''),
     (''dhKeyPath'', JString ''dh.pem'')])]"

definition example_module :: module where
  "example_module = \<lparr>md_settingsDoc = Some example_settings, md_accountsDoc = None\<rparr>"

lemma example_start:
  "start_site example_outside local_options (Some example_module) =
     Inr \<lparr>si_server = (newServerImpl (newServerState 0 0 0 ()))\<lparr>sv_settings := Some example_settings\<rparr>,
       si_manager = \<lparr>mg_heap = (\<lambda>_. newCertificateImpl)(0 := newCertificateImpl\<lparr>certX509 := Some X509_new,
           privateKey := Some (Key 1), dhKey := Some (Key 2)\<rparr>), mg_next = 1, mg_root = None, mg_server = None,
         mg_settings = Some example_settings\<rparr>,
       si_cert = Some 0,
       si_tls = [SetPasswordCallback ''test'', SetOptions, UseCertificateChain ''CERT'', UsePrivateKey ''KEY'',
         UseTmpDh ''DH'']\<rparr>"
  by (simp add: start_site_def example_module_def example_outside_def example_settings_def
      newCertificateManager_def manager_setSettingsDoc_def newManager_def loadCertificate_def is_object_def
      has_member_def member_def typed_member_def as_string_def c_str_def Let_def newServer_def
      server_setSettingsDoc_def use_certificate_pointer_def useCertificate_def getCertStr_def
      getPrivateKeyStr_def getDhStr_def pem_text_def)

lemma example_site_run:
  "sv_settings (si_server A) = Some example_settings \<Longrightarrow> \<exists>B. site_run example_outside A = Inr B"
  by (simp add: site_run_def server_run_def extractSettings_def example_settings_def is_object_def
      has_member_def member_def getMemberString_def getMemberInt_def typed_member_def as_string_def
      as_int_def int_ok_def c_str_def Let_def example_outside_def)

lemma example_site:
  "\<exists>A. bind_res (start_site example_outside local_options (Some example_module))
     (\<lambda>A. bind_res (site_routes example_outside rs A) (site_run example_outside)) = Inr A"
  by (simp add: example_start site_routes_register) (rule example_site_run, simp)

lemma program_run:
  assumes "ho_dir H ''modules'' = Inr ps" "\<exists>p \<in> set ps. importable H p" "program_settings H = Inr md"
    and "callback (Some md) = Inr A"
  shows "run_main H (\<lambda>m. bind_res (callback m) (wait_exit exits)) = (if exits then Inr (0, [A]) else Inl Blocks)"
proof -
  have "bind_res (loadModule H ''modules'' (\<lambda>m. bind_res (callback m) (wait_exit exits))) (\<lambda>(rc, L). Inr (ld_results L)) =
      (if exits then Inr [A] else Inl Blocks)"
    using load_callback [OF assms(1), of "\<lambda>m. bind_res (callback m) (wait_exit exits)"] assms(2-4)
    by (simp add: wait_exit_def)
  then show ?thesis
    by (cases "loadModule H ''modules'' (\<lambda>m. bind_res (callback m) (wait_exit exits))")
       (auto simp: run_main_def split: if_splits)
qed

lemma example_extract:
  "extractSettings (ou_address example_outside) (md_settingsDoc example_module) (ou_state example_outside) =
     Inr (0, \<lparr>ss_port = 8081, ss_threadsNum = 2, ss_portInt = 8081, ss_address = (), ss_docRootStr = [],
       ss_addressStr = ''0.0.0.0''\<rparr>)"
  by (simp add: extractSettings_def example_settings_def example_module_def is_object_def
      has_member_def member_def getMemberString_def getMemberInt_def typed_member_def as_string_def
      as_int_def int_ok_def c_str_def Let_def example_outside_def newServerState_def ushort_def)

definition program_host :: host where
  "program_host = \<lparr>ho_dir = (\<lambda>_. Inr [(''modules/http.so'', True)]), ho_import = (\<lambda>_ _. Some 0),
     ho_file = (\<lambda>p. if p = ''settings.json'' then Some ''{..}'' else None),
     ho_parse = (\<lambda>_. Some (JObject [(''HTTP_settings'', example_settings)]))\<rparr>"

section \<open>Properties\<close>

text \<open>The page of the server with three pages, as status and body.\<close>

definition server_page :: "request_impl \<Rightarrow> nat option \<times> string" where
  "server_page r =
     (if req_path r = ''/'' then (Some 200, index_page)
      else if req_path r = ''/about'' then (Some 200, ''<h1>About</h1><h2>URL Data</h2><br>Query: '' @
        req_getEncodedQuery r @ (case req_getQuery ''code'' r of None \<Rightarrow> '''' | Some c \<Rightarrow> ''<br>Code: '' @ c))
      else if req_path r = ''/news'' then (Some 200, ''Hello World!'')
      else (Some 404, ''The resource '' @ [CHR 0x27] @ req_path r @ [CHR 0x27] @ '' was not found.''))"

lemma server_site_response:
  assumes "server_allModulesLoaded E m = Inr A" "connects_at_back (ou_connector E)" "parsed L q = Inr r"
  shows "\<exists>x. response_for L (sv_router (si_server A)) q = Inr x \<and> (rs_result x, rs_body x) = server_page r"
proof -
  have slots: "slots_at (sv_router (si_server A)) (req_path r) =
      (if req_path r = ''/'' then Some [(10, Some server_routeHome)]
       else if req_path r = ''/about'' then Some [(10, Some server_routeAbout)]
       else if req_path r = ''/news'' then Some [(10, Some server_routeNews)] else None)"
    using site_slots [OF assms(1) [unfolded server_allModulesLoaded_def] assms(2)] by simp
  consider "req_path r = ''/''" | "req_path r = ''/about''" | "req_path r = ''/news''"
    | "slots_at (sv_router (si_server A)) (req_path r) = None"
      "req_path r \<noteq> ''/''" "req_path r \<noteq> ''/about''" "req_path r \<noteq> ''/news''"
    using slots by (auto split: if_splits)
  then show ?thesis
  proof cases
    case 1
    with slots response_of_ended [OF _ assms(3)] show ?thesis
      by (simp add: server_routeHome_def server_page_def fill_response_def)
  next
    case 2
    with slots response_of_returned [OF _ assms(3)] show ?thesis
      by (simp add: server_routeAbout_def server_page_def fill_response_def Let_def split: option.splits)
  next
    case 3
    with slots response_of_returned [OF _ assms(3)] show ?thesis
      by (simp add: server_routeNews_def server_page_def fill_response_def)
  next
    case 4
    with response_of_nobody [OF _ assms(3)] show ?thesis
      by (simp add: server_page_def notFound_def fill_response_def)
  qed
qed

text \<open>
  The cookie example neither sets nor shows a cookie: whatever headers a request has,
  every response carries exactly the server and content type fields and no
  cookie, the page that should show the cookie ends after the equals sign, and the page
  for all other paths is the same text.
\<close>

theorem cookie_site_without_cookies:
  assumes "cookie_allModulesLoaded E m = Inr A" "connects_at_back (ou_connector E)" "parsed L q = Inr r"
  shows "\<exists>x. response_for L (sv_router (si_server A)) q = Inr x \<and>
    rs_set x = [(FServer, beast_version L), (FContentType, ''text/html'')] \<and>
    rs_result x = Some 200 \<and>
    rs_body x = (if req_path r = ''/get'' then ''Get cookie name=''
      else if req_path r = ''/user'' then ''User Agent Browser='' @ ri_browser r
      else ''<h1>Set cookie</h1><br><a href=\"/get\">Get Cookie</a>'')"
proof -
  let ?h = "if req_path r = ''/get'' then cookie_routeGet
    else if req_path r = ''/user'' then cookie_routeUser else cookie_routeAny"
  have slots: "slots_at (sv_router (si_server A)) (req_path r) = Some [(10, Some ?h)]"
    using site_slots [OF assms(1) [unfolded cookie_allModulesLoaded_def] assms(2)] by simp
  let ?res = "newResponseImpl\<lparr>rp_beast := Some fresh_response\<rparr>"
  have r: "ri_beast r = Some q" by (rule parsed_beast [OF assms(3)])
  show ?thesis
    using slots assms(3) r
    by (simp add: response_for_def answered_def call_slot_def Let_def apply_op_def res_setCookie_def
        cookie_routeGet_def cookie_routeUser_def cookie_routeAny_def req_getCookie_def cookie_value_def
        newCookie_def req_getUserAgentBrowser_def newResponseImpl_def fill_response_def fresh_response_def)
qed

theorem cookie_site_without_cookies_witness:
  "\<exists>A x. cookie_allModulesLoaded example_outside (Some example_module) = Inr A \<and>
     response_for example_lib (sv_router (si_server A)) example_request = Inr x \<and>
     rs_body x = ''<h1>Set cookie</h1><br><a href=\"/get\">Get Cookie</a>''"
proof -
  obtain A where A: "cookie_allModulesLoaded example_outside (Some example_module) = Inr A"
    using example_site unfolding cookie_allModulesLoaded_def by blast
  obtain r where r: "parsed example_lib example_request = Inr r" "req_path r = ''/hi''"
    using example_parsed by blast
  have "connects_at_back (ou_connector example_outside)"
    using group_insert_at_back by (simp add: example_outside_def)
  from cookie_site_without_cookies [OF A this r(1)] A r(2) show ?thesis
    by (intro exI [of _ A]) auto
qed

text \<open>
  The user agent example answers every request to every path with one and the same
  page: the browser it names is the one the library finds in a fixed text, not the one that
  sent the request.
\<close>

theorem user_agent_page_is_constant:
  assumes "userAgent_allModulesLoaded E m = Inr A" "connects_at_back (ou_connector E)"
    and "newUserAgentImpl L = Inr b" "parsed L q = Inr r"
  shows "\<exists>x. response_for L (sv_router (si_server A)) q = Inr x \<and> rs_result x = Some 200 \<and>
    rs_body x = ''User Agent Browser='' @ b"
proof -
  have slots: "slots_at (sv_router (si_server A)) (req_path r) = Some [(10, Some userAgent_handler)]"
    using site_slots [OF assms(1) [unfolded userAgent_allModulesLoaded_def] assms(2)] by simp
  have "ri_browser r = b"
    using assms(3,4) by (auto simp: parsed_def newRequestImpl_def bind_res_Inr_iff parseRequest_eq)
  then show ?thesis
    using response_of_returned [OF slots assms(4)]
    by (simp add: userAgent_handler_def req_getUserAgentBrowser_def fill_response_def)
qed

theorem user_agent_page_is_constant_witness:
  "\<exists>A x. userAgent_allModulesLoaded example_outside (Some example_module) = Inr A \<and>
     response_for example_lib (sv_router (si_server A)) example_request = Inr x \<and>
     rs_body x = ''User Agent Browser=Chrome''"
proof -
  obtain A where A: "userAgent_allModulesLoaded example_outside (Some example_module) = Inr A"
    using example_site unfolding userAgent_allModulesLoaded_def by blast
  obtain r where r: "parsed example_lib example_request = Inr r" "req_path r = ''/hi''"
    using example_parsed by blast
  have "connects_at_back (ou_connector example_outside)"
    using group_insert_at_back by (simp add: example_outside_def)
  moreover have "newUserAgentImpl example_lib = Inr ''Chrome''"
    by (simp add: newUserAgentImpl_def example_lib_def)
  ultimately show ?thesis
    using user_agent_page_is_constant [OF A _ _ r(1)] A by (intro exI [of _ A]) auto
qed

text \<open>
  C39. The template example renders one page for every path but two: the home page, the
  second home page and each path that does not exist all show the index file, rendered with
  the name of the context in place of its value and with no value of the JSON
  document; the status of a missing page is 200.
\<close>

theorem template_site_pages:
  assumes "template_allModulesLoaded fs render E m = Inr A" "connects_at_back (ou_connector E)"
    and "parsed L q = Inr r" "req_path r \<noteq> ''/about''"
  shows "\<exists>x. response_for L (sv_router (si_server A)) q = Inr x \<and> rs_result x = Some 200 \<and>
    rs_body x = render
      (readFile fs (if req_path r = ''/static/nicepage.css'' then ''resources/www/static/nicepage.css''
        else ''resources/www/index.html''))
      [''test'' \<mapsto> ''value test'', ''href'' \<mapsto> ''href'']"
proof -
  from assms(1) obtain md where m: "m = Some md"
    by (cases m) (auto simp: template_allModulesLoaded_def start_site_def)
  let ?p = "if req_path r = ''/static/nicepage.css'' then ''resources/www/static/nicepage.css''
    else ''resources/www/index.html''"
  have site: "bind_res (start_site E local_options m) (\<lambda>A. bind_res (site_routes E
      [(''/'', template_routeHome fs render md), (''/Home.html'', template_routeHome fs render md),
       (''/about'', template_routeAbout), (''/static/nicepage.css'', template_routeCSS fs render md),
       (''*'', template_route404 fs render md)] A) (site_run E)) = Inr A"
    using assms(1) m by (simp add: template_allModulesLoaded_def)
  have slots: "slots_at (sv_router (si_server A)) (req_path r) = Some [(10, Some (template_page fs render md ?p))]"
    using site_slots [OF site assms(2), of "req_path r"] assms(4)
    by (simp add: template_routeHome_def template_routeCSS_def template_route404_def)
  show ?thesis
    by (rule exI, rule conjI, rule response_of_returned [OF slots assms(3)])
       (simp_all add: template_page_def json_readFile_def Let_def newTemplate_def template_setSettingsDoc_def
         newTemplateImpl_def template_readFile_def mergeDataDocument_def addContext_def template_parse_def
         template_toString_def fill_response_def)
qed

theorem template_site_pages_witness:
  "\<exists>A x. template_allModulesLoaded (\<lambda>_. Some ''text'') (\<lambda>t d. t @ the (d ''href'')) example_outside
       (Some example_module) = Inr A \<and>
     response_for example_lib (sv_router (si_server A)) example_request = Inr x \<and>
     rs_body x = ''texthref''"
proof -
  let ?f = "template_allModulesLoaded (\<lambda>_. Some ''text'') (\<lambda>t d. t @ the (d ''href'')) example_outside"
  obtain A where A: "?f (Some example_module) = Inr A"
    using example_site unfolding template_allModulesLoaded_def option.case by blast
  obtain r where r: "parsed example_lib example_request = Inr r" "req_path r = ''/hi''"
    using example_parsed by blast
  have "connects_at_back (ou_connector example_outside)"
    using group_insert_at_back by (simp add: example_outside_def)
  from template_site_pages [OF A this r(1)] r(2) obtain x where
      "response_for example_lib (sv_router (si_server A)) example_request = Inr x" "rs_body x = ''texthref''"
    by (auto simp: readFile_def)
  with A show ?thesis by (intro exI [of _ A]) simp
qed

text \<open>
  C22. A server program that gets past \<open>useCertificate\<close> had a settings document whose
  \<open>server\<close> object names files that hold a certificate, a key and Diffie Hellman parameters,
  and the certificate object holds these three.  The TLS context then took the password, the
  options and the texts of the certificate, the key and the parameters, each in the call for
  it and in this order; only when one of the texts cannot be written was the context left
  untouched, and the program goes on without a certificate.
\<close>

theorem started_site_has_certificate:
  assumes "start_site E opts httpModule = Inr A"
  shows "\<exists>m doc ss x k d i. httpModule = Some m \<and> md_settingsDoc m = Some (JObject doc) \<and>
    map_of doc ''server'' = Some (JObject ss) \<and>
    ou_read_x509 E (case_option [] id (Option.bind (map_of ss ''certPath'') as_string)) = Some x \<and>
    ou_read_key E (case_option [] id (Option.bind (map_of ss ''privateKeyPath'') as_string)) = Some k \<and>
    ou_read_dh E (case_option [] id (Option.bind (map_of ss ''dhKeyPath'') as_string)) = Some d \<and>
    si_cert A = Some i \<and> certX509 (mg_heap (si_manager A) i) = Some x \<and>
    privateKey (mg_heap (si_manager A) i) = Some (Key k) \<and> dhKey (mg_heap (si_manager A) i) = Some (Key d) \<and>
    (case (pem_text (ou_bio E) (ou_pem_rc E) (ou_pem_cert E (Some x)),
           pem_text (ou_bio E) (ou_pem_rc E) (ou_pem_key E (Some (Key k))),
           pem_text (ou_bio E) (ou_pem_rc E) (ou_pem_dh E (Some (Key d)))) of
       (Some cert, Some key, Some dh) \<Rightarrow>
         si_tls A = [SetPasswordCallback ''test'', SetOptions, UseCertificateChain cert, UsePrivateKey key, UseTmpDh dh] \<and>
         (\<forall>c \<in> set (si_tls A). ou_tls E c = None)
     | _ \<Rightarrow> si_tls A = [])"
proof -
  from assms obtain m where m: "httpModule = Some m" by (cases httpModule) (simp_all add: start_site_def)
  let ?load = "loadCertificate (ou_read_x509 E) (ou_read_key E) (ou_read_dh E) (newCertificateManager m)"
  from assms m obtain rc p M rc' where load: "?load = Inr (rc, p, M)"
      and use: "use_certificate_pointer E p M = Inr (rc', si_tls A)" and A: "si_manager A = M" "si_cert A = p"
    by (auto simp: start_site_def bind_res_Inr_iff Let_def)
  from use obtain i where p: "p = Some i"
    by (cases p) (simp_all add: use_certificate_pointer_def)
  from loadCertificate_Some [OF load [unfolded p]] obtain doc ss x k d where l:
      "mg_settings (newCertificateManager m) = Some (JObject doc)" "map_of doc ''server'' = Some (JObject ss)"
      "ou_read_x509 E (case_option [] id (Option.bind (map_of ss ''certPath'') as_string)) = Some x"
      "ou_read_key E (case_option [] id (Option.bind (map_of ss ''privateKeyPath'') as_string)) = Some k"
      "ou_read_dh E (case_option [] id (Option.bind (map_of ss ''dhKeyPath'') as_string)) = Some d"
      "certX509 (mg_heap M i) = Some x" "privateKey (mg_heap M i) = Some (Key k)" "dhKey (mg_heap M i) = Some (Key d)"
    by auto
  have "useCertificate (ou_tls E) (pem_text (ou_bio E) (ou_pem_rc E) (ou_pem_cert E (Some x)))
      (pem_text (ou_bio E) (ou_pem_rc E) (ou_pem_key E (Some (Key k))))
      (pem_text (ou_bio E) (ou_pem_rc E) (ou_pem_dh E (Some (Key d)))) = Inr (rc', si_tls A)"
    using use by (simp add: p use_certificate_pointer_def getCertStr_def getPrivateKeyStr_def getDhStr_def l(6-8))
  note tls = useCertificate_Inr [OF this]
  have s: "md_settingsDoc m = Some (JObject doc)"
    using l(1) by (simp add: newCertificateManager_def manager_setSettingsDoc_def newManager_def)
  show ?thesis
    using tls by (intro exI [of _ m] exI [of _ doc] exI [of _ ss] exI [of _ x] exI [of _ k] exI [of _ d] exI [of _ i] conjI)
      (simp_all only: m s l(2-8) A p simp_thms)
qed

theorem started_site_has_certificate_witness:
  "\<exists>A i. start_site example_outside local_options (Some example_module) = Inr A \<and>
     si_cert A = Some i \<and> certX509 (mg_heap (si_manager A) i) = Some X509_new \<and>
     si_tls A = [SetPasswordCallback ''test'', SetOptions, UseCertificateChain ''CERT'', UsePrivateKey ''KEY'', UseTmpDh ''DH'']"
proof -
  obtain A where A: "start_site example_outside local_options (Some example_module) = Inr A"
    using example_start by blast
  from started_site_has_certificate [OF A] A show ?thesis
    by (intro exI [of _ A]) (auto simp: example_outside_def pem_text_def split: if_splits)
qed

end
