(* ===== verification/OAuth.thy ===== *)
theory OAuth
  imports Sites
begin

text \<open>
  The client programs of \<open>src/src_example\<close>: \<open>http-client-json\<close>, which prints one JSON
  document, and \<open>oauth2-google\<close>, whose main thread waits for what the browser sends to its
  own server, exchanges the code for tokens and waits again.
\<close>

section \<open>Printing a JSON document\<close>

text \<open>Up to the call of \<open>wait("exit")\<close>: the text printed, or the return code of an early return.\<close>

datatype client_outcome = Finished rc | Printed string

record net =
  ne_lib :: lib
  ne_request :: http_request
  ne_exchange :: "string \<Rightarrow> http_request \<Rightarrow> (nat \<times> string) res"
  ne_json :: "string \<Rightarrow> json option"
  ne_pretty :: "json \<Rightarrow> string"
  ne_thread :: string

definition json_client_options :: "variant smap" where
  "json_client_options = smap_init [(''host'', VString ''data.nba.net''),
     (''path'', VString ''/prod/v1/20170201/0021600732_boxscore.json''),
     (''scheme'', VString ''http''), (''method'', VString ''GET'')]"

definition json_client_allModulesLoaded :: "net \<Rightarrow> module option \<Rightarrow> client_outcome res" where
  "json_client_allModulesLoaded N httpModule =
     (case httpModule of
        None \<Rightarrow> Inl NullDereference
      | Some m \<Rightarrow>
          bind_res (newClientMap (ne_lib N) (ne_request N) json_client_options m) (\<lambda>C.
          bind_res (client_end (ne_exchange N) (ne_json N) (snd (client_setMethod ''GET'' C))) (\<lambda>(rc, C1).
            if rc < 0 then Inr (Finished (-1))
            else (case getResponseJson C1 of
                    None \<Rightarrow> Inr (Finished 0)
                  | Some jsonDoc \<Rightarrow> Inr (Printed (c_str (ne_pretty N jsonDoc)))))))"

text \<open>A program that returns early does not wait.\<close>

definition json_client_main :: "net \<Rightarrow> bool \<Rightarrow> host \<Rightarrow> (rc \<times> client_outcome list) res" where
  "json_client_main N exits H = run_main H (\<lambda>m. bind_res (json_client_allModulesLoaded N m) (\<lambda>c.
     case c of Finished rc \<Rightarrow> Inr c | Printed s \<Rightarrow> wait_exit exits c))"

section \<open>The route of the OAuth example\<close>

text \<open>The global variables that the route and the main thread share.\<close>

record oauth_globals =
  og_authCode :: string
  og_userId :: string
  og_accessToken :: string
  og_refreshToken :: string

definition oauth_globals_init :: oauth_globals where
  "oauth_globals_init = \<lparr>og_authCode = [], og_userId = [], og_accessToken = [], og_refreshToken = []\<rparr>"

text \<open>The call of the API with the access token: what it appends to the page.\<close>

definition messages_call ::
  "net \<Rightarrow> module \<Rightarrow> oauth_globals \<Rightarrow> string \<Rightarrow> string res" where
  "messages_call N m g resultsNum =
     (let baseUrl = ''https://gmail.googleapis.com/gmail/v1/users/'' @ og_userId g @ ''/messages'' in
      bind_res (newClient (ne_lib N) (ne_request N) m) (\<lambda>C0.
      bind_res (client_setURL baseUrl C0) (\<lambda>(_, C1).
      bind_res (client_setHeader (smap_init [(''Authorization'', ''Bearer '' @ og_accessToken g),
          (''Accept'', ''application/json'')])
        (snd (client_setQuery (smap_init [(''maxResults'', resultsNum)]) C1))) (\<lambda>(_, C2).
      bind_res (client_end (ne_exchange N) (ne_json N) (snd (client_setMethod ''GET'' C2))) (\<lambda>(rc, C3).
        if rc < 0 then Inr (''Could not access webpage by HTTP'' @ [CHR 0x0A])
        else (case getResponseJson C3 of
                None \<Rightarrow> Inr ''JSON response not valid''
              | Some jsonDoc \<Rightarrow> Inr (''<br>THREAD '' @ ne_thread N @
                  ''<br><br>allModulesLoaded jsonDoc PrettyWriter:<br><pre>'' @
                  c_str (ne_pretty N jsonDoc) @ ''</pre>'')))))))"

text \<open>
  \<open>routeAll\<close>: the page, the handles it notifies in their order, and the globals it leaves.
\<close>

definition routeAll ::
  "net \<Rightarrow> module \<Rightarrow> oauth_globals \<Rightarrow> request_impl \<Rightarrow> (string \<times> string list \<times> oauth_globals) res" where
  "routeAll N m g req =
     (let bodyStr = ''<h1>Google OAUTH2 Example</h1>'' in
      case req_getQuery ''userId'' req of
        Some user \<Rightarrow>
          let g1 = g\<lparr>og_userId := user\<rparr>;
              body1 = bodyStr @ ''<br>userId='' @ og_userId g1 @
                ''<form action=\"/\" method=\"GET\"><label for=\"resultNum\">Results:</label><br><input '' @
                ''type=\"text\" id=\"resultNum\" name=\"resultNum\" value=\"20\"><br><input type=\"hidden\" '' @
                ''name=\"messagesPage\" value=\"1\"><input type=\"hidden\" name=\"userId\" value=\"'' @
                og_userId g1 @ ''\"><input type=\"submit\" value=\"Submit\"></form>''
          in (case req_getQuery ''messagesPage'' req of
                Some _ \<Rightarrow>
                  bind_res (messages_call N m g1
                    (case req_getQuery ''resultNum'' req of None \<Rightarrow> ''20'' | Some n \<Rightarrow> n)) (\<lambda>part.
                      Inr (body1 @ part, [''userId''], g1))
              | None \<Rightarrow> Inr (body1 @ ''<br>path: '' @ req_path req, [''userId''], g1))
      | None \<Rightarrow>
          (case req_getQuery ''code'' req of
             Some code \<Rightarrow>
               let g1 = g\<lparr>og_authCode := code\<rparr> in
               Inr (bodyStr @ ''<br>code='' @ og_authCode g1 @
                 ''<form action=\"/\" method=\"GET\"><label for=\"userId\">Google User ID (Email address):</label><br><input '' @
                 ''type=\"text\" id=\"userId\" name=\"userId\" value=\"\"><br><input type=\"submit\" value=\"Submit\"></form>'' @
                 ''<br>path: '' @ req_path req, [''auth''], g1)
           | None \<Rightarrow>
               Inr (bodyStr @ ''<br>Error: Code not received'' @ ''<br>path: '' @ req_path req, [], g)))"

section \<open>The main thread of the OAuth example\<close>

text \<open>
  Before the first \<open>wait\<close>: the server runs before its route is added; the handler that is
  stored is given as \<open>h\<close>, its effect on the globals is \<open>routeAll\<close>.
\<close>

definition oauth_site :: "'a outside \<Rightarrow> handler \<Rightarrow> module option \<Rightarrow> 'a site res" where
  "oauth_site E h httpModule =
     bind_res (start_site E [] httpModule) (\<lambda>A.
     bind_res (site_run E A) (site_routes E [(''/'', h)]))"

definition client_id :: string where
  "client_id = ''854776203850-r64s69l8jmh71ugiio16impqfcp80j1m.apps.'' @ ''googleusercontent.com''"

definition oauth_authUrl :: "module \<Rightarrow> string res" where
  "oauth_authUrl m =
     bind_res (newUrl (smap_init [(''host'', VString ''accounts.google.com''),
         (''path'', VString ''/o/oauth2/v2/auth''), (''scheme'', VString ''https'')]) m) (\<lambda>u.
       Inr (url_url (snd (url_setQuery (smap_init [(''client_id'', client_id),
         (''scope'', ''https://mail.google.com/''), (''response_type'', ''code''),
         (''redirect_uri'', ''https://localhost:8081''), (''test'', ''/*&op=4$@'')]) u))))"

definition windowOpenCommand :: "string \<Rightarrow> string" where
  "windowOpenCommand url = ''explorer \"'' @ url @ ''\"''"

text \<open>The request for the tokens.\<close>

definition token_query :: "string \<Rightarrow> string smap" where
  "token_query code = smap_init [(''client_id'', client_id),
     (''client_secret'', ''18e_rRNMBIJOJ0jWUthY7RKp''), (''grant_type'', ''authorization_code''),
     (''redirect_uri'', ''https://localhost:8081''), (''code'', code)]"

definition token_client :: "net \<Rightarrow> module \<Rightarrow> string \<Rightarrow> client_impl res" where
  "token_client N m code =
     bind_res (newClientMap (ne_lib N) (ne_request N) (smap_init [(''host'', VString ''oauth2.googleapis.com''),
         (''path'', VString ''/token''), (''scheme'', VString ''https''), (''method'', VString ''POST'')]) m) (\<lambda>C.
     bind_res (client_setHeader (smap_init [(''Content-Length'', ''0'')])
         (snd (client_setQuery (token_query code) C))) (\<lambda>(_, C1). Inr C1))"

text \<open>
  Where the main thread is: on its way to one of its three calls of \<open>wait\<close>, asleep in it, or woken
  up.  Between the first two it holds the client with the request for the tokens.
\<close>

datatype oauth_phase =
    ToAuth
  | WaitAuth
  | GotAuth
  | Exchanging client_impl
  | ToUserId
  | WaitUserId
  | GotUserId
  | WaitExit
  | GotExit
  | MainReturned rc

text \<open>From the answer to the request to \<open>wait("userId")\<close>.  A member that is a string
  replaces the token of its name.\<close>

definition take_tokens :: "json \<Rightarrow> oauth_globals \<Rightarrow> oauth_globals res" where
  "take_tokens jsonDoc g =
     bind_res (typed_member as_string jsonDoc ''access_token'') (\<lambda>a.
     bind_res (typed_member as_string jsonDoc ''refresh_token'') (\<lambda>r.
     let g1 = (case a of None \<Rightarrow> g | Some s \<Rightarrow> g\<lparr>og_accessToken := s\<rparr>) in
       Inr (case r of None \<Rightarrow> g1 | Some s \<Rightarrow> g1\<lparr>og_refreshToken := s\<rparr>)))"

definition take_reply :: "net \<Rightarrow> client_impl \<Rightarrow> oauth_globals \<Rightarrow> (oauth_phase \<times> oauth_globals) res" where
  "take_reply N C g =
     bind_res (client_end (ne_exchange N) (ne_json N) C) (\<lambda>(rc, C1).
       if rc < 0 then Inr (MainReturned (-1), g)
       else (case getResponseJson C1 of
               None \<Rightarrow> Inr (MainReturned 0, g)
             | Some jsonDoc \<Rightarrow>
                 if \<not> is_object jsonDoc then Inr (MainReturned (-1), g)
                 else bind_res (take_tokens jsonDoc g) (\<lambda>g1. Inr (ToUserId, g1))))"

text \<open>From the return of \<open>wait("auth")\<close> to \<open>wait("userId")\<close>, with no request in between.\<close>

definition after_auth :: "net \<Rightarrow> module \<Rightarrow> oauth_globals \<Rightarrow> (oauth_phase \<times> oauth_globals) res" where
  "after_auth N m g = bind_res (token_client N m (og_authCode g)) (\<lambda>C. take_reply N C g)"

text \<open>One stretch of the main thread; asleep it does nothing.\<close>

definition main_runs ::
  "net \<Rightarrow> module \<Rightarrow> oauth_phase \<times> oauth_globals \<Rightarrow> (oauth_phase \<times> oauth_globals) res" where
  "main_runs N m s =
     (case fst s of
        ToAuth \<Rightarrow> Inr (WaitAuth, snd s)
      | GotAuth \<Rightarrow> bind_res (token_client N m (og_authCode (snd s))) (\<lambda>C. Inr (Exchanging C, snd s))
      | Exchanging C \<Rightarrow> take_reply N C (snd s)
      | ToUserId \<Rightarrow> Inr (WaitUserId, snd s)
      | GotUserId \<Rightarrow> Inr (WaitExit, snd s)
      | GotExit \<Rightarrow> Inr (MainReturned 0, snd s)
      | _ \<Rightarrow> Inr s)"

definition waits_for :: "oauth_phase \<Rightarrow> string option" where
  "waits_for p = (case p of WaitAuth \<Rightarrow> Some ''auth'' | WaitUserId \<Rightarrow> Some ''userId''
     | WaitExit \<Rightarrow> Some ''exit'' | _ \<Rightarrow> None)"

definition woken :: "oauth_phase \<Rightarrow> oauth_phase" where
  "woken p = (case p of WaitAuth \<Rightarrow> GotAuth | WaitUserId \<Rightarrow> GotUserId | WaitExit \<Rightarrow> GotExit | _ \<Rightarrow> p)"

text \<open>
  One event: a request of the browser, whose notification wakes the main thread when it sleeps
  on that handle and is lost otherwise; a spurious wake-up; or a stretch of the main thread.
  The accesses of the two threads to the global strings are not synchronised in the
  code; here a request and a stretch exclude each other.
\<close>

datatype oauth_event = Browser request_impl | SpuriousWake | MainRuns

definition oauth_step ::
  "net \<Rightarrow> module \<Rightarrow> oauth_phase \<times> oauth_globals \<Rightarrow> oauth_event \<Rightarrow> (oauth_phase \<times> oauth_globals) res" where
  "oauth_step N m s ev =
     (case ev of
        Browser req \<Rightarrow>
          bind_res (routeAll N m (snd s) req) (\<lambda>(_, notified, g).
            Inr (if waits_for (fst s) \<in> Some ` set notified then woken (fst s) else fst s, g))
      | SpuriousWake \<Rightarrow> Inr (woken (fst s), snd s)
      | MainRuns \<Rightarrow> main_runs N m s)"

fun oauth_run ::
  "net \<Rightarrow> module \<Rightarrow> oauth_phase \<times> oauth_globals \<Rightarrow> oauth_event list \<Rightarrow> (oauth_phase \<times> oauth_globals) res" where
  "oauth_run N m s [] = Inr s"
| "oauth_run N m s (ev # evs) = bind_res (oauth_step N m s ev) (\<lambda>s1. oauth_run N m s1 evs)"

section \<open>What the clients send\<close>

lemma url_setQuery_parts:
  assumes "url_inv (base u)"
  shows "encoded_path (base (snd (url_setQuery m u))) = encoded_path (base u)"
    "encoded_host (base (snd (url_setQuery m u))) = encoded_host (base u)"
    "query (snd (url_setQuery m u)) = snd (query_setQuery m (query u))"
  using assms
  by (auto simp: url_setQuery_def Let_def encoded_path_def encoded_host_def ub.get_put
      dest!: set_encoded_query_Inr split: sum.splits)

lemma smap_wf_init: "smap_wf (smap_init kvs)"
proof -
  have "smap_wf m \<Longrightarrow> smap_wf (foldl (\<lambda>m (k, v). smap_insert k v m) m kvs)" for m
    by (induction kvs arbitrary: m) (auto simp: smap_wf_insert)
  then show ?thesis by (simp add: smap_init_def smap_wf_Nil)
qed

lemma map_client_parts:
  assumes "newRequestImpl L = Inr r0"
    and "client_options (split_amp L) opts ([], newUrlImpl) = Inr (method, u)" "scheme (base u) \<noteq> []"
  shows "newClientMap L q0 opts m = Inr \<lparr>cl_settings = md_settingsDoc m, cl_url = u, cl_method = method,
    cl_CaInfoPath = [], cl_skipPeerVerification = None, cl_skipHostnameVerification = None,
    cl_request = r0\<lparr>ri_beast := Some q0\<rparr>, cl_responseBeast = 0, cl_responseStr = (0, []),
    cl_responseJson = None\<rparr>"
  using assms by (simp add: newClientMap_def newClientImplMap_def client_parts_def req_setRequest_def
      client_setSettingsDoc_def)

lemma json_client_parts:
  "\<exists>u. client_options split json_client_options ([], newUrlImpl) = Inr (''GET'', u) \<and>
     encoded_host (base u) = ''data.nba.net'' \<and> scheme (base u) \<noteq> [] \<and> query u = newQueryImpl \<and>
     encoded_path (base u) = ''/prod/v1/20170201/0021600732_boxscore.json''"
proof -
  have "case client_options split json_client_options ([], newUrlImpl) of Inl _ \<Rightarrow> False
    | Inr (m, u) \<Rightarrow> m = ''GET'' \<and> encoded_host (base u) = ''data.nba.net'' \<and> scheme (base u) \<noteq> [] \<and>
        queryMap (query u) = [] \<and> queryEncodedStr (query u) = [] \<and>
        encoded_path (base u) = ''/prod/v1/20170201/0021600732_boxscore.json''"
    by code_simp
  then show ?thesis
    by (auto split: sum.splits simp: newQueryImpl_def)
qed

lemma token_options_parts:
  "\<exists>u. client_options split (smap_init [(''host'', VString ''oauth2.googleapis.com''),
       (''path'', VString ''/token''), (''scheme'', VString ''https''), (''method'', VString ''POST'')])
       ([], newUrlImpl) = Inr (''POST'', u) \<and>
     encoded_host (base u) = ''oauth2.googleapis.com'' \<and> scheme (base u) \<noteq> [] \<and> query u = newQueryImpl \<and>
     encoded_path (base u) = ''/token'' \<and> url_inv (base u)"
proof -
  have "case client_options split (smap_init [(''host'', VString ''oauth2.googleapis.com''),
       (''path'', VString ''/token''), (''scheme'', VString ''https''), (''method'', VString ''POST'')])
       ([], newUrlImpl) of Inl _ \<Rightarrow> False
    | Inr (m, u) \<Rightarrow> m = ''POST'' \<and> encoded_host (base u) = ''oauth2.googleapis.com'' \<and>
        scheme (base u) \<noteq> [] \<and> queryMap (query u) = [] \<and> queryEncodedStr (query u) = [] \<and>
        encoded_path (base u) = ''/token'' \<and> url_inv (base u)"
    by code_simp
  then show ?thesis
    by (auto split: sum.splits simp: newQueryImpl_def)
qed

text \<open>The request that a client with these members writes.\<close>

definition token_request :: "http_request \<Rightarrow> string \<Rightarrow> http_request" where
  "token_request q0 code = q0\<lparr>rq_method := VPost, rq_method_string := ''POST'',
     rq_target := ''/token?'' @ flattenQueryMap \<lparr>queryMap = token_query code, queryEncodedStr = []\<rparr>,
     rq_keep_alive := Some False,
     rq_set := rq_set q0 @ [(FName ''Content-Length'', ''0''), (FHost, ''oauth2.googleapis.com'')]\<rparr>"

lemma token_client_request:
  assumes "newRequestImpl (ne_lib N) = Inr r0"
  shows "\<exists>C q1. token_client N m code = Inr C \<and> req_getRequest (cl_request C) = Some q1 \<and>
    prepare_request C q1 = token_request (ne_request N) code \<and>
    url_getEncodedHost (cl_url C) = ''oauth2.googleapis.com'' \<and> cl_responseJson C = None"
proof -
  obtain u where u: "client_options (split_amp (ne_lib N)) (smap_init [(''host'', VString ''oauth2.googleapis.com''),
       (''path'', VString ''/token''), (''scheme'', VString ''https''), (''method'', VString ''POST'')])
       ([], newUrlImpl) = Inr (''POST'', u)"
      "encoded_host (base u) = ''oauth2.googleapis.com''" "scheme (base u) \<noteq> []" "query u = newQueryImpl"
      "encoded_path (base u) = ''/token''" "url_inv (base u)"
    using token_options_parts by blast
  have h: "smap_init [(''Content-Length'', ''0'')] = [(''Content-Length'', ''0'')]"
    by (simp add: smap_init_def)
  show ?thesis
    using map_client_parts [OF assms u(1,3), of "ne_request N" m] url_setQuery_parts [OF u(6), of "token_query code"]
    by (simp add: token_client_def client_setQuery_def client_setHeader_def req_setHeader_def h
        prepare_request_def Let_def token_request_def url_target_def url_getEncodedQuery_def
        query_getEncodedQuery_def query_setQuery_def url_getEncodedHost_def req_getRequest_def u
        flattenQueryMap_def)
qed

section \<open>Properties\<close>

text \<open>
  The JSON client sends one GET request to the host of its map, with the path of
  its map; it prints the document exactly when the status is 200 and the body parses, and
  ends with 0 otherwise: the branch that returns -1 is never taken.  Although the map asks for
  the scheme http, the exchange looks the host up for the service https, and when that fails
  the program ends with the exception.
\<close>

theorem json_client_prints:
  assumes "newRequestImpl (ne_lib N) = Inr r0"
  shows "\<exists>q. rq_method q = VGet \<and> rq_target q = ''/prod/v1/20170201/0021600732_boxscore.json?'' \<and>
    (FHost, ''data.nba.net'') \<in> set (rq_set q) \<and>
    json_client_allModulesLoaded N (Some m) = bind_res (ne_exchange N ''data.nba.net'' q) (\<lambda>(status, body).
      Inr (case (if status = 200 then ne_json N (c_str body) else None) of
             None \<Rightarrow> Finished 0
           | Some doc \<Rightarrow> Printed (c_str (ne_pretty N doc)))) \<and>
    (\<forall>T e. ne_exchange N = tls_exchange T \<longrightarrow> tn_resolve T ''data.nba.net'' ''https'' = Inl e \<longrightarrow>
      json_client_allModulesLoaded N (Some m) = Inl e)"
proof -
  obtain u where u: "client_options (split_amp (ne_lib N)) json_client_options ([], newUrlImpl) = Inr (''GET'', u)"
      "encoded_host (base u) = ''data.nba.net''" "scheme (base u) \<noteq> []" "query u = newQueryImpl"
      "encoded_path (base u) = ''/prod/v1/20170201/0021600732_boxscore.json''"
    using json_client_parts by blast
  let ?C = "\<lparr>cl_settings = md_settingsDoc m, cl_url = u, cl_method = ''GET'', cl_CaInfoPath = [],
    cl_skipPeerVerification = None, cl_skipHostnameVerification = None,
    cl_request = r0\<lparr>ri_beast := Some (ne_request N)\<rparr>, cl_responseBeast = 0, cl_responseStr = (0, []),
    cl_responseJson = None\<rparr>"
  let ?q = "prepare_request ?C (ne_request N)"
  have q: "rq_method ?q = VGet" "rq_target ?q = ''/prod/v1/20170201/0021600732_boxscore.json?''"
      "(FHost, ''data.nba.net'') \<in> set (rq_set ?q)"
    by (simp_all add: prepare_request_def Let_def url_target_def url_getEncodedQuery_def
        query_getEncodedQuery_def newQueryImpl_def url_getEncodedHost_def u)
  have "json_client_allModulesLoaded N (Some m) = bind_res (ne_exchange N ''data.nba.net'' ?q) (\<lambda>(status, body).
      Inr (case (if status = 200 then ne_json N (c_str body) else None) of
             None \<Rightarrow> Finished 0
           | Some doc \<Rightarrow> Printed (c_str (ne_pretty N doc))))"
    using map_client_parts [OF assms u(1,3), of "ne_request N" m]
    by (cases "ne_exchange N ''data.nba.net'' ?q")
       (auto simp: json_client_allModulesLoaded_def client_setMethod_def client_end_def req_getRequest_def
         Let_def getResponseJson_def url_getEncodedHost_def u(2) split: option.splits)
  moreover from this have "json_client_allModulesLoaded N (Some m) = Inl e"
    if "ne_exchange N = tls_exchange T" "tn_resolve T ''data.nba.net'' ''https'' = Inl e" for T e
    using that by (simp add: tls_exchange_def client_connect_def)
  ultimately show ?thesis using q by blast
qed

definition example_net :: net where
  "example_net = \<lparr>ne_lib = example_lib, ne_request = example_request,
     ne_exchange = (\<lambda>h q. Inr (200, ''{}'')),
     ne_json = (\<lambda>s. Some (JObject [(''access_token'', JString ''tok'')])), ne_pretty = (\<lambda>_. ''{ }''),
     ne_thread = ''1''\<rparr>"

lemma example_net_request: "\<exists>r0. newRequestImpl (ne_lib example_net) = Inr r0"
  by (simp add: example_net_def newRequestImpl_def newUserAgentImpl_def example_lib_def)

theorem json_client_prints_witness:
  "json_client_allModulesLoaded example_net (Some newModule) = Inr (Printed ''{ }'')"
proof -
  obtain r0 where "newRequestImpl (ne_lib example_net) = Inr r0" using example_net_request by blast
  from json_client_prints [OF this, of newModule] show ?thesis
    by (auto simp: example_net_def c_str_def)
qed

text \<open>
  C24. The main thread exchanges the authorization code with one POST request to the token host,
  whose query holds the five parameters, the code among them.  The token server is not part of
  the repository; two kinds of reader are covered.  \<open>QueryImpl\<close> of this module reads the five
  parameters back, whatever bytes the code has.  A server that reads the query as form fields
  gets each value with its plus signs turned into blanks, so it gets the code exactly when it has
  no plus.  The tokens are taken over from a JSON object, and the thread goes on to the user only
  then.
\<close>

theorem token_exchange:
  assumes "newRequestImpl (ne_lib N) = Inr r0" "splits_at (CHR ''&'') split"
  shows "\<exists>q s q'. rq_method q = VPost \<and> rq_target q = ''/token?'' @ s \<and>
    query_setEncodedQuery split s newQueryImpl = Inr (0, q') \<and> queryMap q' = token_query (og_authCode g) \<and>
    query_getQuery ''code'' q' = Some (og_authCode g) \<and>
    form_fields s = map (\<lambda>(k, v). (plus_to_blank k, plus_to_blank v)) (token_query (og_authCode g)) \<and>
    (map_of (form_fields s) ''code'' = Some (og_authCode g) \<longleftrightarrow> CHR ''+'' \<notin> set (og_authCode g)) \<and>
    after_auth N m g = bind_res (ne_exchange N ''oauth2.googleapis.com'' q) (\<lambda>(status, body).
      case (if status = 200 then ne_json N (c_str body) else None) of
        None \<Rightarrow> Inr (MainReturned 0, g)
      | Some doc \<Rightarrow> if is_object doc then bind_res (take_tokens doc g) (\<lambda>g1. Inr (ToUserId, g1))
          else Inr (MainReturned (-1), g))"
proof -
  let ?code = "og_authCode g"
  let ?q = "token_request (ne_request N) ?code"
  let ?s = "query_getEncodedQuery (snd (query_setQuery (token_query ?code) newQueryImpl))"
  obtain C q1 where C: "token_client N m ?code = Inr C" "req_getRequest (cl_request C) = Some q1"
      "prepare_request C q1 = ?q" "url_getEncodedHost (cl_url C) = ''oauth2.googleapis.com''"
      "cl_responseJson C = None"
    using token_client_request [OF assms(1)] by blast
  have wf: "smap_wf (token_query ?code)" "token_query ?code \<noteq> []"
    "smap_find (token_query ?code) ''code'' = Some ?code"
    by (simp_all only: token_query_def smap_wf_init) (simp_all add: smap_init_def smap_find_def)
  have t: "rq_target ?q = ''/token?'' @ ?s" "rq_method ?q = VPost"
    by (simp_all add: token_request_def query_setQuery_def query_getEncodedQuery_def Let_def flattenQueryMap_def)
  have s: "?s = join_with (CHR ''&'') (map field_part (token_query ?code))"
    by (simp add: query_setQuery_def query_getEncodedQuery_def Let_def flattenQueryMap_join)
  have form: "form_fields ?s = map (\<lambda>(k, v). (plus_to_blank k, plus_to_blank v)) (token_query ?code)"
    unfolding s by (rule form_fields_flatten [OF wf(2)])
  have plus: "map_of (form_fields ?s) ''code'' = Some ?code \<longleftrightarrow> CHR ''+'' \<notin> set ?code"
    unfolding form by (simp add: token_query_def smap_init_def plus_to_blank_eq)
  have "query_setEncodedQuery split ?s newQueryImpl = Inr (0, snd (query_setQuery (token_query ?code) newQueryImpl))"
    by (rule flattened_map_parses [OF assms(2) wf(1,2)])
  moreover have "after_auth N m g = bind_res (ne_exchange N ''oauth2.googleapis.com'' ?q) (\<lambda>(status, body).
      case (if status = 200 then ne_json N (c_str body) else None) of
        None \<Rightarrow> Inr (MainReturned 0, g)
      | Some doc \<Rightarrow> if is_object doc then bind_res (take_tokens doc g) (\<lambda>g1. Inr (ToUserId, g1))
          else Inr (MainReturned (-1), g))"
    by (cases "ne_exchange N ''oauth2.googleapis.com'' ?q")
       (auto simp: after_auth_def take_reply_def C client_end_def Let_def getResponseJson_def split: option.splits)
  ultimately show ?thesis
    using t wf(3) form plus
    by (intro exI [of _ ?q] exI [of _ ?s] exI [of _ "snd (query_setQuery (token_query ?code) newQueryImpl)"])
       (simp add: query_setQuery_def query_getQuery_def Let_def)
qed

theorem token_exchange_witness:
  "after_auth example_net newModule (oauth_globals_init\<lparr>og_authCode := ''4/0&x=''\<rparr>) =
     Inr (ToUserId, oauth_globals_init\<lparr>og_authCode := ''4/0&x='', og_accessToken := ''tok''\<rparr>)"
proof -
  obtain r0 where r0: "newRequestImpl (ne_lib example_net) = Inr r0" using example_net_request by blast
  from token_exchange [OF this split_on_splits, of "oauth_globals_init\<lparr>og_authCode := ''4/0&x=''\<rparr>" newModule]
  show ?thesis
    by (auto simp: example_net_def is_object_def take_tokens_def typed_member_object as_string_def c_str_def)
qed

lemma routeAll_notifies:
  assumes "routeAll N m g req = Inr (body, notified, g1)"
  shows "(\<exists>user. req_getQuery ''userId'' req = Some user \<and> notified = [''userId''] \<and> g1 = g\<lparr>og_userId := user\<rparr>) \<or>
    (\<exists>code. req_getQuery ''userId'' req = None \<and> req_getQuery ''code'' req = Some code \<and>
      notified = [''auth''] \<and> g1 = g\<lparr>og_authCode := code\<rparr>) \<or>
    (notified = [] \<and> g1 = g)"
  using assms by (auto simp: routeAll_def Let_def bind_res_Inr_iff split: option.splits)

definition delivers_code :: "oauth_event \<Rightarrow> bool" where
  "delivers_code ev = (case ev of
     Browser req \<Rightarrow> req_getQuery ''userId'' req = None \<and> req_getQuery ''code'' req \<noteq> None
   | _ \<Rightarrow> False)"

definition delivers_user :: "oauth_event \<Rightarrow> bool" where
  "delivers_user ev = (case ev of Browser req \<Rightarrow> req_getQuery ''userId'' req \<noteq> None | _ \<Rightarrow> False)"

definition past_auth :: "oauth_phase \<Rightarrow> bool" where
  "past_auth p \<longleftrightarrow> p \<noteq> ToAuth \<and> p \<noteq> WaitAuth"

definition past_user :: "oauth_phase \<Rightarrow> bool" where
  "past_user p \<longleftrightarrow> p = GotUserId \<or> p = WaitExit \<or> p = GotExit"

text \<open>What takes a sleeping thread on: the delivery it waits for, or nothing at all.\<close>

definition causes :: "(oauth_event \<Rightarrow> bool) \<Rightarrow> oauth_event \<Rightarrow> bool" where
  "causes delivers ev \<longleftrightarrow> ev = SpuriousWake \<or> delivers ev"

lemmas oauth_phase_simps = past_auth_def past_user_def waits_for_def woken_def

lemma take_reply_phase: "take_reply N C g = Inr (p, g1) \<Longrightarrow> p = ToUserId \<or> (\<exists>rc. p = MainReturned rc)"
  by (auto simp: take_reply_def bind_res_Inr_iff split: if_splits option.splits)

lemma main_runs_phase:
  assumes "main_runs N m (p, g) = Inr (p1, g1)"
  shows "(past_auth p1 \<longrightarrow> past_auth p) \<and> (past_user p1 \<longrightarrow> past_user p) \<and> (p1 = GotExit \<longrightarrow> p = GotExit)"
  using assms
  by (cases p) (auto simp: main_runs_def oauth_phase_simps bind_res_Inr_iff dest: take_reply_phase)

lemma browser_phase:
  assumes "oauth_step N m (p, g) (Browser req) = Inr (p1, g1)"
  shows "p1 = p \<or> p = WaitAuth \<and> p1 = GotAuth \<and> delivers_code (Browser req) \<or>
    p = WaitUserId \<and> p1 = GotUserId \<and> delivers_user (Browser req)"
proof -
  obtain body notified where "routeAll N m g req = Inr (body, notified, g1)"
      "p1 = (if waits_for p \<in> Some ` set notified then woken p else p)"
    using assms by (auto simp: oauth_step_def bind_res_Inr_iff)
  with routeAll_notifies [of N m g req body notified g1] show ?thesis
    by (cases p) (auto simp: oauth_phase_simps delivers_code_def delivers_user_def)
qed

lemma oauth_step_phase:
  assumes "oauth_step N m (p, g) ev = Inr (p1, g1)"
  shows "past_auth p1 \<longrightarrow> past_auth p \<or> p = WaitAuth \<and> causes delivers_code ev"
    and "past_user p1 \<longrightarrow> past_user p \<or> p = WaitUserId \<and> causes delivers_user ev"
    and "p1 = GotExit \<longrightarrow> p = GotExit \<or> p = WaitExit \<and> ev = SpuriousWake"
  using assms browser_phase [of N m p g _ p1 g1] main_runs_phase [of N m p g p1 g1]
  by (cases ev; auto simp: oauth_step_def oauth_phase_simps causes_def split: oauth_phase.splits)+

lemma oauth_run_append:
  "oauth_run N m s (xs @ ys) = bind_res (oauth_run N m s xs) (\<lambda>s1. oauth_run N m s1 ys)"
  by (induction xs arbitrary: s) (simp_all add: bind_res_assoc)

lemma oauth_waits_for_exit:
  "oauth_run N m (WaitExit, h) later = Inr (p', g') \<Longrightarrow> SpuriousWake \<notin> set later \<Longrightarrow> p' = WaitExit"
proof (induction later arbitrary: h)
  case (Cons ev later)
  then obtain p1 g1 where s: "oauth_step N m (WaitExit, h) ev = Inr (p1, g1)"
      "oauth_run N m (p1, g1) later = Inr (p', g')"
    by (auto simp: bind_res_Inr_iff)
  have "p1 = WaitExit"
    using s(1) Cons.prems(2) browser_phase [of N m WaitExit h _ p1 g1]
    by (cases ev) (auto simp: oauth_step_def main_runs_def)
  with s Cons show ?case by auto
qed simp

text \<open>The event that took the main thread on: what it was, and where the thread was.\<close>

definition woke_at ::
  "net \<Rightarrow> module \<Rightarrow> oauth_globals \<Rightarrow> oauth_event list \<Rightarrow> (oauth_event \<Rightarrow> bool) \<Rightarrow> oauth_phase \<Rightarrow> nat \<Rightarrow> bool" where
  "woke_at N m g0 evs cause p i \<longleftrightarrow> i < length evs \<and> cause (evs ! i) \<and>
     (\<exists>g. oauth_run N m (ToAuth, g0) (take i evs) = Inr (p, g))"

lemma woke_at_snoc: "woke_at N m g0 evs d p i \<Longrightarrow> woke_at N m g0 (evs @ [ev]) d p i"
  by (auto simp: woke_at_def nth_append)

lemma woke_at_last:
  "oauth_run N m (ToAuth, g0) evs = Inr (p, g) \<Longrightarrow> d ev \<Longrightarrow> woke_at N m g0 (evs @ [ev]) d p (length evs)"
  by (simp add: woke_at_def)

lemma oauth_history:
  assumes "oauth_run N m (ToAuth, g0) evs = Inr (p, g)"
  shows "(past_auth p \<longrightarrow> (\<exists>i. woke_at N m g0 evs (causes delivers_code) WaitAuth i)) \<and>
    (past_user p \<longrightarrow> (\<exists>i j. i < j \<and> woke_at N m g0 evs (causes delivers_code) WaitAuth i \<and>
      woke_at N m g0 evs (causes delivers_user) WaitUserId j)) \<and>
    (p = GotExit \<longrightarrow> (\<exists>k. woke_at N m g0 evs (\<lambda>ev. ev = SpuriousWake) WaitExit k))"
  using assms
proof (induction evs arbitrary: p g rule: rev_induct)
  case Nil
  then show ?case by (simp add: oauth_phase_simps)
next
  case (snoc ev evs)
  then obtain p1 g1 where s: "oauth_run N m (ToAuth, g0) evs = Inr (p1, g1)"
      "oauth_step N m (p1, g1) ev = Inr (p, g)"
    by (auto simp: oauth_run_append bind_res_Inr_iff)
  have IH: "past_auth p1 \<longrightarrow> (\<exists>i. woke_at N m g0 evs (causes delivers_code) WaitAuth i)"
      "past_user p1 \<longrightarrow> (\<exists>i j. i < j \<and> woke_at N m g0 evs (causes delivers_code) WaitAuth i \<and>
        woke_at N m g0 evs (causes delivers_user) WaitUserId j)"
      "p1 = GotExit \<longrightarrow> (\<exists>k. woke_at N m g0 evs (\<lambda>ev. ev = SpuriousWake) WaitExit k)"
    using snoc.IH [OF s(1)] by simp_all
  note step = oauth_step_phase [OF s(2)]
  have "\<exists>i. woke_at N m g0 (evs @ [ev]) (causes delivers_code) WaitAuth i" if "past_auth p"
    using step(1) that IH(1) woke_at_snoc woke_at_last [where d = "causes delivers_code", OF s(1)] by metis
  moreover have "\<exists>i j. i < j \<and> woke_at N m g0 (evs @ [ev]) (causes delivers_code) WaitAuth i \<and>
      woke_at N m g0 (evs @ [ev]) (causes delivers_user) WaitUserId j" if "past_user p"
  proof (cases "past_user p1")
    case True
    with IH(2) woke_at_snoc show ?thesis by metis
  next
    case False
    with step(2) that have user: "p1 = WaitUserId" "causes delivers_user ev" by blast+
    then obtain i where i: "woke_at N m g0 evs (causes delivers_code) WaitAuth i"
      using IH(1) by (auto simp: past_auth_def)
    moreover from i have "i < length evs" by (simp add: woke_at_def)
    ultimately show ?thesis
      using woke_at_snoc [OF i] woke_at_last [where d = "causes delivers_user", OF s(1) user(2)] user(1) by blast
  qed
  moreover have "\<exists>k. woke_at N m g0 (evs @ [ev]) (\<lambda>ev. ev = SpuriousWake) WaitExit k" if "p = GotExit"
    using step(3) that IH(3) woke_at_snoc woke_at_last [where d = "\<lambda>ev. ev = SpuriousWake", OF s(1)] by metis
  ultimately show ?case by blast
qed

text \<open>
  C23. Under every interleaving of requests, spurious wake-ups and stretches of the main
  thread, the thread passes its first \<open>wait\<close> only because the browser delivered a code, or the
  condition variable woke up on its own, while the thread slept there; and its second one only
  because a user name was delivered later, or there was such a wake-up, while it slept
  there: a request that comes before the thread sleeps is lost.  No request takes it past the third
  one, since nothing notifies \<open>exit\<close>: without a further spurious wake-up it waits there for ever.
\<close>

theorem oauth_progress:
  assumes "oauth_run N m (ToAuth, g0) evs = Inr (p, g)"
  shows "(past_auth p \<longrightarrow> (\<exists>i. woke_at N m g0 evs (causes delivers_code) WaitAuth i)) \<and>
    (past_user p \<longrightarrow> (\<exists>i j. i < j \<and> woke_at N m g0 evs (causes delivers_code) WaitAuth i \<and>
      woke_at N m g0 evs (causes delivers_user) WaitUserId j)) \<and>
    (p = GotExit \<longrightarrow> (\<exists>k. woke_at N m g0 evs (\<lambda>ev. ev = SpuriousWake) WaitExit k)) \<and>
    (p = WaitExit \<longrightarrow> (\<forall>later p' g'. SpuriousWake \<notin> set later \<longrightarrow>
      oauth_run N m (p, g) later = Inr (p', g') \<longrightarrow> p' = WaitExit))"
  using oauth_history [OF assms] oauth_waits_for_exit by blast

definition example_browser :: "string \<Rightarrow> string \<Rightarrow> request_impl" where
  "example_browser key val = fst (example_store 0)\<lparr>ri_url :=
     newUrlImpl\<lparr>query := newQueryImpl\<lparr>queryMap := [(key, val)]\<rparr>\<rparr>\<rparr>"

lemma example_browser_query: "req_getQuery k (example_browser key val) = (if k = key then Some val else None)"
  by (simp add: req_getQuery_def example_browser_def url_getQuery_def query_getQuery_def smap_find_def)

lemma example_token_exchange:
  "\<exists>C. token_client example_net newModule ''4/0'' = Inr C \<and> (\<exists>g1. take_reply example_net C g = Inr (ToUserId, g1))"
  using example_net_request token_client_request [of example_net _ newModule "''4/0''"]
  by (auto simp: take_reply_def client_end_def Let_def getResponseJson_def example_net_def is_object_def
      take_tokens_def typed_member_object as_string_def)

lemmas oauth_run_simps = oauth_step_def routeAll_def example_browser_query waits_for_def woken_def main_runs_def

text \<open>A user name that comes while the tokens are fetched is stored and wakes nobody.\<close>

lemma early_user_is_lost:
  "\<exists>g. oauth_run example_net newModule (ToAuth, oauth_globals_init)
       [MainRuns, Browser (example_browser ''code'' ''4/0''), MainRuns,
        Browser (example_browser ''userId'' ''me''), MainRuns, MainRuns, MainRuns] = Inr (WaitUserId, g)"
  using example_token_exchange [of "oauth_globals_init\<lparr>og_authCode := ''4/0'', og_userId := ''me''\<rparr>"]
  by (auto simp: oauth_run_simps)

theorem oauth_progress_witness:
  "\<exists>g. oauth_run example_net newModule (ToAuth, oauth_globals_init)
       [MainRuns, Browser (example_browser ''code'' ''4/0''), MainRuns, MainRuns, MainRuns,
        Browser (example_browser ''userId'' ''me''), MainRuns] = Inr (WaitExit, g) \<and>
     (\<forall>later p' g'. SpuriousWake \<notin> set later \<longrightarrow>
       oauth_run example_net newModule (WaitExit, g) later = Inr (p', g') \<longrightarrow> p' = WaitExit)"
proof -
  let ?evs = "[MainRuns, Browser (example_browser ''code'' ''4/0''), MainRuns, MainRuns, MainRuns,
        Browser (example_browser ''userId'' ''me''), MainRuns]"
  obtain g where g: "oauth_run example_net newModule (ToAuth, oauth_globals_init) ?evs = Inr (WaitExit, g)"
    using example_token_exchange [of "oauth_globals_init\<lparr>og_authCode := ''4/0''\<rparr>"]
    by (auto simp: oauth_run_simps)
  from oauth_progress [OF g] g show ?thesis by blast
qed

end
