(* ===== verification/CertificateStore.thy ===== *)
theory CertificateStore
  imports Certificate
begin

text \<open>
  The native classes of the certificate manager: \<open>certificateNativeUnix.cpp\<close> and
  \<open>certificateManagerNativeLinux.cpp\<close>, which do nothing, and \<open>certificateNativeWin.cpp\<close> and
  \<open>certificateManagerNativeWin.cpp\<close>, which copy the system's root certificates; and
  the types that every sequence of operations of the manager keeps.  Certificate contexts of
  Windows are named by numbers; the system calls are arguments.
\<close>

section \<open>Linux\<close>

definition linux_createX509Store :: "manager \<Rightarrow> rc \<times> manager" where
  "linux_createX509Store M = (0, M)"

definition linux_addCertificate :: "nat option \<Rightarrow> manager \<Rightarrow> rc \<times> manager" where
  "linux_addCertificate certPtr M = (0, M)"

definition unix_toNative :: "cert_impl \<Rightarrow> rc \<times> cert_impl" where
  "unix_toNative c = (0, c)"

definition unix_toX509 :: "cert_impl \<Rightarrow> rc \<times> cert_impl" where
  "unix_toX509 c = (0, c)"

definition unix_getNativeName :: "cert_impl \<Rightarrow> string" where
  "unix_getNativeName c = []"

section \<open>Windows\<close>

record native_impl = cert_impl +
  pCertContext :: "nat option"

definition newNativeImpl :: native_impl where
  "newNativeImpl = \<lparr>certX509 = None, certReqX509 = None, privateKey = None, dhKey = None, pCertContext = None\<rparr>"

definition win_toNative :: "(x509 option \<Rightarrow> nat option) \<Rightarrow> native_impl \<Rightarrow> rc \<times> native_impl" where
  "win_toNative make_context c =
     (let c1 = c\<lparr>pCertContext := make_context (certX509 c)\<rparr> in
      if pCertContext c1 = None then (-1, c1) else (0, c1))"

definition win_toX509 :: "(nat \<Rightarrow> x509 option) \<Rightarrow> native_impl \<Rightarrow> (rc \<times> native_impl) res" where
  "win_toX509 d2i c =
     (case pCertContext c of
        None \<Rightarrow> Inl NullDereference
      | Some ctx \<Rightarrow>
          let c1 = c\<lparr>certX509 := d2i ctx\<rparr> in Inr (if certX509 c1 = None then -1 else 0, c1))"

definition win_getNativeName :: "native_impl \<Rightarrow> string" where
  "win_getNativeName c = []"

text \<open>The destructor: the context it gives back, if the pointer is not null.\<close>

definition win_destruct :: "native_impl \<Rightarrow> nat list" where
  "win_destruct c = (case pCertContext c of None \<Rightarrow> [] | Some ctx \<Rightarrow> [ctx])"

text \<open>The context a variable or a member holds, given back.\<close>

definition give_back :: "nat option \<Rightarrow> nat list" where
  "give_back p = (case p of None \<Rightarrow> [] | Some ctx \<Rightarrow> [ctx])"

text \<open>
  The loop of \<open>createX509Store\<close>.  \<open>CertEnumCertificatesInStore\<close> gives back the context
  it is called with, \<open>prev\<close>, and returns the next one of the store; \<open>ctxs\<close> are the contexts
  still to come and \<open>freed\<close> those given back so far.  \<open>add\<close> tells whether
  \<open>X509_STORE_add_cert\<close> takes a certificate; it reports a refusal with 0, which the
  code does not see.
\<close>

fun win_enumerate ::
  "(nat \<Rightarrow> x509 option) \<Rightarrow> (dname \<Rightarrow> string) \<Rightarrow> (x509 \<Rightarrow> bool) \<Rightarrow> nat option \<Rightarrow> nat list \<Rightarrow>
   native_impl list \<Rightarrow> x509 list \<Rightarrow> nat list \<Rightarrow> (native_impl list \<times> x509 list \<times> nat list) res" where
  "win_enumerate d2i oneline add prev [] certList store freed = Inr (certList, store, freed @ give_back prev)"
| "win_enumerate d2i oneline add prev (ctx # rest) certList store freed =
     (let freed1 = freed @ give_back prev in
      bind_res (win_toX509 d2i (newNativeImpl\<lparr>pCertContext := Some ctx\<rparr>)) (\<lambda>(rc, c).
       if rc < 0 then win_enumerate d2i oneline add (Some ctx) rest (certList @ [c]) store freed1
       else
         bind_res (getInfo oneline (cert_impl.truncate c)) (\<lambda>_.
           win_enumerate d2i oneline add (Some ctx) rest (certList @ [c\<lparr>pCertContext := None\<rparr>])
             (store @ (case certX509 c of None \<Rightarrow> [] | Some x \<Rightarrow> if add x then [x] else [])) freed1)))"

text \<open>
  \<open>createX509Store\<close>: its result, the contexts that are given back, in order, first by
  clearing the old list and then by the enumeration, the new list and the certificates of the
  new store.
\<close>

definition win_createX509Store ::
  "bool \<Rightarrow> bool \<Rightarrow> (nat \<Rightarrow> x509 option) \<Rightarrow> (dname \<Rightarrow> string) \<Rightarrow> (x509 \<Rightarrow> bool) \<Rightarrow> nat list \<Rightarrow> native_impl list \<Rightarrow>
   (rc \<times> nat list \<times> native_impl list \<times> x509 list) res" where
  "win_createX509Store storeNew storeOpen d2i oneline add ctxs certList =
     (let cleared = concat (map win_destruct certList) in
      if \<not> storeNew then Inr (-1, cleared, [], [])
      else if \<not> storeOpen then Inr (-1, cleared, [], [])
      else bind_res (win_enumerate d2i oneline add None ctxs [] [] cleared) (\<lambda>(certs, store, freed).
        Inr (0, freed, certs, store)))"

definition win_addCertificate ::
  "(dname \<Rightarrow> string) \<Rightarrow> (x509 option \<Rightarrow> nat option) \<Rightarrow> (nat option \<Rightarrow> bool) \<Rightarrow> native_impl option \<Rightarrow>
   (rc \<times> native_impl) res" where
  "win_addCertificate oneline make_context add certPtr =
     (case certPtr of
        None \<Rightarrow> Inl NullDereference
      | Some c \<Rightarrow>
          bind_res (getInfo oneline (cert_impl.truncate c)) (\<lambda>_.
            case win_toNative make_context c of
              (rc, c1) \<Rightarrow>
                if rc < 0 then Inr (-1, c1)
                else if \<not> add (pCertContext c1) then Inr (-1, c1) else Inr (0, c1)))"

section \<open>The Windows list of certificates\<close>

lemma win_enumerate_eq:
  "win_enumerate d2i oneline add prev ctxs certList store freed =
     Inr (certList @ map (\<lambda>ctx. newNativeImpl\<lparr>certX509 := d2i ctx,
         pCertContext := if d2i ctx = None then Some ctx else None\<rparr>) ctxs,
       store @ filter add (List.map_filter d2i ctxs), freed @ give_back prev @ ctxs)"
proof (induction ctxs arbitrary: prev certList store freed)
  case Nil
  then show ?case by (simp add: List.map_filter_def)
next
  case (Cons ctx rest)
  then show ?case
    by (cases "d2i ctx") (simp_all add: win_toX509_def Let_def newNativeImpl_def getInfo_def
        cert_impl.truncate_def List.map_filter_def give_back_def)
qed

lemma destructed_contexts:
  "concat (map win_destruct (map (\<lambda>ctx. newNativeImpl\<lparr>certX509 := d2i ctx,
     pCertContext := if d2i ctx = None then Some ctx else None\<rparr>) ctxs)) = filter (\<lambda>ctx. d2i ctx = None) ctxs"
  by (induction ctxs) (simp_all add: win_destruct_def newNativeImpl_def)

section \<open>The types of the manager\<close>

text \<open>
  Pointers lead to certificates that were made, these have their keys, and the root and
  the server pointer lead to certificates with an X509 object.
\<close>

definition manager_wf :: "manager \<Rightarrow> bool" where
  "manager_wf M \<longleftrightarrow>
     (\<forall>i < mg_next M. privateKey (mg_heap M i) \<noteq> None \<and> dhKey (mg_heap M i) \<noteq> None \<and>
       (certX509 (mg_heap M i) \<noteq> None \<or> certReqX509 (mg_heap M i) \<noteq> None)) \<and>
     (\<forall>i \<ge> mg_next M. mg_heap M i = newCertificateImpl) \<and>
     (\<forall>i. mg_root M = Some i \<or> mg_server M = Some i \<longrightarrow> i < mg_next M \<and> certX509 (mg_heap M i) \<noteq> None)"

text \<open>One call of the manager's interface, with pointers the manager has handed out.\<close>

inductive manager_step ::
  "(string \<Rightarrow> x509 option) \<Rightarrow> (string \<Rightarrow> nat option) \<Rightarrow> (string \<Rightarrow> nat option) \<Rightarrow>
   manager \<Rightarrow> manager \<Rightarrow> bool" for rx rk rd where
  set_settings: "manager_step rx rk rd M (snd (manager_setSettingsDoc d M))"
| new_certificate: "newCertificate os d M = Inr (rc, p, M') \<Longrightarrow> manager_step rx rk rd M M'"
| new_request: "newRequest os d M = Inr (rc, p, M') \<Longrightarrow> manager_step rx rk rd M M'"
| sign_request: "\<forall>i. p = Some i \<longrightarrow> i < mg_next M \<Longrightarrow> signRequest os p ca d M = Inr (rc, M') \<Longrightarrow>
    manager_step rx rk rd M M'"
| root_localhost: "newCertRootLocalhost os d M = Inr (rc, p, M') \<Longrightarrow> manager_step rx rk rd M M'"
| server_localhost: "newCertServerLocalhost os d M = Inr (rc, p, M') \<Longrightarrow> manager_step rx rk rd M M'"
| load: "loadCertificate rx rk rd M = Inr (rc, p, M') \<Longrightarrow> manager_step rx rk rd M M'"
| create_store: "manager_step rx rk rd M (snd (linux_createX509Store M))"
| add_certificate: "manager_step rx rk rd M (snd (linux_addCertificate p M))"

inductive manager_reachable ::
  "(string \<Rightarrow> x509 option) \<Rightarrow> (string \<Rightarrow> nat option) \<Rightarrow> (string \<Rightarrow> nat option) \<Rightarrow> manager \<Rightarrow> bool" for rx rk rd where
  manager_new: "manager_reachable rx rk rd newManager"
| manager_next: "manager_reachable rx rk rd M \<Longrightarrow> manager_step rx rk rd M M' \<Longrightarrow> manager_reachable rx rk rd M'"

text \<open>The shapes of change that the operations make.\<close>

lemma manager_wf_new: "manager_wf newManager"
  by (simp add: manager_wf_def newManager_def)

lemma manager_wf_add:
  assumes "manager_wf M" "privateKey c \<noteq> None" "dhKey c \<noteq> None" "certX509 c \<noteq> None \<or> certReqX509 c \<noteq> None"
  shows "manager_wf (M\<lparr>mg_heap := (mg_heap M)(mg_next M := c), mg_next := Suc (mg_next M)\<rparr>)"
  using assms by (auto simp: manager_wf_def less_Suc_eq)

lemma manager_wf_sign:
  assumes "manager_wf M" "i < mg_next M" "certX509 c \<noteq> None" "privateKey c = privateKey (mg_heap M i)"
    and "dhKey c = dhKey (mg_heap M i)"
  shows "manager_wf (M\<lparr>mg_heap := (mg_heap M)(i := c)\<rparr>)"
  using assms by (auto simp: manager_wf_def)

lemma manager_wf_point:
  assumes "manager_wf M" "i < mg_next M" "certX509 (mg_heap M i) \<noteq> None"
  shows "manager_wf (M\<lparr>mg_root := Some i\<rparr>)" "manager_wf (M\<lparr>mg_server := Some i\<rparr>)"
  using assms by (auto simp: manager_wf_def)

lemma newCertificate_wf:
  assumes "manager_wf M" "newCertificate os d M = Inr (rc, p, M')"
  shows "manager_wf M' \<and> (rc < 0 \<or> p = Some (mg_next M) \<and> mg_next M' = Suc (mg_next M) \<and>
    certX509 (mg_heap M' (mg_next M)) \<noteq> None)"
proof -
  from assms(2) obtain op where op: "read_options d = Inr op"
    by (auto simp: newCertificate_def bind_res_Inr_iff)
  show ?thesis
  proof (cases "os_rsa_rc os < 0 \<or> os_dh_rc os < 0")
    case True
    with assms op show ?thesis by (auto simp: newCertificate_def split: if_splits)
  next
    case False
    then have "0 \<le> os_rsa_rc os" "0 \<le> os_dh_rc os" by simp_all
    from newCertificate_eq [OF op this refl, of M] assms(2) manager_wf_add [OF assms(1)] show ?thesis
      by auto
  qed
qed

lemma newRequest_wf:
  assumes "manager_wf M" "newRequest os d M = Inr (rc, p, M')"
  shows "manager_wf M' \<and> (rc < 0 \<or> p = Some (mg_next M) \<and> mg_next M' = Suc (mg_next M))"
  using assms manager_wf_add [OF assms(1)]
  by (auto simp: newRequest_def Let_def newCertificateImpl_def split: option.splits if_splits)

lemma signRequest_shape:
  assumes "signRequest os (Some i) ca d M = Inr (rc, M')"
  shows "\<exists>x. M' \<in> {M\<lparr>mg_heap := (mg_heap M)(i := (mg_heap M i)\<lparr>certX509 := Some x\<rparr>)\<rparr>,
    M\<lparr>mg_heap := (mg_heap M)(i := (mg_heap M i)\<lparr>certX509 := Some x\<rparr>), mg_server := Some i\<rparr>}"
proof -
  obtain op where op: "read_options d = Inr op"
    using assms by (cases "read_options d") (simp_all add: signRequest_def)
  obtain k where ca: "ca = Some k"
    using assms op by (cases ca) (simp_all add: signRequest_def)
  let ?M1 = "M\<lparr>mg_heap := (mg_heap M)(i := (mg_heap M i)\<lparr>certX509 := Some X509_new\<rparr>)\<rparr>"
  obtain xca where x: "certX509 (mg_heap ?M1 k) = Some xca"
    using assms op ca by (cases "certX509 (mg_heap ?M1 k)") (simp_all add: signRequest_def)
  obtain rc' signer where s: "X509_sign os (privateKey (mg_heap ?M1 k)) = (rc', signer)"
    by (cases "X509_sign os (privateKey (mg_heap ?M1 k))")
  have "\<exists>signed. signRequest os (Some i) ca d M =
      (let M2 = ?M1\<lparr>mg_heap := (mg_heap ?M1)(i := (mg_heap ?M1 i)\<lparr>certX509 := Some signed\<rparr>)\<rparr> in
       if rc' < 0 then Inr (-1, M2) else Inr (0, M2\<lparr>mg_server := Some i\<rparr>))"
    unfolding signRequest_def op ca bind_res.simps option.case Let_def x s prod.case by (rule exI) (rule refl)
  then obtain signed where "signRequest os (Some i) ca d M =
      (let M2 = ?M1\<lparr>mg_heap := (mg_heap ?M1)(i := (mg_heap ?M1 i)\<lparr>certX509 := Some signed\<rparr>)\<rparr> in
       if rc' < 0 then Inr (-1, M2) else Inr (0, M2\<lparr>mg_server := Some i\<rparr>))"
    by blast
  with assms show ?thesis
    by (intro exI [of _ signed]) (auto simp: Let_def split: if_splits)
qed

lemma signRequest_wf:
  assumes "manager_wf M" "i < mg_next M" "signRequest os (Some i) ca d M = Inr (rc, M')"
  shows "manager_wf M' \<and> mg_next M' = mg_next M \<and> certX509 (mg_heap M' i) \<noteq> None"
proof -
  obtain x where x: "M' \<in> {M\<lparr>mg_heap := (mg_heap M)(i := (mg_heap M i)\<lparr>certX509 := Some x\<rparr>)\<rparr>,
    M\<lparr>mg_heap := (mg_heap M)(i := (mg_heap M i)\<lparr>certX509 := Some x\<rparr>), mg_server := Some i\<rparr>}"
    using signRequest_shape [OF assms(3)] by blast
  let ?M = "M\<lparr>mg_heap := (mg_heap M)(i := (mg_heap M i)\<lparr>certX509 := Some x\<rparr>)\<rparr>"
  have wf: "manager_wf ?M" using assms(1,2) by (intro manager_wf_sign) simp_all
  moreover have "manager_wf (?M\<lparr>mg_server := Some i\<rparr>)" using assms(2) by (intro manager_wf_point wf) simp_all
  ultimately show ?thesis using x by auto
qed

lemma loadCertificate_wf:
  assumes "manager_wf M" "loadCertificate rx rk rd M = Inr (rc, p, M')"
  shows "manager_wf M'"
proof (cases p)
  case None
  with assms loadCertificate_None show ?thesis by blast
next
  case (Some i)
  with loadCertificate_Some assms obtain x k d where "i = mg_next M"
      "M' = M\<lparr>mg_heap := (mg_heap M)(i := newCertificateImpl\<lparr>certX509 := Some x, privateKey := Some (Key k),
        dhKey := Some (Key d)\<rparr>), mg_next := Suc i\<rparr>"
    by blast
  with manager_wf_add [OF assms(1)] show ?thesis by simp
qed

lemma newCertServerLocalhost_wf:
  assumes "manager_wf M" "newCertServerLocalhost os d M = Inr (rc, p, M')"
  shows "manager_wf M'"
proof -
  let ?doc = "Some (localhost_options ''localhost'' ''localhost'')"
  from assms(2) obtain rc1 p1 M1 where r: "newRequest os ?doc M = Inr (rc1, p1, M1)"
      "if rc1 < 0 then M' = M1 else \<exists>rc2 M2. signRequest os p1 (mg_root M1) ?doc M1 = Inr (rc2, M2) \<and>
        M' = M2\<lparr>mg_server := p1\<rparr>"
    by (auto simp: newCertServerLocalhost_def Let_def bind_res_Inr_iff split: if_splits)
  note w = newRequest_wf [OF assms(1) r(1)]
  show ?thesis
  proof (cases "rc1 < 0")
    case True
    with r(2) w show ?thesis by simp
  next
    case False
    with w have p1: "p1 = Some (mg_next M)" "manager_wf M1" "mg_next M < mg_next M1" by auto
    from r(2) False obtain rc2 M2 where s: "signRequest os (Some (mg_next M)) (mg_root M1) ?doc M1 = Inr (rc2, M2)"
        "M' = M2\<lparr>mg_server := Some (mg_next M)\<rparr>"
      using p1(1) by auto
    from signRequest_wf [OF p1(2,3) s(1)] p1(3) s(2) show ?thesis
      by (auto intro: manager_wf_point)
  qed
qed

lemma newCertRootLocalhost_wf:
  assumes "manager_wf M" "newCertRootLocalhost os d M = Inr (rc, p, M')"
  shows "manager_wf M'"
proof -
  from assms(2) obtain rc1 p1 M1 where r: "newCertificate os
      (Some (localhost_options ''BookFiler Certificate Authority'' ''bookfiler.com'')) M = Inr (rc1, p1, M1)"
      "M' = (if rc1 < 0 then M1 else M1\<lparr>mg_root := p1\<rparr>)"
    by (auto simp: newCertRootLocalhost_def bind_res_Inr_iff split: if_splits)
  from newCertificate_wf [OF assms(1) r(1)] r(2) show ?thesis
    by (auto intro: manager_wf_point)
qed

lemma manager_step_wf: "manager_step rx rk rd M M' \<Longrightarrow> manager_wf M \<Longrightarrow> manager_wf M'"
proof (induction rule: manager_step.induct)
  case (set_settings M d)
  then show ?case by (simp add: manager_setSettingsDoc_def manager_wf_def)
next
  case (sign_request p M os ca d rc M')
  then obtain i where "p = Some i" by (auto simp: signRequest_def bind_res_Inr_iff split: option.splits)
  with sign_request signRequest_wf show ?case by blast
next
  case (create_store M)
  then show ?case by (simp add: linux_createX509Store_def)
next
  case (add_certificate M p)
  then show ?case by (simp add: linux_addCertificate_def)
qed (auto dest: newCertificate_wf newRequest_wf newCertRootLocalhost_wf newCertServerLocalhost_wf loadCertificate_wf)

lemma manager_reachable_wf: "manager_reachable rx rk rd M \<Longrightarrow> manager_wf M"
  by (induction rule: manager_reachable.induct) (auto intro: manager_wf_new manager_step_wf)

section \<open>Properties\<close>

text \<open>
  C21. Every sequence of operations of the certificate manager, with whatever outcome of the
  OpenSSL calls, keeps the types of its heap: each certificate handed out has a key object
  and Diffie Hellman parameters and a certificate or a request, and the root and the server
  pointer lead to certificates.  In such a state making the server certificate reads through a null
  pointer exactly when there is no root certificate.
\<close>

theorem manager_keeps_types:
  assumes "manager_reachable rx rk rd M" "0 \<le> os_rsa_rc os" "0 \<le> os_dh_rc os"
  shows "manager_wf M \<and> (newCertServerLocalhost os d M = Inl NullDereference \<longleftrightarrow> mg_root M = None) \<and>
    (mg_root M \<noteq> None \<longrightarrow> (\<exists>M'. newCertServerLocalhost os d M = Inr (0, Some (mg_next M), M') \<and> manager_wf M'))"
proof -
  have wf: "manager_wf M" by (rule manager_reachable_wf [OF assms(1)])
  show ?thesis
  proof (cases "mg_root M")
    case None
    with wf assms(2,3) show ?thesis
      by (simp add: newCertServerLocalhost_def newRequest_def Let_def signRequest_def read_localhost_options)
  next
    case (Some ca)
    with wf obtain x where x: "ca < mg_next M" "certX509 (mg_heap M ca) = Some x"
      by (auto simp: manager_wf_def)
    then have "ca \<noteq> mg_next M" by simp
    from newCertServerLocalhost_eq [OF assms(2,3) refl Some this x(2), of d] obtain M' where
        M': "newCertServerLocalhost os d M = Inr (0, Some (mg_next M), M')"
      by blast
    from newCertServerLocalhost_wf [OF wf this] M' wf Some show ?thesis by simp
  qed
qed

theorem manager_keeps_types_witness:
  "manager_wf (snd (manager_setSettingsDoc None newManager)) \<and>
   newCertServerLocalhost example_openssl None (snd (manager_setSettingsDoc None newManager)) = Inl NullDereference"
proof -
  let ?M = "snd (manager_setSettingsDoc None newManager)"
  have r: "manager_reachable (\<lambda>_. None) (\<lambda>_. None) (\<lambda>_. None) ?M"
    by (rule manager_next [OF manager_new set_settings])
  have "mg_root ?M = None" by (simp add: manager_setSettingsDoc_def newManager_def)
  moreover have "0 \<le> os_rsa_rc example_openssl" "0 \<le> os_dh_rc example_openssl"
    by (simp_all add: example_openssl_def)
  ultimately show ?thesis using manager_keeps_types [OF r] by blast
qed

text \<open>
  C40. On Windows, copying the system's root store reports success and puts exactly the
  certificates that can be decoded and that OpenSSL takes into the new store, in their order.
  The enumeration gives every context back once; but each certificate that cannot be decoded
  stays in the list with its context, and the next call gives these contexts back a second
  time, when it clears the list.
\<close>

theorem windows_store_frees_twice:
  assumes "win_createX509Store True True d2i oneline add ctxs [] = Inr (rc, freed, certs, store)"
  shows "rc = 0 \<and> store = filter add (List.map_filter d2i ctxs) \<and> length certs = length ctxs \<and>
    freed = ctxs \<and>
    (\<forall>ctxs'. \<exists>certs' store'. win_createX509Store True True d2i oneline add ctxs' certs =
      Inr (0, filter (\<lambda>ctx. d2i ctx = None) ctxs @ ctxs', certs', store'))"
proof -
  have c: "certs = map (\<lambda>ctx. newNativeImpl\<lparr>certX509 := d2i ctx,
      pCertContext := if d2i ctx = None then Some ctx else None\<rparr>) ctxs" "rc = 0"
      "store = filter add (List.map_filter d2i ctxs)" "freed = ctxs"
    using assms by (auto simp: win_createX509Store_def win_enumerate_eq give_back_def)
  then show ?thesis
    using destructed_contexts [of d2i ctxs] by (simp add: win_createX509Store_def win_enumerate_eq give_back_def)
qed

theorem windows_store_frees_twice_witness:
  "\<exists>certs. win_createX509Store True True (\<lambda>n. if n = 2 then None else Some X509_new) (\<lambda>_. []) (\<lambda>_. True) [1, 2] [] =
       Inr (0, [1, 2], certs, [X509_new]) \<and>
     (\<exists>certs' store'. win_createX509Store True True (\<lambda>n. if n = 2 then None else Some X509_new) (\<lambda>_. []) (\<lambda>_. True) [] certs =
       Inr (0, [2], certs', store'))"
proof -
  let ?d = "\<lambda>n. if n = 2 then None else Some X509_new"
  obtain certs where c: "win_createX509Store True True ?d (\<lambda>_. []) (\<lambda>_. True) [1, 2] [] =
      Inr (0, [1, 2], certs, [X509_new])"
    by (simp add: win_createX509Store_def win_enumerate_eq List.map_filter_def give_back_def)
  from windows_store_frees_twice [OF c] have "\<forall>ctxs'. \<exists>certs' store'.
      win_createX509Store True True ?d (\<lambda>_. []) (\<lambda>_. True) ctxs' certs = Inr (0, [2] @ ctxs', certs', store')"
    by simp
  from this [rule_format, of "[]"] c show ?thesis by auto
qed

end
