(* ===== verification/Mime.thy ===== *)
theory Mime
  imports Prelude
begin

text \<open>
  \<open>mime_type\<close> of \<open>src/core/ServerUtil.cpp\<close>.  The case-insensitive comparison
  \<open>boost::beast::iequals\<close> is the argument \<open>iequals\<close>.
\<close>

section \<open>Definitions\<close>

text \<open>\<open>rfind\<close> of one character.\<close>

fun rfind_char :: "char \<Rightarrow> string \<Rightarrow> nat option" where
  "rfind_char c [] = None"
| "rfind_char c (x # xs) =
     (case rfind_char c xs of
        Some p \<Rightarrow> Some (Suc p)
      | None \<Rightarrow> if x = c then Some 0 else None)"

definition mime_ext :: "string \<Rightarrow> string" where
  "mime_ext path = (case rfind_char (CHR ''.'') path of None \<Rightarrow> [] | Some pos \<Rightarrow> drop pos path)"

definition mime_type :: "(string \<Rightarrow> string \<Rightarrow> bool) \<Rightarrow> string \<Rightarrow> string" where
  "mime_type iequals path =
     (let ext = mime_ext path in
      if iequals ext ''.htm'' then ''text/html''
      else if iequals ext ''.html'' then ''text/html''
      else if iequals ext ''.php'' then ''text/html''
      else if iequals ext ''.css'' then ''text/css''
      else if iequals ext ''.txt'' then ''text/plain''
      else if iequals ext ''.js'' then ''application/javascript''
      else if iequals ext ''.json'' then ''application/json''
      else if iequals ext ''.xml'' then ''application/xml''
      else if iequals ext ''.swf'' then ''application/x-shockwave-flash''
      else if iequals ext ''.flv'' then ''video/x-flv''
      else if iequals ext ''.png'' then ''image/png''
      else if iequals ext ''.jpe'' then ''image/jpeg''
      else if iequals ext ''.jpeg'' then ''image/jpeg''
      else if iequals ext ''.jpg'' then ''image/jpeg''
      else if iequals ext ''.gif'' then ''image/gif''
      else if iequals ext ''.bmp'' then ''image/bmp''
      else if iequals ext ''.ico'' then ''image/vnd.microsoft.icon''
      else if iequals ext ''.tiff'' then ''image/tiff''
      else if iequals ext ''.tif'' then ''image/tiff''
      else if iequals ext ''.svg'' then ''image/svg+xml''
      else if iequals ext ''.svgz'' then ''image/svg+xml''
      else ''application/text'')"

section \<open>The table of extensions\<close>

definition lower :: "char \<Rightarrow> char" where
  "lower c = (if 65 \<le> (of_char c :: nat) \<and> (of_char c :: nat) \<le> 90 then char_of (of_char c + (32 :: nat)) else c)"

text \<open>The documented behaviour of the comparison: equal but for ASCII case.\<close>

definition ascii_iequals :: "(string \<Rightarrow> string \<Rightarrow> bool) \<Rightarrow> bool" where
  "ascii_iequals iequals \<longleftrightarrow> (\<forall>a b. iequals a b \<longleftrightarrow> map lower a = map lower b)"

definition mime_table :: "(string \<times> string) list" where
  "mime_table =
     [(''htm'', ''text/html''), (''html'', ''text/html''), (''php'', ''text/html''),
      (''css'', ''text/css''), (''txt'', ''text/plain''), (''js'', ''application/javascript''),
      (''json'', ''application/json''), (''xml'', ''application/xml''),
      (''swf'', ''application/x-shockwave-flash''), (''flv'', ''video/x-flv''),
      (''png'', ''image/png''), (''jpe'', ''image/jpeg''), (''jpeg'', ''image/jpeg''),
      (''jpg'', ''image/jpeg''), (''gif'', ''image/gif''), (''bmp'', ''image/bmp''),
      (''ico'', ''image/vnd.microsoft.icon''), (''tiff'', ''image/tiff''), (''tif'', ''image/tiff''),
      (''svg'', ''image/svg+xml''), (''svgz'', ''image/svg+xml'')]"

text \<open>The text after the last dot, in lower case.\<close>

definition extension :: "string \<Rightarrow> string option" where
  "extension path =
     (if CHR ''.'' \<in> set path
      then Some (map lower (rev (takeWhile (\<lambda>c. c \<noteq> CHR ''.'') (rev path)))) else None)"

lemma rfind_char_None: "rfind_char c s = None \<longleftrightarrow> c \<notin> set s"
  by (induction s) (auto split: option.splits)

lemma rfind_char_last: "c \<notin> set t \<Longrightarrow> rfind_char c (s @ c # t) = Some (length s)"
proof (induction s)
  case Nil
  then have "rfind_char c t = None" by (simp add: rfind_char_None)
  then show ?case by simp
qed simp

lemma mime_ext_last: "CHR ''.'' \<notin> set t \<Longrightarrow> mime_ext (s @ CHR ''.'' # t) = CHR ''.'' # t"
  by (simp add: mime_ext_def rfind_char_last)

lemma extension_last: "CHR ''.'' \<notin> set t \<Longrightarrow> extension (s @ CHR ''.'' # t) = Some (map lower t)"
proof -
  assume t: "CHR ''.'' \<notin> set t"
  have "takeWhile (\<lambda>c. c \<noteq> CHR ''.'') (rev t @ CHR ''.'' # rev s) = rev t"
    using t by (subst takeWhile_append2) auto
  then show ?thesis by (simp add: extension_def)
qed

lemma mime_ext_extension:
  "map lower (mime_ext path) = (case extension path of None \<Rightarrow> [] | Some e \<Rightarrow> CHR ''.'' # e)"
proof (cases "CHR ''.'' \<in> set path")
  case True
  then obtain s t where p: "path = s @ CHR ''.'' # t" "CHR ''.'' \<notin> set t"
    by (meson split_list_last)
  have "lower (CHR ''.'') = CHR ''.''" by (simp add: lower_def)
  with p show ?thesis by (simp add: mime_ext_last extension_last)
next
  case False
  then have "rfind_char (CHR ''.'') path = None" by (simp add: rfind_char_None)
  with False show ?thesis by (simp add: mime_ext_def extension_def)
qed

lemma lower_literals:
  "map lower ''.htm'' = ''.htm''" "map lower ''.html'' = ''.html''" "map lower ''.php'' = ''.php''"
  "map lower ''.css'' = ''.css''" "map lower ''.txt'' = ''.txt''" "map lower ''.js'' = ''.js''"
  "map lower ''.json'' = ''.json''" "map lower ''.xml'' = ''.xml''" "map lower ''.swf'' = ''.swf''"
  "map lower ''.flv'' = ''.flv''" "map lower ''.png'' = ''.png''" "map lower ''.jpe'' = ''.jpe''"
  "map lower ''.jpeg'' = ''.jpeg''" "map lower ''.jpg'' = ''.jpg''" "map lower ''.gif'' = ''.gif''"
  "map lower ''.bmp'' = ''.bmp''" "map lower ''.ico'' = ''.ico''" "map lower ''.tiff'' = ''.tiff''"
  "map lower ''.tif'' = ''.tif''" "map lower ''.svg'' = ''.svg''" "map lower ''.svgz'' = ''.svgz''"
  by (simp_all add: lower_def)

lemma case_map_of_Cons:
  "(case map_of ((k, v) # m) e of None \<Rightarrow> d | Some t \<Rightarrow> t) =
     (if e = k then v else (case map_of m e of None \<Rightarrow> d | Some t \<Rightarrow> t))"
  by simp

lemma mime_type_table:
  assumes "ascii_iequals iequals"
  shows "mime_type iequals path =
    (case extension path of
       None \<Rightarrow> ''application/text''
     | Some e \<Rightarrow> (case map_of mime_table e of None \<Rightarrow> ''application/text'' | Some t \<Rightarrow> t))"
proof (cases "extension path")
  case None
  have "map lower (mime_ext path) = []"
    using mime_ext_extension [of path] None by simp
  then have "iequals (mime_ext path) (CHR ''.'' # w) = False" for w
    using assms by (simp add: ascii_iequals_def)
  with None show ?thesis by (simp only: mime_type_def Let_def if_False option.case)
next
  case (Some e)
  have "map lower (mime_ext path) = CHR ''.'' # e"
    using mime_ext_extension [of path] Some by simp
  then have "iequals (mime_ext path) w \<longleftrightarrow> CHR ''.'' # e = map lower w" for w
    using assms by (simp add: ascii_iequals_def)
  then show ?thesis
    unfolding mime_type_def Let_def Some option.case mime_table_def case_map_of_Cons
    by (simp only: lower_literals list.inject simp_thms map_of.simps option.case)
qed

section \<open>Properties\<close>

text \<open>
  The MIME type of a path is found in a table by the text after its last dot, with
  letters of either case alike; a path without a dot or with an extension that is not
  in the table is \<open>application/text\<close>.
\<close>

theorem mime_type_of_extension:
  assumes "ascii_iequals iequals"
  shows "mime_type iequals path =
    (case Option.bind (extension path) (map_of mime_table) of
       None \<Rightarrow> ''application/text'' | Some t \<Rightarrow> t)"
  unfolding mime_type_table [OF assms] by (cases "extension path") simp_all

theorem mime_type_of_extension_witness:
  "mime_type (\<lambda>s t. map lower s = map lower t) ''index.min.HTML'' = ''text/html''"
proof -
  have "ascii_iequals (\<lambda>s t. map lower s = map lower t)" by (simp add: ascii_iequals_def)
  show ?thesis
    unfolding mime_type_of_extension [OF \<open>ascii_iequals _\<close>] by code_simp
qed

end
