(* ===== verification/Logging.thy ===== *)
theory Logging
  imports Decimal
begin

text \<open>
  The log functions of \<open>src/bookfiler/Util.cpp\<close> and their wrappers in \<open>src/core/Util.cpp\<close>.
  Each takes the global mutex and writes its message in pieces, as the chained output operators
  do; threads are interleaved between the pieces.  Thread identifiers and the messages of error
  codes are texts.
\<close>

section \<open>Messages\<close>

definition newline :: string where
  "newline = [CHR 0x0A]"

definition logStatus_pieces :: "string \<Rightarrow> string \<Rightarrow> string \<Rightarrow> string \<Rightarrow> string list" where
  "logStatus_pieces thread moduleCode functionStr msg =
     [newline @ ''=== THREAD '', thread, '' ==='' @ newline, moduleCode, functionStr, '' '', msg, newline]"

definition logStatus_error_pieces :: "string \<Rightarrow> string \<Rightarrow> string \<Rightarrow> string \<Rightarrow> string \<Rightarrow> string list" where
  "logStatus_error_pieces thread moduleCode functionStr msg ec =
     [newline @ ''=== THREAD '', thread, '' ==='' @ newline, moduleCode, functionStr, '' '', msg,
      '' ERROR:'' @ newline, ec, newline]"

definition logConnectionStatus_pieces ::
  "string \<Rightarrow> string \<Rightarrow> nat \<Rightarrow> string \<Rightarrow> string \<Rightarrow> string list" where
  "logConnectionStatus_pieces thread moduleCode socketId functionStr msg =
     [newline @ ''=== THREAD '', thread, '', conn #'', dec_nat socketId, '' ==='' @ newline,
      moduleCode, functionStr, '' '', msg, newline]"

definition logConnectionStatus_error_pieces ::
  "string \<Rightarrow> string \<Rightarrow> nat \<Rightarrow> string \<Rightarrow> string \<Rightarrow> string \<Rightarrow> string list" where
  "logConnectionStatus_error_pieces thread moduleCode socketId functionStr msg ec =
     [newline @ ''=== THREAD '', thread, '', conn #'', dec_nat socketId, '' ==='' @ newline,
      moduleCode, functionStr, '' '', msg, '' ERROR:'' @ newline, ec, newline]"

text \<open>The wrappers of the HTTP module, which add its name.\<close>

datatype log_call =
    LogStatus string string
  | LogStatusError string string string
  | LogConnection nat string string
  | LogConnectionError nat string string string

definition http_moduleCode :: string where
  "http_moduleCode = ''bookfiler::HTTP''"

fun log_pieces :: "string \<Rightarrow> log_call \<Rightarrow> string list" where
  "log_pieces thread (LogStatus f msg) = logStatus_pieces thread http_moduleCode f msg"
| "log_pieces thread (LogStatusError f msg ec) = logStatus_error_pieces thread http_moduleCode f msg ec"
| "log_pieces thread (LogConnection s f msg) = logConnectionStatus_pieces thread http_moduleCode s f msg"
| "log_pieces thread (LogConnectionError s f msg ec) =
     logConnectionStatus_error_pieces thread http_moduleCode s f msg ec"

section \<open>Threads that log\<close>

record console =
  co_text :: string
  co_lock :: "nat option"
  co_left :: "nat \<Rightarrow> string list"
  co_calls :: "(nat \<times> log_call) list"

definition console_init :: console where
  "console_init = \<lparr>co_text = [], co_lock = None, co_left = (\<lambda>_. []), co_calls = []\<rparr>"

text \<open>
  A call takes the mutex, writes its pieces one after the other and gives the mutex back;
  \<open>co_calls\<close> lists the calls in the order in which they took it.
\<close>

inductive log_step :: "(nat \<Rightarrow> string) \<Rightarrow> console \<Rightarrow> console \<Rightarrow> bool" for name where
  take_lock: "co_lock C = None \<Longrightarrow>
    log_step name C (C\<lparr>co_lock := Some t, co_left := (co_left C)(t := log_pieces (name t) c),
      co_calls := co_calls C @ [(t, c)]\<rparr>)"
| write_piece: "co_lock C = Some t \<Longrightarrow> co_left C t = p # ps \<Longrightarrow>
    log_step name C (C\<lparr>co_text := co_text C @ p, co_left := (co_left C)(t := ps)\<rparr>)"
| give_lock: "co_lock C = Some t \<Longrightarrow> co_left C t = [] \<Longrightarrow> log_step name C (C\<lparr>co_lock := None\<rparr>)"

inductive_cases log_stepE: "log_step name C C'"

inductive log_reachable :: "(nat \<Rightarrow> string) \<Rightarrow> console \<Rightarrow> bool" for name where
  log_start: "log_reachable name console_init"
| log_next: "log_reachable name C \<Longrightarrow> log_step name C C' \<Longrightarrow> log_reachable name C'"

definition log_text :: "(nat \<Rightarrow> string) \<Rightarrow> (nat \<times> log_call) list \<Rightarrow> string" where
  "log_text name calls = concat (map (\<lambda>(t, c). concat (log_pieces (name t) c)) calls)"

definition pending :: "console \<Rightarrow> string" where
  "pending C = (case co_lock C of None \<Rightarrow> [] | Some t \<Rightarrow> concat (co_left C t))"

lemma log_reachable_text: "log_reachable name C \<Longrightarrow> co_text C @ pending C = log_text name (co_calls C)"
proof (induction rule: log_reachable.induct)
  case log_start
  then show ?case by (simp add: console_init_def pending_def log_text_def)
next
  case (log_next C C')
  from log_next.hyps(2) log_next.IH show ?case
    by (elim log_stepE) (auto simp: pending_def log_text_def)
qed

section \<open>Properties\<close>

text \<open>
  Under every interleaving of any number of threads, the messages of the log functions are
  never mixed: whenever the mutex is free, the output consists of the whole messages of the
  calls, one after the other in the order in which they took the mutex, and while it is
  taken the output lacks only the rest of the last one.
\<close>

theorem log_messages_whole:
  assumes "log_reachable name C"
  shows "(co_lock C = None \<longrightarrow> co_text C = log_text name (co_calls C)) \<and>
    (\<exists>rest. log_text name (co_calls C) = co_text C @ rest)"
  using log_reachable_text [OF assms, symmetric] by (auto simp: pending_def split: option.splits)

theorem log_messages_whole_witness:
  "\<exists>C. log_reachable (\<lambda>_. ''1'') C \<and> co_lock C = Some 0 \<and> co_text C = newline @ ''=== THREAD '' \<and>
     (\<exists>rest. log_text (\<lambda>_. ''1'') (co_calls C) = co_text C @ rest)"
proof -
  let ?c = "LogStatus ''f'' ''START''"
  let ?A = "console_init\<lparr>co_lock := Some 0, co_left := (co_left console_init)(0 := log_pieces ''1'' ?c),
    co_calls := co_calls console_init @ [(0, ?c)]\<rparr>"
  have "log_step (\<lambda>_. ''1'') console_init ?A"
    by (rule take_lock) (simp add: console_init_def)
  from log_next [OF log_start this] have a: "log_reachable (\<lambda>_. ''1'') ?A" .
  let ?B = "?A\<lparr>co_text := co_text ?A @ (newline @ ''=== THREAD ''),
      co_left := (co_left ?A)(0 := tl (log_pieces ''1'' ?c))\<rparr>"
  have "log_step (\<lambda>_. ''1'') ?A ?B"
    by (rule write_piece) (simp_all add: logStatus_pieces_def)
  from log_next [OF a this] have b: "log_reachable (\<lambda>_. ''1'') ?B" .
  have "co_lock ?B = Some 0 \<and> co_text ?B = newline @ ''=== THREAD ''"
    by (simp add: console_init_def)
  with b log_messages_whole [OF b] show ?thesis by blast
qed

end
