(* ===== verification/Spec2Isabelle.thy ===== *)
theory Spec2Isabelle
  imports Concurrent Registration OAuth CertificateStore Mime Logging
begin

text \<open>
  Verification development of BookFiler-Module-HTTP, a C++ module that gives other
  programs an HTTPS server with routes, an HTTPS client, URLs, cookies, certificates and
  templates over Boost.Beast, OpenSSL, rapidjson and a vendored URL library.  Paths
  below are relative to the repository root of the program, \<open>src/\<close> here.

  \<^bold>\<open>The program and its parts.\<close>  An application calls \<open>loadModule\<close>, which asks the module
  manager for every library of a directory that exports an object of the module's name.
  When the object is imported its callback runs \<open>init\<close> and \<open>registerSettings\<close>; the settings
  manager then reads one JSON file and calls, per module and setting, the callback the
  module registered.  When all modules are loaded the application makes a server with
  \<open>newServer\<close>, sets its settings, adds routes and calls \<open>run\<close>.  The server's listener accepts
  sockets; each becomes a connection with its own coroutine, which reads requests, looks a
  route up by method and path, runs the handlers of the route through a
  boost::signals2 signal whose combiner stops when a handler called \<open>end\<close>, and writes
  the response.  Handlers read a \<open>RequestImpl\<close> (URL, query, headers, cookies) and write a
  \<open>ResponseImpl\<close>.  Handlers of the OAuth program use the client to talk to another host.

  \<^bold>\<open>Which theory models what.\<close>
  \<^item> \<^bold>\<open>Prelude\<close>: results (an error or a value), byte arithmetic of a signed \<open>char\<close>, the
    substring and search functions of \<open>std::string\<close>, sorted association lists as
    \<open>std::map\<close>, and the locale \<open>ordered_map\<close>.  \<^bold>\<open>Decimal\<close>: \<open>std::to_string\<close> and \<open>std::stoi\<close>.
  \<^item> \<^bold>\<open>UriCodec\<close> (\<open>src/core/Util.cpp\<close>), \<^bold>\<open>UrlQuery\<close> (\<open>UrlQuery.cpp\<close>), \<^bold>\<open>UrlParser\<close>, \<^bold>\<open>UrlBase\<close>
    and \<^bold>\<open>UrlText\<close> (\<open>third_party/boost-url\<close>: the character classes, the parser and the
    buffer with its eight offsets), \<^bold>\<open>Url\<close> (\<open>Url.cpp\<close>).
  \<^item> \<^bold>\<open>Cookie\<close> (\<open>RequestCookie.cpp\<close>), \<^bold>\<open>Message\<close> (\<open>Request.cpp\<close>, \<open>RequestUserAgent.cpp\<close>,
    \<open>Response.cpp\<close>), \<^bold>\<open>Json\<close> (\<open>json.cpp\<close>), \<^bold>\<open>Mime\<close> (\<open>ServerUtil.cpp\<close>), \<^bold>\<open>Template\<close> (\<open>Template.cpp\<close>),
    \<^bold>\<open>Logging\<close> (\<open>src/bookfiler/Util.cpp\<close>).
  \<^item> \<^bold>\<open>Route\<close> (\<open>ServerRoute.cpp\<close>, the combiner of \<open>ServerUtil.hpp\<close>): tables of signals,
    registration, lookup, dispatch.  \<^bold>\<open>Concurrent\<close>: the loop of the combiner alone, interleaved
    between connections on one signal with any handlers.
  \<^item> \<^bold>\<open>Connection\<close> (\<open>ServerConnection.cpp\<close>): the coroutine as a state machine whose events
    are the results of its asynchronous operations.  \<^bold>\<open>Server\<close> (\<open>Server.cpp\<close>,
    \<open>ServerState.hpp\<close>, \<open>ServerListener.cpp\<close>): settings, start-up, routes, the accept loop.
    \<^bold>\<open>Serving\<close>: the listener and all its connections as one state machine, with the end of
    the process when an exception leaves a coroutine; each request is handled in one step.
    \<^bold>\<open>Threads\<close>: the same server on a pool of threads; the statements between the reading of a
    request and its response (\<open>Connection::run\<close>, \<open>RouteImpl::doSignal\<close>,
    \<open>RouteCombiner::operator()\<close>, with its call of a slot, its check of \<open>writableEnded\<close> and its
    read of the body) are steps of their own and interleave on the shared route table,
    combiners and responses.  \<^bold>\<open>Isolation\<close>: the invariants of all schedules.  \<^bold>\<open>Schedules\<close>:
    concrete schedules of two connections, and the properties of the pool.  \<^bold>\<open>Liveness\<close>: a
    measure on the statements of a request, and where exceptions come from.
    \<^bold>\<open>Registration\<close>: the application adds handlers (\<open>ServerImpl::route\<close>) while the pool runs.
    \<^bold>\<open>Client\<close> (\<open>Client.cpp\<close>): one exchange with a peer and the life time of its response.
  \<^item> \<^bold>\<open>Certificate\<close> (\<open>certificate.cpp\<close>, \<open>certificateManager.cpp\<close>), \<^bold>\<open>CertificateStore\<close>
    (\<open>certificate*Native*.cpp\<close>): certificates on a heap of shared pointers.
  \<^item> \<^bold>\<open>Module\<close> (\<open>src/Module.cpp\<close>, \<open>src/SshModule.cpp\<close>), \<^bold>\<open>Settings\<close>
    (\<open>third_party/Settings-Manager\<close>), \<^bold>\<open>Loader\<close> (\<open>third_party/Module-Manager\<close> and the two
    headers \<open>include/BookFilerModule*Loader.hpp\<close>).
  \<^item> \<^bold>\<open>Sites\<close> (the six server programs of \<open>src_example\<close>), \<^bold>\<open>OAuth\<close> (\<open>http-client-json\<close> and
    \<open>oauth2-google\<close>).  This theory: properties of the whole way.

  \<^bold>\<open>How state and operations correspond.\<close>  A class is a record of its members, a member
  function that changes them returns the changed record, and a \<open>std::shared_ptr\<close> that is
  shared is an index into a store (\<open>Route\<close>, \<open>Concurrent\<close>, \<open>Certificate\<close>).
  A result of type \<open>res\<close> is \<open>Inl\<close> of a C++ exception, or of undefined behaviour the code
  runs into, or \<open>Inr\<close> of the returned values; integer return codes are kept as integers.
  Widths are kept where they matter: the signed \<open>char\<close> of the percent decoder, the
  16 bit port, the 32 bit \<open>int\<close> of the certificate's seconds and of \<open>std::stoi\<close>, and the
  64 bit nanoseconds of the clock that a cookie's date is compared with.  A wait that
  nothing ends is the value \<open>Blocks\<close>: the wait of \<open>main\<close> for an exit that is never notified
  returns only when its condition variable wakes up on its own, which is a parameter.
  Coroutines, accept loops, threads on a condition variable and the main thread of the
  OAuth program are step functions on a record with a phase, run over a list of events.

  \<^bold>\<open>Libraries as parameters.\<close>  What is not in the repository is an argument: the HTTP
  message library and user agent parser (record \<open>lib\<close>), the network and TLS of the client
  (\<open>tls_net\<close>), OpenSSL (\<open>openssl\<close>), the file system, the JSON parser, the address parser and
  the settings of the host (\<open>outside\<close>, \<open>host\<close>), the Mustache renderer, and what
  \<open>signal::connect\<close> does with the position it is given.  Assumptions on them are named
  premises, the main one \<open>connects_at_back\<close>: a slot joins the end of its group, groups
  ascending, as boost::signals2 documents for \<open>at_back\<close>.  Every such theorem has a witness
  at a concrete library.

  \<^bold>\<open>What the lemmas show.\<close>
  \<^item> Whole way: the settings file decides where the site listens and every path gets its
    page (\<open>settings_file_to_pages\<close>); one route of a module-made server
    (\<open>module_serves_route\<close>).  Both are about whole sessions of acceptable requests, the first one
    for calls that took their own combiners.
  \<^item> Running server: connections that take turns do not influence each other's answers
    (a simulation between the server and a connection alone), and exactly when the process ends.
  \<^item> Thread pool: a run of \<open>Serving\<close> is one of its schedules (a refinement); under every
    schedule a connection whose calls took their own combiners, or any connection when
    no handler ends a response, is where it would be alone (a simulation, by the invariants
    \<open>pool_wf\<close> and \<open>synced\<close>); every response is complete even when a combiner was replaced; and
    two ways in which it goes wrong then: the text for another client, and an empty home page.
    No schedule starves a request (\<open>turns_left\<close> decreases at each turn), and the process ends
    only by an exception of the parser or of a handler.
  \<^item> Registration while serving: linearizability.  The specification is one connection that
    answers at once and registrations that take effect at once; reads may be delayed
    over registrations up to the next event of their connection (\<open>delays\<close>), and every run
    of the pool is at the same point as such a run (the simulation \<open>linked\<close>).  The
    invariants of the pool hold with registrations as well.
  \<^item> Connections: one response per request in order, complete responses in every run,
    exactly when 404, errors that end the coroutine, one that leaves it as an exception.
  \<^item> Routes: priority order, \<open>end\<close> stops the dispatch, the contract of \<open>doSignal\<close> against a
    specification (locales \<open>route_table\<close> and \<open>request_server\<close>, interpreted on the code's
    maps and connection).
  \<^item> Text: round trips of percent codec, query map, URL and cookie; the decoder against the
    declarative meaning of escapes; setters of a URL change one part (locale
    \<open>part_store\<close>, interpreted on the container).
  \<^item> Life times and types: the heap of certificates stays well-formed, the client's
    getters after a second exchange, the contexts of the Windows store that are released by
    the enumeration and again by the list, and the members of a nested settings request
    whose memory is gone when a file is deployed (\<open>deploy_returns\<close>).
  \<^item> Certificates: a chain with its root where key generation and signing succeed, the
    empty key where OpenSSL reports a failure, and what the TLS context of a site is given.
  \<^item> Start-up: deploying settings ends and calls what the master names, loaders call back
    once, wait and notify.

  \<^bold>\<open>Bounds and termination.\<close>  Loops that walk a structure are structural recursion.  The
  work list of the settings manager grows while it is walked, so its model is a partial
  function and \<open>deploy_returns\<close> shows that it ends for every document, because each entry of the
  list is smaller than the one it comes from.  No definition has a fuel argument.  Coroutines may run for ever; their
  properties are about every finite list of events.  An empty optional access is an error
  value where the code can reach it.

  \<^bold>\<open>Not modelled.\<close>
  \<^item> \<open>core/ServerSession\<close> (a class with no behaviour), \<open>src/unused\<close> and other files outside
    every build target, the abstract classes of \<open>Interface.hpp\<close>, and the vendored certify,
    mustache, rapidjson and uap-cpp libraries.
  \<^item> Of boost-url, what the program never calls: fragments, userinfo and port setters,
    segment and parameter iterators.
  \<^item> The classes behind the SSH factories: they are in no file of the repository.
  \<^item> Console output apart from the log functions and the JSON printers, the sleep of
    \<open>notFound\<close>, files that \<open>saveCertificate\<close> writes, the destructor of the server that joins
    threads that never end, races of the two threads of the OAuth program on its global strings.
  \<^item> Interleaving is modelled between the asynchronous operations of coroutines (\<open>Serving\<close>),
    between the statements of requests on several threads (\<open>Threads\<close>), for wait and
    notify and for the log mutex.  A handler is one statement: what it does to its own
    request and response happens at once.  And a call of a signal takes the
    combiner and the slots when it starts, as boost::signals2 does.  Data races (the
    reference counts, a new path inserted in a route map by the main thread while a lookup
    walks it) have no behaviour to model.

  \<^bold>\<open>Plan.\<close>  What is left of the program is declarations, console output and code that no
  build target reaches.
\<close>

section \<open>The whole way of a request\<close>

lemma server_route_get:
  assumes "connects_at_back cn" "route_options_of m route_defaults = ro" "ro_method ro = ''GET''"
    and "ro_function ro = Some h" "sv_router S = newRouteImpl"
  shows "\<exists>S'. server_route cn m S = Inr (0, S') \<and> routeAllMap (sv_router S') = [] \<and>
    (\<forall>p. slots_at (sv_router S') p =
      (if ro_path ro = p \<or> ro_path ro = ''*'' then Some [(ro_priority ro, h)] else None))"
proof -
  have "routeAllMap (snd (getAdd cn (ro_path ro) (ro_priority ro) h newRouteImpl)) = []"
    by (simp add: getAdd_def newRouteImpl_def split: prod.split)
  with assms show ?thesis by (simp add: server_route_def Let_def slots_at_fresh connect_first)
qed

text \<open>The page of a server with one GET route whose handler returns a fixed text.\<close>

definition one_page :: "string \<Rightarrow> string \<Rightarrow> request_impl \<Rightarrow> nat option \<times> string" where
  "one_page path body r =
     (if path = req_path r \<or> path = ''*'' then (Some 200, body)
      else (Some 404, ''The resource '' @ [CHR 0x27] @ req_path r @ [CHR 0x27] @ '' was not found.''))"

lemma one_route_response:
  assumes "\<And>p. slots_at R p = (if path = p \<or> path = ''*'' then Some [(pr, Some f)] else None)"
    and "\<And>r s. f r s = Inr (body, [])" "parsed L q = Inr r"
  shows "\<exists>x. response_for L R q = Inr x \<and> (rs_result x, rs_body x) = one_page path body r"
proof (cases "path = req_path r \<or> path = ''*''")
  case True
  then have "slots_at R (req_path r) = Some [(pr, Some f)]" by (simp add: assms(1))
  from response_of_returned [OF this assms(3,2)] True show ?thesis
    by (simp add: one_page_def fill_response_def)
next
  case False
  then have "slots_at R (req_path r) = None" by (simp add: assms(1))
  from response_of_nobody [OF this assms(3)] False show ?thesis
    by (simp add: one_page_def notFound_def fill_response_def)
qed

text \<open>
  C35. A server that the module makes, with one GET route whose handler returns a fixed
  text, serves the route on any number of threads: under every schedule of the statements
  of its connections, one that sends only acceptable requests with valid paths and closes gets a
  response to each of them, with status 200 and the text on the path of the route and 404
  elsewhere, and ends regularly.
\<close>

theorem module_serves_route:
  assumes "connects_at_back cn" "route_options_of m route_defaults = ro" "ro_method ro = ''GET''"
    and "ro_function ro = Some (Some f)" "\<And>r s. f r s = Inr (body, [])"
    and "\<forall>q \<in> set qs. accepted q \<and> (\<exists>r. parsed L q = Inr r)" "\<forall>k. \<not> rp_writableEnded (snd (st k))"
  shows "\<exists>S. server_route cn m (newServer s0 opts md) = Inr (0, S) \<and>
    (\<forall>evs P i. pool_run L (pool_start \<lparr>w_router = sv_router S, w_store = st, w_next = n\<rparr>) evs = Some P \<longrightarrow>
      i < length (connections (po_serving P)) \<longrightarrow> own_events i (outside_events evs) = whole_session qs \<longrightarrow>
      cn_phase (connections (po_serving P) ! i) = Returned 0 \<and>
      map (\<lambda>x. Inr (rs_result x, rs_body x)) (cn_written (connections (po_serving P) ! i)) =
        map (\<lambda>q. bind_res (parsed L q) (\<lambda>r. Inr (one_page (ro_path ro) body r))) qs)"
proof -
  have "sv_router (newServer s0 opts md) = newRouteImpl"
    by (simp add: newServer_def server_setSettingsDoc_def newServerImpl_def)
  from server_route_get [OF assms(1-4) this] obtain S where S: "server_route cn m (newServer s0 opts md) = Inr (0, S)"
      "routeAllMap (sv_router S) = []" "\<And>p. slots_at (sv_router S) p =
        (if ro_path ro = p \<or> ro_path ro = ''*'' then Some [(ro_priority ro, Some f)] else None)"
    by auto
  let ?W = "\<lparr>w_router = sv_router S, w_store = st, w_next = n\<rparr>"
  have quiet: "quiet_world ?W"
    using S(2,3) assms(5,7)
    by (intro quiet_world_by_slots) (auto simp: none_ended_def quiet_slots_def split: if_splits)
  define page where "page = (\<lambda>q. projr (response_for L (sv_router S) q))"
  have one: "accepted q \<and> response_for L (sv_router S) q = Inr (page q) \<and>
      Inr (rs_result (page q), rs_body (page q)) =
        bind_res (parsed L q) (\<lambda>r. Inr (one_page (ro_path ro) body r) :: _ res)"
    if "q \<in> set qs" for q
  proof -
    from assms(6) that obtain r where r: "accepted q" "parsed L q = Inr r" by blast
    from one_route_response [OF S(3) assms(5) r(2)] r show ?thesis by (auto simp: page_def)
  qed
  have "cn_phase (connections (po_serving P) ! i) = Returned 0 \<and> cn_written (connections (po_serving P) ! i) = map page qs"
    if "pool_run L (pool_start ?W) evs = Some P" "i < length (connections (po_serving P))"
      "own_events i (outside_events evs) = whole_session qs" for evs P i
    using one quiet by (intro pool_pipeline [OF that]) simp_all
  with S(1) one show ?thesis by (intro exI [of _ S] conjI allI impI) (assumption, simp_all)
qed

theorem module_serves_route_witness:
  "\<exists>S evs P. server_route group_insert [(''fn'', RFun (Some (\<lambda>_ _. Inr (''hello'', [])))), (''path'', RString ''/hi'')]
       (newServer (newServerState 0 0 0 ()) [] newModule) = Inr (0, S) \<and>
     pool_run example_lib (pool_start \<lparr>w_router = sv_router S, w_store = example_store, w_next = 0\<rparr>) evs = Some P \<and>
     map (\<lambda>r. (rs_result r, rs_body r)) (cn_written (connections (po_serving P) ! 1)) = [(Some 200, ''hello'')]"
proof -
  let ?m = "[(''fn'', RFun (Some (\<lambda>_ _. Inr (''hello'', [])))), (''path'', RString ''/hi'')]"
  let ?ro = "route_defaults\<lparr>ro_function := Some (Some (\<lambda>_ _. Inr (''hello'', []))), ro_path := ''/hi''\<rparr>"
  have ro: "route_options_of ?m route_defaults = ?ro" "ro_method ?ro = ''GET''"
      "ro_function ?ro = Some (Some (\<lambda>_ _. Inr (''hello'', [])))"
    by (simp_all add: route_option_def route_defaults_def)
  obtain r where r: "parsed example_lib example_request = Inr r" "req_path r = ''/hi''"
    using example_parsed by blast
  with example_accepted have q: "\<forall>q \<in> set [example_request]. accepted q \<and> (\<exists>r. parsed example_lib q = Inr r)"
    by simp
  have st: "\<forall>k. \<not> rp_writableEnded (snd (example_store k))"
    by (simp add: example_store_def newResponseImpl_def)
  note all = module_serves_route [OF group_insert_at_back ro refl q st, of "newServerState 0 0 0 ()" "[]" newModule 0]
  then obtain S where S: "server_route group_insert ?m (newServer (newServerState 0 0 0 ()) [] newModule) = Inr (0, S)"
    and serves: "\<And>evs P i. pool_run example_lib (pool_start \<lparr>w_router = sv_router S, w_store = example_store,
          w_next = 0\<rparr>) evs = Some P \<Longrightarrow>
        i < length (connections (po_serving P)) \<Longrightarrow> own_events i (outside_events evs) = whole_session [example_request] \<Longrightarrow>
        map (\<lambda>x. Inr (rs_result x, rs_body x) :: _ res) (cn_written (connections (po_serving P) ! i)) =
          map (\<lambda>q. bind_res (parsed example_lib q) (\<lambda>r. Inr (one_page (ro_path ?ro) ''hello'' r))) [example_request]"
    by blast
  let ?W = "\<lparr>w_router = sv_router S, w_store = example_store, w_next = 0\<rparr>"
  have "sv_router (newServer (newServerState 0 0 0 ()) [] newModule) = newRouteImpl"
    by (simp add: newServer_def server_setSettingsDoc_def newServerImpl_def)
  from server_route_get [OF group_insert_at_back ro this] S
  have slots: "\<And>p. slots_at (sv_router S) p = (if ro_path ?ro = p \<or> ro_path ?ro = ''*''
      then Some [(ro_priority ?ro, Some (\<lambda>_ _. Inr (''hello'', [])))] else None)"
    by auto
  from one_route_response [OF slots refl r(1)] obtain x where "response_for example_lib (w_router ?W) example_request = Inr x"
    by auto
  from two_sessions_scheduled [OF this] obtain evs P where
    P: "pool_run example_lib (pool_start ?W) evs = Some P" "outside_events evs = accepts_two @ two_sessions example_request"
      "2 \<le> length (connections (po_serving P))"
    by blast
  then have "1 < length (connections (po_serving P))" by simp
  from serves [OF P(1) this] two_sessions_own(2) r P(2)
  have "map (\<lambda>r. (rs_result r, rs_body r)) (cn_written (connections (po_serving P) ! 1)) = [(Some 200, ''hello'')]"
    by (auto simp: one_page_def)
  with S P(1) show ?thesis by (intro exI [of _ S] exI [of _ evs] exI [of _ P] conjI)
qed

lemma site_listening:
  assumes "site_run E A = Inr B"
  shows "\<exists>rc st. extractSettings (ou_address E) (sv_settings (si_server A)) (sv_state (si_server A)) = Inr (rc, st) \<and>
    sv_listening (si_server B) = Some (ss_address st, ss_port st)"
  using assms by (auto simp: site_run_def server_run_def bind_res_Inr_iff Let_def)

lemma start_site_server:
  "start_site E opts (Some md) = Inr A \<Longrightarrow> si_server A = newServer (ou_state E) opts md"
  by (auto simp: start_site_def bind_res_Inr_iff Let_def)

text \<open>
  C1. From the settings file to the pages.  When the directory holds a library that exports the
  module and the callback of the program with three pages gets as far as its
  \<open>wait("exit")\<close>, it listens where the settings of the file say, not on the port of its own
  map, and \<open>main\<close> stays in that call unless the condition variable wakes up on its own; then
  it returns 0, the callback having run once.  Meanwhile, on any number of threads and
  under every schedule, a connection that sends only acceptable requests with valid paths and
  closes, and whose calls took their own combiners, gets, in order, the page of each path, and
  ends regularly.
\<close>

theorem settings_file_to_pages:
  assumes "ho_dir H ''modules'' = Inr ps" "\<exists>p \<in> set ps. importable H p" "program_settings H = Inr md"
    and "server_allModulesLoaded E (Some md) = Inr A" "connects_at_back (ou_connector E)"
    and "pool_run L (pool_start \<lparr>w_router = sv_router (si_server A), w_store = st, w_next = n\<rparr>) evs = Some P"
    and "i < length (connections (po_serving P))" "own_events i (outside_events evs) = whole_session qs"
    and "i \<notin> po_foreign P"
    and "\<forall>q \<in> set qs. accepted q \<and> (\<exists>r. parsed L q = Inr r)"
  shows "server_main E exits H = (if exits then Inr (0, [A]) else Inl Blocks) \<and>
    (\<exists>rc st. extractSettings (ou_address E) (md_settingsDoc md) (ou_state E) = Inr (rc, st) \<and>
      sv_listening (si_server A) = Some (ss_address st, ss_port st)) \<and>
    cn_phase (connections (po_serving P) ! i) = Returned 0 \<and>
    map (\<lambda>x. Inr (rs_result x, rs_body x)) (cn_written (connections (po_serving P) ! i)) =
      map (\<lambda>q. bind_res (parsed L q) (\<lambda>r. Inr (server_page r))) qs"
proof -
  have main: "server_main E exits H = (if exits then Inr (0, [A]) else Inl Blocks)"
    unfolding server_main_def by (rule program_run, (rule assms(1-4))+)
  obtain A0 where A0: "start_site E local_options (Some md) = Inr A0"
      "site_run E (A0\<lparr>si_server := (si_server A0)\<lparr>sv_router := register_all (ou_connector E)
        (get_routes [(''/'', server_routeHome), (''/about'', server_routeAbout), (''/news'', server_routeNews)])
        (sv_router (si_server A0))\<rparr>\<rparr>) = Inr A"
    using assms(4) by (auto simp: server_allModulesLoaded_def bind_res_Inr_iff site_routes_register
        simp del: site_routes.simps)
  have listening: "\<exists>rc st. extractSettings (ou_address E) (md_settingsDoc md) (ou_state E) = Inr (rc, st) \<and>
      sv_listening (si_server A) = Some (ss_address st, ss_port st)"
    using site_listening [OF A0(2)] start_site_server [OF A0(1)]
    by (simp add: newServer_def server_setSettingsDoc_def newServerImpl_def)
  define page where "page = (\<lambda>q. projr (response_for L (sv_router (si_server A)) q))"
  have one: "accepted q \<and> response_for L (sv_router (si_server A)) q = Inr (page q) \<and>
      Inr (rs_result (page q), rs_body (page q)) = bind_res (parsed L q) (\<lambda>r. Inr (server_page r) :: _ res)"
    if "q \<in> set qs" for q
  proof -
    from assms(10) that obtain r where r: "accepted q" "parsed L q = Inr r" by blast
    from server_site_response [OF assms(4,5) r(2)] r show ?thesis by (auto simp: page_def)
  qed
  then have "cn_phase (connections (po_serving P) ! i) = Returned 0 \<and> cn_written (connections (po_serving P) ! i) = map page qs"
    using assms(9) by (intro pool_pipeline [OF assms(6-8)]) simp_all
  with one main listening show ?thesis by simp
qed

theorem settings_file_to_pages_witness:
  "\<exists>A evs P. server_allModulesLoaded example_outside (Some example_module) = Inr A \<and>
     server_main example_outside True program_host = Inr (0, [A]) \<and>
     server_main example_outside False program_host = Inl Blocks \<and>
     sv_listening (si_server A) = Some ((), 8081) \<and>
     pool_run example_lib
       (pool_start \<lparr>w_router = sv_router (si_server A), w_store = example_store, w_next = 0\<rparr>) evs = Some P \<and>
     cn_phase (connections (po_serving P) ! 1) = Returned 0 \<and>
     map rs_result (cn_written (connections (po_serving P) ! 1)) = [Some 404]"
proof -
  obtain A where A: "server_allModulesLoaded example_outside (Some example_module) = Inr A"
    using example_site unfolding server_allModulesLoaded_def by blast
  have dir: "ho_dir program_host ''modules'' = Inr [(''modules/http.so'', True)]"
    and imp: "\<exists>p \<in> set [(''modules/http.so'', True)]. importable program_host p"
    and settings: "program_settings program_host = Inr example_module"
    by (simp_all add: program_host_def importable_def is_library_def program_settings_def example_module_def)
  have at_back: "connects_at_back (ou_connector example_outside)"
    using group_insert_at_back by (simp add: example_outside_def)
  obtain r where r: "parsed example_lib example_request = Inr r" "req_path r = ''/hi''"
    using example_parsed by blast
  then have q: "\<forall>q \<in> set [example_request]. accepted q \<and> (\<exists>r. parsed example_lib q = Inr r)"
    using example_accepted by simp
  let ?W = "\<lparr>w_router = sv_router (si_server A), w_store = example_store, w_next = 0\<rparr>"
  have "response_for example_lib (w_router ?W) example_request = Inr (projr (response_for example_lib
      (sv_router (si_server A)) example_request))"
    using server_site_response [OF A at_back r(1)] by auto
  from two_sessions_scheduled [OF this] obtain evs P where
    P: "pool_run example_lib (pool_start ?W) evs = Some P" "outside_events evs = accepts_two @ two_sessions example_request"
      "po_foreign P = {}" "2 \<le> length (connections (po_serving P))"
    by blast
  have i: "1 < length (connections (po_serving P))" "own_events 1 (outside_events evs) = whole_session [example_request]"
      "1 \<notin> po_foreign P"
    using P(2-4) two_sessions_own(2) by simp_all
  have all: "server_main example_outside exits program_host = (if exits then Inr (0, [A]) else Inl Blocks) \<and>
      (\<exists>rc st. extractSettings (ou_address example_outside) (md_settingsDoc example_module) (ou_state example_outside) = Inr (rc, st) \<and>
        sv_listening (si_server A) = Some (ss_address st, ss_port st)) \<and>
      cn_phase (connections (po_serving P) ! 1) = Returned 0 \<and>
      map (\<lambda>x. Inr (rs_result x, rs_body x) :: _ res) (cn_written (connections (po_serving P) ! 1)) =
        map (\<lambda>q. bind_res (parsed example_lib q) (\<lambda>r. Inr (server_page r))) [example_request]" for exits
    by (rule settings_file_to_pages [OF dir imp settings A at_back P(1) i q])
  have "map (\<lambda>x. Inr (rs_result x, rs_body x) :: _ res) (cn_written (connections (po_serving P) ! 1)) =
      [Inr (server_page r)]"
    using all [of True] r(1) by simp
  then have "map rs_result (cn_written (connections (po_serving P) ! 1)) = [Some 404]"
    using r(2) by (auto simp: server_page_def)
  moreover have "sv_listening (si_server A) = Some ((), 8081)"
    using all [of True] example_extract by auto
  ultimately show ?thesis
    using all [of True] all [of False] A P(1) by (intro exI [of _ A] exI [of _ evs] exI [of _ P]) simp
qed

text \<open>
  C4. The home page can be lost.  On the server with three pages, two clients that ask for
  the home page at the same time can make one of them get an empty page with status
  200, although alone it would get the index: the combiner of the second request, which has
  not been ended yet, does not stop the call of the first, and its handler returns the empty text.
\<close>

theorem home_page_can_be_lost:
  assumes "server_allModulesLoaded E m = Inr A" "connects_at_back (ou_connector E)"
    and "accepted p" "accepted q" "parsed L p = Inr r" "parsed L q = Inr s" "req_path r = ''/''" "req_path s = ''/''"
  shows "\<exists>evs P. pool_run L (pool_start \<lparr>w_router = sv_router (si_server A), w_store = st, w_next = n\<rparr>) evs = Some P \<and>
    own_events 0 (outside_events evs) = [Handshaken True, ReadRequest p, Written True] \<and>
    map (\<lambda>x. (rs_result x, rs_body x)) (cn_written (connections (po_serving P) ! 0)) = [(Some 200, [])] \<and>
    (\<exists>x. response_for L (sv_router (si_server A)) p = Inr x \<and> (rs_result x, rs_body x) = (Some 200, index_page))"
proof -
  let ?W = "\<lparr>w_router = sv_router (si_server A), w_store = st, w_next = n\<rparr>"
  let ?f = "find_signal ''/'' (routeGetMap (w_router ?W)) (routeAllMap (w_router ?W))"
  have "slots_at (w_router ?W) ''/'' = Some [(10, Some server_routeHome)]"
    using site_slots [OF assms(1) [unfolded server_allModulesLoaded_def] assms(2)] by simp
  then have route: "ending_route (w_router ?W) ?f (\<lambda>_. []) (\<lambda>_. index_page)"
    unfolding slots_at_def selected_signal_at ending_route_def by (auto simp: server_routeHome_def)
  have "ri_beast r \<noteq> None" "ri_beast s \<noteq> None" using parsed_beast assms(5,6) by blast+
  note run = two_requests_run(2) [OF route this, unfolded assms(7,8), OF refl refl]
  from two_rounds_run [OF assms(3-6) run] obtain P where
    P: "pool_run L (pool_start ?W) (two_rounds p q [0, 1, 0, 1, 0, 0, 0, 0, 0, 0, 1, 1, 1, 1, 1, 1]) = Some P"
      "cn_written (connections (po_serving P) ! 0) = [filled L r []]"
    by blast
  have "map (\<lambda>x. (rs_result x, rs_body x)) (cn_written (connections (po_serving P) ! 0)) = [(Some 200, [])]"
    using P(2) by (simp add: filled_def fill_response_def)
  moreover have "\<exists>x. response_for L (sv_router (si_server A)) p = Inr x \<and> (rs_result x, rs_body x) = (Some 200, index_page)"
    using server_site_response [OF assms(1,2,5)] assms(7) by (simp add: server_page_def)
  ultimately show ?thesis
    by (intro exI [of _ "two_rounds p q [0, 1, 0, 1, 0, 0, 0, 0, 0, 0, 1, 1, 1, 1, 1, 1]"] exI [of _ P] conjI)
       (rule P(1), rule two_rounds_own(1), assumption+)
qed

theorem home_page_can_be_lost_witness:
  "\<exists>A evs P. server_allModulesLoaded example_outside (Some example_module) = Inr A \<and>
     pool_run example_lib (pool_start \<lparr>w_router = sv_router (si_server A), w_store = example_store, w_next = 0\<rparr>) evs = Some P \<and>
     map rs_body (cn_written (connections (po_serving P) ! 0)) = [[]]"
proof -
  obtain A where A: "server_allModulesLoaded example_outside (Some example_module) = Inr A"
    using example_site unfolding server_allModulesLoaded_def by blast
  have at_back: "connects_at_back (ou_connector example_outside)"
    using group_insert_at_back by (simp add: example_outside_def)
  have acc: "accepted (path_request ''/'')"
    by (simp add: accepted_def accepted_method_def illegal_target_def example_request_def path_request_def)
  have "\<exists>r. parsed example_lib (path_request ''/'') = Inr r \<and> req_path r = ''/''"
    by (rule parsed_path_at) code_simp
  then obtain r where r: "parsed example_lib (path_request ''/'') = Inr r" "req_path r = ''/''"
    by blast
  from home_page_can_be_lost [OF A at_back acc acc r(1) r(1) r(2) r(2), of example_store 0] obtain evs P where
    P: "pool_run example_lib (pool_start \<lparr>w_router = sv_router (si_server A), w_store = example_store, w_next = 0\<rparr>) evs = Some P"
      "map (\<lambda>x. (rs_result x, rs_body x)) (cn_written (connections (po_serving P) ! 0)) = [(Some 200, [])]"
    by (elim exE conjE) (rule that; assumption)
  from P(2) have "map rs_body (cn_written (connections (po_serving P) ! 0)) = [[]]" by auto
  with A P(1) show ?thesis by (intro exI [of _ A] exI [of _ evs] exI [of _ P] conjI)
qed

end
